(* ===== verification/Hive_Prelude.thy ===== *)
theory Hive_Prelude
  imports Main "HOL-Library.Word" "HOL-Library.Char_ord" "HOL-Library.List_Lexorder"
    "HOL-Library.Product_Lexorder"
begin

text \<open>
  Shared vocabulary of the development.

  \<^item> Machine integers are words of their C++ width; \<open>i64\<close> is a 64-bit word read
    with \<^const>\<open>sint\<close>. Signed overflow, which C++ leaves undefined, is the exception value
    \<open>Undefined_behaviour\<close> rather than a silent wrap.
  \<^item> A C++ exception is a value. A \<open>void\<close> function on a mutable object is a function
    from the old state to an \<open>outcome\<close>: \<open>Done s\<close> when it returns and \<open>Threw e s\<close>
    when it throws, where \<open>s\<close> is the state the exception leaves behind (C++ does not
    roll mutations back).
  \<^item> A \<open>const\<close> function that may throw returns \<open>exn + 'a\<close>.
  \<^item> Decimal printing and parsing as done by \<open>std::ostream\<close>, \<open>std::to_string\<close> and
    \<open>std::stoull\<close>.
\<close>

unbundle bit_operations_syntax

section \<open>Types\<close>

type_synonym u8 = "8 word"
type_synonym u16 = "16 word"
type_synonym u32 = "32 word"
type_synonym u64 = "64 word"
type_synonym i64 = "64 word"
type_synonym bytes = "u8 list"

datatype exn =
    Protocol_error string
  | Std_invalid_argument
  | Std_out_of_range
  | Undefined_behaviour

datatype 's outcome = Done 's | Threw exn 's

primrec outcome_state :: "'s outcome \<Rightarrow> 's" where
  "outcome_state (Done s) = s"
| "outcome_state (Threw e s) = s"

section \<open>Sequencing\<close>

text \<open>\<open>if(b) throw protocol_error(msg);\<close>\<close>

definition throw_if :: "bool \<Rightarrow> string \<Rightarrow> exn + unit" where
  "throw_if b msg = (if b then Inl (Protocol_error msg) else Inr ())"

text \<open>A sequence of checks: the first one that throws decides.\<close>

primrec checks :: "(exn + unit) list \<Rightarrow> exn + unit" where
  "checks [] = Inr ()"
| "checks (c # cs) = (case c of Inl e \<Rightarrow> Inl e | Inr _ \<Rightarrow> checks cs)"

text \<open>Run a state-preserving step that may throw, then continue.\<close>

definition attempt :: "'s \<Rightarrow> exn + 'a \<Rightarrow> ('a \<Rightarrow> 's outcome) \<Rightarrow> 's outcome" where
  "attempt s r k = (case r of Inl e \<Rightarrow> Threw e s | Inr x \<Rightarrow> k x)"

text \<open>Run a mutating step, then continue from the state it returns.\<close>

definition and_then :: "'s outcome \<Rightarrow> ('s \<Rightarrow> 's outcome) \<Rightarrow> 's outcome" where
  "and_then r k = (case r of Threw e s \<Rightarrow> Threw e s | Done s \<Rightarrow> k s)"

named_theorems outcome_simps \<open>inversion of outcomes into their guards\<close>

lemma throw_if_Inr [outcome_simps]: "throw_if b msg = Inr u \<longleftrightarrow> \<not> b"
  by (simp add: throw_if_def)

lemma throw_if_Inl [outcome_simps]: "throw_if b msg = Inl e \<longleftrightarrow> b \<and> e = Protocol_error msg"
  by (auto simp: throw_if_def)

lemma throw_if_eval [simp]:
  "throw_if True msg = Inl (Protocol_error msg)" "throw_if False msg = Inr ()"
  by (simp_all add: throw_if_def)

lemma checks_Cons_Inr [outcome_simps]:
  "checks (c # cs) = Inr u \<longleftrightarrow> c = Inr () \<and> checks cs = Inr ()"
  by (cases c) auto

lemma checks_Cons_Inl:
  "checks (c # cs) = Inl e \<longleftrightarrow> c = Inl e \<or> (c = Inr () \<and> checks cs = Inl e)"
  by (cases c) auto

lemma checks_Cons_eval [simp]:
  "checks (Inl e # cs) = Inl e" "checks (Inr u # cs) = checks cs"
  by simp_all

lemma checks_append: "checks (xs @ ys) = (case checks xs of Inl e \<Rightarrow> Inl e | Inr _ \<Rightarrow> checks ys)"
  by (induction xs) (auto split: sum.splits)

lemma checks_Inl_mem: "checks cs = Inl e \<Longrightarrow> Inl e \<in> set cs"
  by (induction cs) (auto split: sum.splits)

declare checks.simps(2) [simp del]

lemma attempt_Done [outcome_simps]:
  "attempt s r k = Done s' \<longleftrightarrow> (\<exists>x. r = Inr x \<and> k x = Done s')"
  by (cases r) (auto simp: attempt_def)

lemma attempt_Threw [outcome_simps]:
  "attempt s r k = Threw e s' \<longleftrightarrow>
     (r = Inl e \<and> s' = s) \<or> (\<exists>x. r = Inr x \<and> k x = Threw e s')"
  by (cases r) (auto simp: attempt_def)

lemma attempt_eval [simp]: "attempt s (Inl e) k = Threw e s" "attempt s (Inr x) k = k x"
  by (simp_all add: attempt_def)

lemma and_then_Done [outcome_simps]:
  "and_then r k = Done t \<longleftrightarrow> (\<exists>s. r = Done s \<and> k s = Done t)"
  by (cases r) (auto simp: and_then_def)

lemma and_then_Threw [outcome_simps]:
  "and_then r k = Threw e t \<longleftrightarrow>
     r = Threw e t \<or> (\<exists>s. r = Done s \<and> k s = Threw e t)"
  by (cases r) (auto simp: and_then_def)

lemma and_then_eval [simp]:
  "and_then (Done s) k = k s" "and_then (Threw e s) k = Threw e s"
  by (simp_all add: and_then_def)

text \<open>Computations whose only exception is \<open>protocol_error\<close>.\<close>

definition protocol_only :: "exn + 'a \<Rightarrow> bool" where
  "protocol_only r \<longleftrightarrow> (\<forall>e. r = Inl e \<longrightarrow> (\<exists>m. e = Protocol_error m))"

definition protocol_outcome :: "'s outcome \<Rightarrow> bool" where
  "protocol_outcome r \<longleftrightarrow> (\<forall>e s. r = Threw e s \<longrightarrow> (\<exists>m. e = Protocol_error m))"

named_theorems protocol_intros \<open>computations that throw only protocol errors\<close>

lemma protocol_only_basic [protocol_intros]:
  "protocol_only (Inr x)" "protocol_only (throw_if b m)" "protocol_only (checks [])"
  by (auto simp: protocol_only_def throw_if_def)

lemma protocol_only_checks [protocol_intros]:
  "protocol_only c \<Longrightarrow> protocol_only (checks cs) \<Longrightarrow> protocol_only (checks (c # cs))"
  by (auto simp: protocol_only_def checks_Cons_Inl)

lemma protocol_only_if [protocol_intros]:
  "protocol_only a \<Longrightarrow> protocol_only b \<Longrightarrow> protocol_only (if p then a else b)"
  by simp

lemma protocol_outcome_basic [protocol_intros]:
  "protocol_outcome (Done s)" "protocol_outcome (Threw (Protocol_error m) s)"
  by (simp_all add: protocol_outcome_def)

lemma protocol_outcome_attempt [protocol_intros]:
  "protocol_only r \<Longrightarrow> (\<And>x. r = Inr x \<Longrightarrow> protocol_outcome (k x)) \<Longrightarrow> protocol_outcome (attempt s r k)"
  by (cases r) (auto simp: protocol_only_def protocol_outcome_def)

lemma protocol_outcome_and_then [protocol_intros]:
  "protocol_outcome r \<Longrightarrow> (\<And>s. r = Done s \<Longrightarrow> protocol_outcome (k s)) \<Longrightarrow>
     protocol_outcome (and_then r k)"
  by (cases r) (auto simp: protocol_outcome_def)

lemma protocol_outcome_case_option [protocol_intros]:
  "(\<And>x. o' = Some x \<Longrightarrow> protocol_outcome (f x)) \<Longrightarrow>
     protocol_outcome (case o' of None \<Rightarrow> Threw (Protocol_error m) s | Some x \<Rightarrow> f x)"
  by (cases o') (auto intro: protocol_intros)

section \<open>Signed 64-bit arithmetic\<close>

definition INT64_MAX :: int where "INT64_MAX = 9223372036854775807"
definition INT64_MIN :: int where "INT64_MIN = - 9223372036854775808"

definition i64_add :: "i64 \<Rightarrow> i64 \<Rightarrow> exn + i64" where
  "i64_add a b =
     (if INT64_MIN \<le> sint a + sint b \<and> sint a + sint b \<le> INT64_MAX
      then Inr (a + b) else Inl Undefined_behaviour)"

definition i64_neg :: "i64 \<Rightarrow> exn + i64" where
  "i64_neg a = (if sint a = INT64_MIN then Inl Undefined_behaviour else Inr (- a))"

lemma sint_i64_range: "INT64_MIN \<le> sint (a :: i64) \<and> sint a \<le> INT64_MAX"
  using sint_ge [of a] sint_lt [of a] by (simp add: INT64_MIN_def INT64_MAX_def)

lemma sint_eq_self_i64:
  "INT64_MIN \<le> k \<Longrightarrow> k \<le> INT64_MAX \<Longrightarrow> signed_take_bit 63 k = k"
  by (simp add: INT64_MIN_def INT64_MAX_def signed_take_bit_int_eq_self)

lemma i64_add_Inr [outcome_simps]:
  "i64_add a b = Inr c \<longleftrightarrow>
     INT64_MIN \<le> sint a + sint b \<and> sint a + sint b \<le> INT64_MAX \<and> c = a + b"
  by (auto simp: i64_add_def)

lemma sint_i64_add:
  assumes "i64_add a b = Inr c"
  shows "sint c = sint a + sint b"
proof -
  have "sint (a + b) = signed_take_bit 63 (sint a + sint b)"
    by (simp add: sint_word_ariths)
  then show ?thesis
    using assms by (simp add: i64_add_Inr sint_eq_self_i64)
qed

lemma sint_i64_neg:
  assumes "i64_neg a = Inr c"
  shows "sint c = - sint a"
proof -
  have "sint (- a) = signed_take_bit 63 (- sint a)"
    by (simp add: sint_word_ariths)
  moreover have "INT64_MIN \<le> - sint a" "- sint a \<le> INT64_MAX"
    using assms sint_i64_range [of a]
    by (auto simp: i64_neg_def INT64_MIN_def INT64_MAX_def split: if_splits)
  ultimately show ?thesis
    using assms by (auto simp: i64_neg_def sint_eq_self_i64 split: if_splits)
qed

lemma i64_neg_total: "0 < sint a \<Longrightarrow> i64_neg a = Inr (- a)"
  by (simp add: i64_neg_def INT64_MIN_def)

section \<open>Decimal text\<close>

definition digit_char :: "nat \<Rightarrow> char" where
  "digit_char d = char_of (48 + d)"

fun dec_of_nat :: "nat \<Rightarrow> string" where
  "dec_of_nat n =
     (if n < 10 then [digit_char n] else dec_of_nat (n div 10) @ [digit_char (n mod 10)])"

declare dec_of_nat.simps [simp del]

definition dec_u64 :: "u64 \<Rightarrow> string" where
  "dec_u64 w = dec_of_nat (unat w)"

definition is_digit :: "char \<Rightarrow> bool" where
  "is_digit c \<longleftrightarrow> 48 \<le> (of_char c :: nat) \<and> (of_char c :: nat) \<le> 57"

definition digit_val :: "char \<Rightarrow> nat" where
  "digit_val c = of_char c - 48"

definition nat_of_dec :: "string \<Rightarrow> nat" where
  "nat_of_dec s = foldl (\<lambda>n c. 10 * n + digit_val c) 0 s"

text \<open>\<open>isspace\<close> in the "C" locale, as \<open>strtoull\<close> skips it.\<close>

definition is_space :: "char \<Rightarrow> bool" where
  "is_space c \<longleftrightarrow> of_char c = (32 :: nat) \<or> (9 \<le> (of_char c :: nat) \<and> (of_char c :: nat) \<le> 13)"

text \<open>
  \<open>std::stoull(s)\<close>: \<open>strtoull\<close> in base 10 skips white space, accepts one sign and reads
  the longest run of digits; no digit at all is \<open>std::invalid_argument\<close>, a magnitude
  above \<open>ULLONG_MAX\<close> is \<open>std::out_of_range\<close>, and a minus sign negates in the unsigned
  type.
\<close>

definition stoull :: "string \<Rightarrow> exn + u64" where
  "stoull s =
     (let t = dropWhile is_space s;
          neg = (t \<noteq> [] \<and> hd t = CHR ''-'');
          body = (if t \<noteq> [] \<and> (hd t = CHR ''-'' \<or> hd t = CHR ''+'') then tl t else t);
          ds = takeWhile is_digit body;
          n = nat_of_dec ds
      in if ds = [] then Inl Std_invalid_argument
         else if n \<ge> 2 ^ 64 then Inl Std_out_of_range
         else Inr (if neg then - of_nat n else of_nat n))"

lemma of_char_digit: "d < 10 \<Longrightarrow> of_char (digit_char d) = 48 + d"
  by (simp add: digit_char_def of_char_of)

lemma is_digit_digit_char [simp]: "d < 10 \<Longrightarrow> is_digit (digit_char d)"
  by (simp add: is_digit_def of_char_digit)

lemma digit_val_digit_char [simp]: "d < 10 \<Longrightarrow> digit_val (digit_char d) = d"
  by (simp add: digit_val_def of_char_digit)

lemma dec_of_nat_digits: "c \<in> set (dec_of_nat n) \<Longrightarrow> is_digit c"
proof (induction n rule: dec_of_nat.induct)
  case (1 n)
  then show ?case
    by (cases "n < 10") (auto simp: dec_of_nat.simps [of n])
qed

lemma dec_of_nat_nonempty [simp]: "dec_of_nat n \<noteq> []"
  by (subst dec_of_nat.simps) simp

lemma nat_of_dec_snoc: "nat_of_dec (s @ [c]) = 10 * nat_of_dec s + digit_val c"
  by (simp add: nat_of_dec_def)

lemma nat_of_dec_of_nat [simp]: "nat_of_dec (dec_of_nat n) = n"
proof (induction n rule: dec_of_nat.induct)
  case (1 n)
  show ?case
  proof (cases "n < 10")
    case True
    then show ?thesis by (subst dec_of_nat.simps) (simp add: nat_of_dec_def)
  next
    case False
    with 1 show ?thesis by (subst dec_of_nat.simps) (simp add: nat_of_dec_snoc)
  qed
qed

lemma dec_of_nat_inject [simp]: "dec_of_nat m = dec_of_nat n \<longleftrightarrow> m = n"
  by (metis nat_of_dec_of_nat)

lemma dec_u64_inject [simp]: "dec_u64 a = dec_u64 b \<longleftrightarrow> a = b"
  by (simp add: dec_u64_def word_unat_eq_iff)

lemma digit_not_special:
  assumes "is_digit c"
  shows "\<not> is_space c" "c \<noteq> CHR ''-''" "c \<noteq> CHR ''+''"
  using assms by (auto simp: is_digit_def is_space_def)

lemma hd_dec_of_nat: "is_digit (hd (dec_of_nat n))"
  by (rule dec_of_nat_digits [of _ n]) simp

lemma stoull_dec: "stoull (dec_u64 w) = Inr w"
proof -
  let ?s = "dec_of_nat (unat w)"
  have sp: "dropWhile is_space ?s = ?s"
    by (simp add: dropWhile_eq_self_iff digit_not_special(1) [OF hd_dec_of_nat])
  have tw: "takeWhile is_digit ?s = ?s"
    by (simp add: takeWhile_eq_all_conv dec_of_nat_digits)
  have "unat w < 2 ^ 64"
    using unsigned_less [of w, where ?'a = nat] by simp
  then show ?thesis
    using digit_not_special(2,3) [OF hd_dec_of_nat [of "unat w"]]
    by (simp add: stoull_def dec_u64_def Let_def sp tw)
qed

section \<open>Bytes and characters\<close>

text \<open>\<open>std::string(v.begin(), v.end())\<close> and back.\<close>

definition string_of_bytes :: "bytes \<Rightarrow> string" where
  "string_of_bytes bs = map (\<lambda>b. char_of (unat b)) bs"

definition bytes_of_string :: "string \<Rightarrow> bytes" where
  "bytes_of_string s = map (\<lambda>c. of_nat (of_char c)) s"

lemma bytes_of_string_of_bytes [simp]: "bytes_of_string (string_of_bytes bs) = bs"
proof -
  have "of_nat (of_char (char_of (unat b) :: char)) = b" for b :: u8
    using unsigned_less [of b, where ?'a = nat] by (simp add: of_char_of)
  then show ?thesis
    by (simp add: bytes_of_string_def string_of_bytes_def comp_def)
qed

lemma string_of_bytes_of_string [simp]: "string_of_bytes (bytes_of_string s) = s"
proof -
  have "char_of (unat (of_nat (of_char c) :: u8)) = c" for c :: char
    by (simp add: unat_of_nat)
  then show ?thesis
    by (simp add: bytes_of_string_def string_of_bytes_def comp_def)
qed

lemma length_string_of_bytes [simp]: "length (string_of_bytes bs) = length bs"
  by (simp add: string_of_bytes_def)

lemma length_bytes_of_string [simp]: "length (bytes_of_string s) = length s"
  by (simp add: bytes_of_string_def)

section \<open>Words\<close>

lemma unat_of_nat_u64: "n < 2 ^ 64 \<Longrightarrow> unat (of_nat n :: u64) = n"
  by (simp add: unat_of_nat)

lemma unat_plus_1: "(n :: u64) \<noteq> - 1 \<Longrightarrow> unat (n + 1) = Suc (unat n)"
  using unatSuc [of n] by (simp add: add.commute add_eq_0_iff)

lemma uint_plus_1: "(n :: u64) \<noteq> - 1 \<Longrightarrow> uint (n + 1) = uint n + 1"
  using arg_cong [OF unat_plus_1, of n int] by simp

lemma uint_minus_1: "(n :: u64) \<noteq> 0 \<Longrightarrow> uint (n - 1) = uint n - 1"
proof -
  assume "n \<noteq> 0"
  then have "1 \<le> unat n" "unat (n - 1) = unat n - 1"
    by (simp_all add: unat_gt_0 unat_minus_one Suc_le_eq)
  then have "int (unat (n - 1)) = int (unat n) - 1"
    by (simp only: of_nat_diff of_nat_1)
  then show ?thesis by simp
qed

lemma less_plus_1_iff: "(n :: u64) \<noteq> - 1 \<Longrightarrow> k < n + 1 \<longleftrightarrow> k < n \<or> k = n"
  by (auto simp: word_less_nat_alt unat_plus_1 word_unat_eq_iff less_Suc_eq)

end
