(* ===== verification/Ordered_Map.thy ===== *)
theory Ordered_Map
  imports Hive_Prelude
begin

text \<open>
  \<open>std::map\<close>: a finite map iterated in ascending key order. An \<open>omap\<close> is a list of
  key/value pairs with strictly ascending keys; \<open>om_find\<close>, \<open>om_put\<close> (\<open>m[k] = v\<close>),
  \<open>om_erase\<close> and \<open>om_entries\<close> (a range-for over the map) are the operations the
  program uses. The laws are \<open>[simp]\<close>, so a closed term over them evaluates by
  \<open>simp\<close>. \<open>om_sum\<close> folds a measure over the map; its update laws carry the conservation
  and counting proofs of the chain components.
\<close>

section \<open>The type\<close>

fun ins_pair :: "'k::linorder \<Rightarrow> 'v \<Rightarrow> ('k \<times> 'v) list \<Rightarrow> ('k \<times> 'v) list" where
  "ins_pair k v [] = [(k, v)]"
| "ins_pair k v ((k', v') # xs) =
     (if k < k' then (k, v) # (k', v') # xs
      else if k = k' then (k, v) # xs
      else (k', v') # ins_pair k v xs)"

definition ascending :: "('k::linorder \<times> 'v) list \<Rightarrow> bool" where
  "ascending xs \<longleftrightarrow> sorted_wrt (<) (map fst xs)"

lemma ascending_simps [simp]:
  "ascending []" "ascending (p # xs) \<longleftrightarrow> (\<forall>q \<in> set xs. fst p < fst q) \<and> ascending xs"
  by (auto simp: ascending_def)

lemma set_ins_pair: "set (ins_pair k v xs) \<subseteq> insert (k, v) (set xs)"
  by (induction k v xs rule: ins_pair.induct) auto

lemma ascending_ins_pair [simp]: "ascending xs \<Longrightarrow> ascending (ins_pair k v xs)"
proof (induction k v xs rule: ins_pair.induct)
  case (2 k v k' v' xs)
  then show ?case
    using set_ins_pair [of k v xs] by (fastforce dest: less_trans)
qed simp

lemma ascending_filter [simp]: "ascending xs \<Longrightarrow> ascending (filter P xs)"
  by (induction xs) auto

lemma ascending_distinct: "ascending xs \<Longrightarrow> distinct (map fst xs)"
  by (induction xs) fastforce+

typedef (overloaded) ('k::linorder, 'v) omap = "{xs :: ('k \<times> 'v) list. ascending xs}"
  morphisms om_entries Abs_omap
proof
  show "[] \<in> {xs. ascending xs}" by simp
qed

setup_lifting type_definition_omap

lift_definition om_empty :: "('k::linorder, 'v) omap" is "[]" by simp

lift_definition om_put :: "('k::linorder, 'v) omap \<Rightarrow> 'k \<Rightarrow> 'v \<Rightarrow> ('k, 'v) omap"
  is "\<lambda>xs k v. ins_pair k v xs" by simp

lift_definition om_erase :: "('k::linorder, 'v) omap \<Rightarrow> 'k \<Rightarrow> ('k, 'v) omap"
  is "\<lambda>xs k. filter (\<lambda>p. fst p \<noteq> k) xs" by simp

definition om_find :: "('k::linorder, 'v) omap \<Rightarrow> 'k \<Rightarrow> 'v option" where
  "om_find m k = map_of (om_entries m) k"

definition om_size :: "('k::linorder, 'v) omap \<Rightarrow> nat" where
  "om_size m = length (om_entries m)"

text \<open>A fold of an integer measure over the map, in key order.\<close>

definition om_sum :: "('k::linorder \<Rightarrow> 'v \<Rightarrow> int) \<Rightarrow> ('k, 'v) omap \<Rightarrow> int" where
  "om_sum f m = (\<Sum>p \<leftarrow> om_entries m. f (fst p) (snd p))"

section \<open>Laws\<close>

lemma om_entries_ascending [simp]: "ascending (om_entries m)"
  using om_entries [of m] by simp

lemma om_entries_empty [simp]: "om_entries om_empty = []"
  by (simp add: om_empty.rep_eq)

lemma om_entries_put [simp]: "om_entries (om_put m k v) = ins_pair k v (om_entries m)"
  by (simp add: om_put.rep_eq)

lemma om_entries_erase [simp]:
  "om_entries (om_erase m k) = filter (\<lambda>p. fst p \<noteq> k) (om_entries m)"
  by (simp add: om_erase.rep_eq)

lemma map_of_ins_pair:
  "ascending xs \<Longrightarrow> map_of (ins_pair k v xs) k' = (if k' = k then Some v else map_of xs k')"
proof (induction k v xs rule: ins_pair.induct)
  case (2 k v k1 v1 xs)
  then show ?case
    by (cases k k1 rule: linorder_cases) auto
qed simp

lemma map_of_filter_key:
  "map_of (filter (\<lambda>p. fst p \<noteq> k) xs) k' = (if k' = k then None else map_of xs k')"
  by (induction xs) auto

lemma om_find_empty [simp]: "om_find om_empty k = None"
  by (simp add: om_find_def)

lemma om_find_put [simp]: "om_find (om_put m k v) k' = (if k' = k then Some v else om_find m k')"
  by (simp add: om_find_def map_of_ins_pair)

lemma om_find_erase [simp]: "om_find (om_erase m k) k' = (if k' = k then None else om_find m k')"
  by (simp add: om_find_def map_of_filter_key)

lemma om_find_Some_iff: "om_find m k = Some v \<longleftrightarrow> (k, v) \<in> set (om_entries m)"
  by (simp add: om_find_def ascending_distinct)

lemma om_find_None_iff: "om_find m k = None \<longleftrightarrow> k \<notin> fst ` set (om_entries m)"
  by (simp add: om_find_def map_of_eq_None_iff)

lemma om_put_put [simp]: "om_put (om_put m k v) k w = om_put m k w"
proof -
  have "ins_pair k w (ins_pair k v xs) = ins_pair k w xs" for xs
    by (induction k v xs rule: ins_pair.induct) auto
  then show ?thesis by (simp add: om_entries_inject [symmetric])
qed

lemma om_put_commute:
  assumes "k \<noteq> l"
  shows "om_put (om_put m k v) l w = om_put (om_put m l w) k v"
proof -
  have "ins_pair l w (ins_pair k v xs) = ins_pair k v (ins_pair l w xs)" for xs
    using assms by (induction xs) auto
  then show ?thesis by (simp add: om_entries_inject [symmetric])
qed

lemma om_size_empty [simp]: "om_size om_empty = 0"
  by (simp add: om_size_def)

lemma length_ins_pair:
  "ascending xs \<Longrightarrow>
     length (ins_pair k v xs) = (if map_of xs k = None then Suc (length xs) else length xs)"
  by (induction k v xs rule: ins_pair.induct) (force simp: map_of_eq_None_iff)+

lemma om_size_put [simp]:
  "om_size (om_put m k v) = (if om_find m k = None then Suc (om_size m) else om_size m)"
  by (simp add: om_size_def om_find_def length_ins_pair)

lemma om_sum_empty [simp]: "om_sum f om_empty = 0"
  by (simp add: om_sum_def)

definition om_at :: "('k::linorder \<Rightarrow> 'v \<Rightarrow> int) \<Rightarrow> ('k, 'v) omap \<Rightarrow> 'k \<Rightarrow> int" where
  "om_at f m k = (case om_find m k of None \<Rightarrow> 0 | Some v \<Rightarrow> f k v)"

lemma om_at_simps [simp]:
  "om_find m k = None \<Longrightarrow> om_at f m k = 0"
  "om_find m k = Some v \<Longrightarrow> om_at f m k = f k v"
  by (simp_all add: om_at_def)

lemma om_sum_put: "om_sum f (om_put m k v) = om_sum f m - om_at f m k + f k v"
proof -
  have "ascending xs \<Longrightarrow>
      (\<Sum>p \<leftarrow> ins_pair k v xs. f (fst p) (snd p)) =
      (\<Sum>p \<leftarrow> xs. f (fst p) (snd p)) -
      (case map_of xs k of None \<Rightarrow> 0 | Some v \<Rightarrow> f k v) + f k v" for xs
  proof (induction k v xs rule: ins_pair.induct)
    case (2 k v k' v' xs)
    have "k < k' \<Longrightarrow> map_of xs k = None"
      using "2.prems" by (fastforce simp: map_of_eq_None_iff dest: less_trans)
    with 2 show ?case
      by (cases k k' rule: linorder_cases) auto
  qed simp
  then show ?thesis
    by (simp add: om_sum_def om_at_def om_find_def)
qed

lemma om_sum_erase: "om_sum f (om_erase m k) = om_sum f m - om_at f m k"
proof -
  have "ascending xs \<Longrightarrow>
      (\<Sum>p \<leftarrow> filter (\<lambda>p. fst p \<noteq> k) xs. f (fst p) (snd p)) =
      (\<Sum>p \<leftarrow> xs. f (fst p) (snd p)) -
      (case map_of xs k of None \<Rightarrow> 0 | Some v \<Rightarrow> f k v)" for xs
  proof (induction xs)
    case (Cons p xs)
    have "fst p = k \<Longrightarrow> map_of xs k = None \<and> filter (\<lambda>p. fst p \<noteq> k) xs = xs"
      using Cons.prems by (fastforce simp: map_of_eq_None_iff filter_id_conv)
    with Cons show ?case by auto
  qed simp
  then show ?thesis
    by (simp add: om_sum_def om_at_def om_find_def)
qed

lemma om_sum_cong:
  "(\<And>k v. om_find m k = Some v \<Longrightarrow> f k v = g k v) \<Longrightarrow> om_sum f m = om_sum g m"
  unfolding om_sum_def
  by (rule arg_cong [where f = sum_list]) (simp add: om_find_Some_iff)

lemma om_sum_nonneg: "(\<And>k v. om_find m k = Some v \<Longrightarrow> 0 \<le> f k v) \<Longrightarrow> 0 \<le> om_sum f m"
  unfolding om_sum_def by (rule sum_list_nonneg) (auto simp: om_find_Some_iff)

lemma om_sum_ge:
  assumes "\<And>k v. om_find m k = Some v \<Longrightarrow> 0 \<le> f k v" and "om_find m k = Some v"
  shows "f k v \<le> om_sum f m"
proof -
  have "0 \<le> om_sum f (om_erase m k)"
    using assms(1) by (auto intro!: om_sum_nonneg split: if_splits)
  then show ?thesis using assms(2) by (simp add: om_sum_erase)
qed

lemma om_sum_ge2:
  assumes "\<And>k v. om_find m k = Some v \<Longrightarrow> 0 \<le> f k v"
    and "om_find m k = Some v" "om_find m k' = Some v'" "k \<noteq> k'"
  shows "f k v + f k' v' \<le> om_sum f m"
proof -
  have "f k' v' \<le> om_sum f (om_erase m k)"
    using assms by (intro om_sum_ge) (auto split: if_splits)
  then show ?thesis using assms(2) by (simp add: om_sum_erase)
qed

section \<open>Tables of objects keyed by a dense id\<close>

text \<open>
  Collections, NFTs, HTLCs and contracts are all kept the same way: an object is stored
  under \<open>next_id++\<close> and carries its own id. \<open>table_ok\<close> is what every such table promises
  its clients; the laws below say that allocation, in-place update and erasure keep it.
\<close>

definition table_ok :: "('o \<Rightarrow> u64) \<Rightarrow> (u64, 'o) omap \<Rightarrow> u64 \<Rightarrow> bool" where
  "table_ok id_of t n \<longleftrightarrow>
     0 < n \<and> (\<forall>k v. om_find t k = Some v \<longrightarrow> id_of v = k \<and> 0 < k \<and> k < n)"

lemma table_ok_empty: "table_ok id_of om_empty 1"
  by (simp add: table_ok_def)

lemma table_ok_fresh: "table_ok id_of t n \<Longrightarrow> om_find t n = None"
  by (cases "om_find t n") (auto simp: table_ok_def)

lemma table_ok_id: "table_ok id_of t n \<Longrightarrow> om_find t k = Some v \<Longrightarrow> id_of v = k"
  by (simp add: table_ok_def)

lemma table_ok_alloc:
  assumes "table_ok id_of t n" and "n \<noteq> - 1" and "id_of v = n"
  shows "table_ok id_of (om_put t n v) (n + 1)"
proof -
  have "k < n + 1 \<longleftrightarrow> k < n \<or> k = n" for k
    using assms(2) by (simp add: less_plus_1_iff)
  then show ?thesis
    using assms by (auto simp: table_ok_def)
qed

lemma table_ok_update:
  "table_ok id_of t n \<Longrightarrow> om_find t k = Some v \<Longrightarrow> id_of w = id_of v \<Longrightarrow>
     table_ok id_of (om_put t k w) n"
  by (auto simp: table_ok_def)

lemma table_ok_erase: "table_ok id_of t n \<Longrightarrow> table_ok id_of (om_erase t k) n"
  by (auto simp: table_ok_def split: if_splits)

lemma table_ok_size:
  assumes "table_ok id_of t n"
  shows "om_size t < unat n"
proof -
  let ?ks = "map fst (om_entries t)"
  have "unat ` set ?ks \<subseteq> {1..<unat n}"
    using assms by (auto simp: table_ok_def om_find_Some_iff word_less_nat_alt unat_gt_0 Suc_le_eq)
  then have "card (unat ` set ?ks) \<le> unat n - 1"
    using card_mono [of "{1..<unat n}"] by simp
  moreover have "card (unat ` set ?ks) = length ?ks"
    by (simp only: card_image [OF inj_onI] word_unat_eq_iff
        distinct_card [OF ascending_distinct [OF om_entries_ascending]])
  moreover have "0 < unat n"
    using assms by (auto simp: table_ok_def unat_gt_0)
  ultimately show ?thesis
    by (simp add: om_size_def)
qed

text \<open>Counting the objects that satisfy a predicate.\<close>

definition om_count :: "('v \<Rightarrow> bool) \<Rightarrow> ('k::linorder, 'v) omap \<Rightarrow> int" where
  "om_count P m = om_sum (\<lambda>_ v. of_bool (P v)) m"

lemma om_count_empty [simp]: "om_count P om_empty = 0"
  by (simp add: om_count_def)

lemma om_count_nonneg [simp]: "0 \<le> om_count P m"
  by (simp add: om_count_def om_sum_nonneg)

lemma om_count_put_new:
  "om_find m k = None \<Longrightarrow> om_count P (om_put m k v) = om_count P m + of_bool (P v)"
  by (simp add: om_count_def om_sum_put)

lemma om_count_put_old:
  "om_find m k = Some w \<Longrightarrow> om_count P (om_put m k v) = om_count P m - of_bool (P w) + of_bool (P v)"
  by (simp add: om_count_def om_sum_put)

lemma om_count_erase:
  "om_find m k = Some w \<Longrightarrow> om_count P (om_erase m k) = om_count P m - of_bool (P w)"
  by (simp add: om_count_def om_sum_erase)

lemma om_count_pos: "om_find m k = Some v \<Longrightarrow> P v \<Longrightarrow> 0 < om_count P m"
  using om_sum_ge [of m "\<lambda>_ v. of_bool (P v)" k v] by (simp add: om_count_def)

lemma om_count_le_size: "om_count P m \<le> int (om_size m)"
proof -
  have "(\<Sum>p \<leftarrow> xs. of_bool (P (snd p))) \<le> int (length xs)" for xs
    by (induction xs) auto
  then show ?thesis
    by (simp add: om_count_def om_sum_def om_size_def)
qed

lemma om_count_length:
  "om_count P m = int (length (filter (\<lambda>p. P (snd p)) (om_entries m)))"
proof -
  have "(\<Sum>p \<leftarrow> xs. of_bool (P (snd p))) = int (length (filter (\<lambda>p. P (snd p)) xs))"
    for xs
    by (induction xs) auto
  then show ?thesis
    by (simp add: om_count_def om_sum_def)
qed

end
