(* ===== verification/Util_Types.thy ===== *)
theory Util_Types
  imports Ordered_Map
begin

text \<open>
  \<open>include/hive_native/util/types.hpp\<close>: the constants, the \<open>asset\<close> and \<open>hash_digest\<close>
  values, the name and length assertions, FNV-1a and the constant-time digest comparison.
  The hash functions declared there are in the theory \<open>Crypto\<close>.
\<close>

section \<open>Constants\<close>

definition HIVE_HARDFORK_NFT :: u32 where "HIVE_HARDFORK_NFT = 9001"
definition HIVE_HARDFORK_HTLC :: u32 where "HIVE_HARDFORK_HTLC = 9002"
definition HIVE_HARDFORK_CONTRACTS :: u32 where "HIVE_HARDFORK_CONTRACTS = 9003"

definition MAX_ACCOUNT_NAME_LEN :: nat where "MAX_ACCOUNT_NAME_LEN = 16"
definition MAX_NFT_SYMBOL_LEN :: nat where "MAX_NFT_SYMBOL_LEN = 16"
definition MAX_NFT_NAME_LEN :: nat where "MAX_NFT_NAME_LEN = 64"
definition MAX_NFT_URI_LEN :: nat where "MAX_NFT_URI_LEN = 256"
definition MAX_MEMO_LEN :: nat where "MAX_MEMO_LEN = 2048"
definition MAX_HTLC_PREIMAGE_LEN :: nat where "MAX_HTLC_PREIMAGE_LEN = 1024"
definition MAX_CONTRACT_EXPORT :: nat where "MAX_CONTRACT_EXPORT = 64"
definition MAX_CONTRACT_ARGS :: nat where "MAX_CONTRACT_ARGS = 64 * 1024"
definition MAX_CODE_BYTES :: nat where "MAX_CODE_BYTES = 512 * 1024"

definition HTLC_MIN_DURATION_SEC :: int where "HTLC_MIN_DURATION_SEC = 60"
definition HTLC_MAX_DURATION_SEC :: int where "HTLC_MAX_DURATION_SEC = 30 * 24 * 3600"
definition HTLC_MAX_OPEN_PER_ACCOUNT :: u32 where "HTLC_MAX_OPEN_PER_ACCOUNT = 256"

named_theorems hive_constants \<open>the values of the protocol constants\<close>

lemmas protocol_constants [hive_constants] =
  HIVE_HARDFORK_NFT_def HIVE_HARDFORK_HTLC_def HIVE_HARDFORK_CONTRACTS_def
  MAX_ACCOUNT_NAME_LEN_def MAX_NFT_SYMBOL_LEN_def MAX_NFT_NAME_LEN_def MAX_NFT_URI_LEN_def
  MAX_MEMO_LEN_def MAX_HTLC_PREIMAGE_LEN_def MAX_CONTRACT_EXPORT_def MAX_CONTRACT_ARGS_def
  MAX_CODE_BYTES_def HTLC_MIN_DURATION_SEC_def HTLC_MAX_DURATION_SEC_def
  HTLC_MAX_OPEN_PER_ACCOUNT_def

section \<open>Values\<close>

type_synonym account_name_type = string
type_synonym time_point_sec = u32
type_synonym share_type = i64

datatype asset_symbol = HIVE | HBD

record asset =
  amount :: share_type
  symbol :: asset_symbol

definition is_positive :: "asset \<Rightarrow> bool" where
  "is_positive a \<longleftrightarrow> 0 < sint (amount a)"

datatype hash_algo = SHA256 | RIPEMD160

record hash_digest =
  algo :: hash_algo
  digest_bytes :: bytes

section \<open>Assertions\<close>

definition char_between :: "char \<Rightarrow> char \<Rightarrow> char \<Rightarrow> bool" where
  "char_between lo hi c \<longleftrightarrow> lo \<le> c \<and> c \<le> hi"

definition account_name_char :: "char \<Rightarrow> bool" where
  "account_name_char c \<longleftrightarrow>
     char_between (CHR ''a'') (CHR ''z'') c \<or> char_between (CHR ''0'') (CHR ''9'') c
     \<or> c = CHR ''.'' \<or> c = CHR ''-''"

definition assert_account_name :: "string \<Rightarrow> exn + unit" where
  "assert_account_name name =
     checks [
       throw_if (name = [] \<or> length name > MAX_ACCOUNT_NAME_LEN) ''invalid account name length'',
       throw_if (\<exists>c \<in> set name. \<not> account_name_char c) ''invalid account name character'']"

definition assert_len :: "string \<Rightarrow> nat \<Rightarrow> string \<Rightarrow> exn + unit" where
  "assert_len s mx what = throw_if (length s > mx) (what @ '' too long'')"

section \<open>FNV-1a and constant-time comparison\<close>

definition fnv1a64 :: "string \<Rightarrow> u64" where
  "fnv1a64 data =
     foldl (\<lambda>h c. (h XOR of_nat (of_char c)) * 1099511628211) 14695981039346656037 data"

definition constant_time_equal :: "bytes \<Rightarrow> bytes \<Rightarrow> bool" where
  "constant_time_equal a b =
     (if length a \<noteq> length b then False
      else foldl (\<lambda>diff i. diff OR (a ! i XOR b ! i)) 0 [0..<length a] = 0)"

section \<open>Lemmas\<close>

definition account_name_ok :: "string \<Rightarrow> bool" where
  "account_name_ok name \<longleftrightarrow>
     name \<noteq> [] \<and> length name \<le> MAX_ACCOUNT_NAME_LEN \<and> (\<forall>c \<in> set name. account_name_char c)"

lemma assert_account_name_Inr [outcome_simps]:
  "assert_account_name name = Inr u \<longleftrightarrow> account_name_ok name"
  by (auto simp: assert_account_name_def account_name_ok_def outcome_simps not_less)

lemma assert_account_name_eval [simp]:
  "account_name_ok name \<Longrightarrow> assert_account_name name = Inr ()"
  by (simp add: assert_account_name_Inr)

lemma assert_len_Inr [outcome_simps]: "assert_len s mx what = Inr u \<longleftrightarrow> length s \<le> mx"
  by (auto simp: assert_len_def outcome_simps)

lemma protocol_only_asserts [protocol_intros]:
  "protocol_only (assert_account_name name)" "protocol_only (assert_len s mx what)"
  unfolding assert_account_name_def assert_len_def by (intro protocol_intros)+

lemma account_name_ok_nonempty: "account_name_ok name \<Longrightarrow> name \<noteq> []"
  by (simp add: account_name_ok_def)

lemma account_name_no_colon: "account_name_ok name \<Longrightarrow> CHR '':'' \<notin> set name"
  by (auto simp: account_name_ok_def account_name_char_def char_between_def less_eq_char_def)

lemma or_eq_0_iff: "(a :: 'a::len word) OR b = 0 \<longleftrightarrow> a = 0 \<and> b = 0"
  by (auto simp: bit_eq_iff bit_simps)

lemma xor_eq_0_iff: "(a :: 'a::len word) XOR b = 0 \<longleftrightarrow> a = b"
  by (auto simp: bit_eq_iff bit_simps)

lemma foldl_or_eq_0:
  "foldl (\<lambda>d i. d OR f i) (d0 :: 'a::len word) is = 0 \<longleftrightarrow> d0 = 0 \<and> (\<forall>i \<in> set is. f i = 0)"
  by (induction "is" arbitrary: d0) (auto simp: or_eq_0_iff)

lemma constant_time_equal_iff: "constant_time_equal a b \<longleftrightarrow> a = b"
  by (auto simp: constant_time_equal_def foldl_or_eq_0 xor_eq_0_iff intro: nth_equalityI)

end
