(* ===== verification/Crypto.thy ===== *)
theory Crypto
  imports Util_Types
begin

text \<open>
  \<open>src/util/crypto.cpp\<close> and the hashing helpers of \<open>types.hpp\<close>: SHA-256 and RIPEMD-160
  with their block loops, padding and output encoding, and \<open>digest_of\<close>. A \<open>const
  uint8_t*\<close> with a length is a byte list; \<open>data + offset\<close> is the suffix not yet consumed.
  A message is shorter than \<open>2^64\<close> bytes, as \<open>size_t\<close> requires; the bit length is the
  64-bit product the code computes.

  The locale \<open>md_hash\<close> states what the two functions have in common (the same loop and
  the same padding around two compression functions) and proves once that such a function
  is the fold of its compression function over the padded message; both hashes are
  interpretations of it.
\<close>

section \<open>SHA-256\<close>

definition rotr :: "u32 \<Rightarrow> nat \<Rightarrow> u32" where
  "rotr x n = drop_bit n x OR push_bit (32 - n) x"

text \<open>The table \<open>K\<close>, in decimal.\<close>

definition sha256_K :: "u32 list" where
  "sha256_K = [
     1116352408, 1899447441, 3049323471, 3921009573, 961987163, 1508970993,
     2453635748, 2870763221, 3624381080, 310598401, 607225278, 1426881987,
     1925078388, 2162078206, 2614888103, 3248222580, 3835390401, 4022224774,
     264347078, 604807628, 770255983, 1249150122, 1555081692, 1996064986,
     2554220882, 2821834349, 2952996808, 3210313671, 3336571891, 3584528711,
     113926993, 338241895, 666307205, 773529912, 1294757372, 1396182291,
     1695183700, 1986661051, 2177026350, 2456956037, 2730485921, 2820302411,
     3259730800, 3345764771, 3516065817, 3600352804, 4094571909, 275423344,
     430227734, 506948616, 659060556, 883997877, 958139571, 1322822218,
     1537002063, 1747873779, 1955562222, 2024104815, 2227730452, 2361852424,
     2428436474, 2756734187, 3204031479, 3329325298]"

type_synonym sha256_state = "u32 \<times> u32 \<times> u32 \<times> u32 \<times> u32 \<times> u32 \<times> u32 \<times> u32"

definition sha256_load :: "bytes \<Rightarrow> nat \<Rightarrow> u32" where
  "sha256_load block i =
     push_bit 24 (ucast (block ! (i * 4))) OR push_bit 16 (ucast (block ! (i * 4 + 1))) OR
     push_bit 8 (ucast (block ! (i * 4 + 2))) OR ucast (block ! (i * 4 + 3))"

definition sha256_w_next :: "u32 list \<Rightarrow> u32" where
  "sha256_w_next W =
     (let i = length W;
          s0 = rotr (W ! (i - 15)) 7 XOR rotr (W ! (i - 15)) 18 XOR drop_bit 3 (W ! (i - 15));
          s1 = rotr (W ! (i - 2)) 17 XOR rotr (W ! (i - 2)) 19 XOR drop_bit 10 (W ! (i - 2))
      in W ! (i - 16) + s0 + W ! (i - 7) + s1)"

primrec sha256_extend :: "nat \<Rightarrow> u32 list \<Rightarrow> u32 list" where
  "sha256_extend 0 W = W"
| "sha256_extend (Suc n) W = sha256_extend n (W @ [sha256_w_next W])"

definition sha256_schedule :: "bytes \<Rightarrow> u32 list" where
  "sha256_schedule block = sha256_extend 48 (map (sha256_load block) [0..<16])"

fun sha256_round :: "sha256_state \<Rightarrow> u32 \<times> u32 \<Rightarrow> sha256_state" where
  "sha256_round (a, b, c, d, e, f, g, h) (K, W) =
     (let S1 = rotr e 6 XOR rotr e 11 XOR rotr e 25;
          ch = (e AND f) XOR ((NOT e) AND g);
          t1 = h + S1 + ch + K + W;
          S0 = rotr a 2 XOR rotr a 13 XOR rotr a 22;
          maj = (a AND b) XOR (a AND c) XOR (b AND c);
          t2 = S0 + maj
      in (t1 + t2, a, b, c, d + t1, e, f, g))"

fun sha256_add :: "sha256_state \<Rightarrow> sha256_state \<Rightarrow> sha256_state" where
  "sha256_add (a, b, c, d, e, f, g, h) (a', b', c', d', e', f', g', h') =
     (a + a', b + b', c + c', d + d', e + e', f + f', g + g', h + h')"

definition sha256_transform :: "sha256_state \<Rightarrow> bytes \<Rightarrow> sha256_state" where
  "sha256_transform st block =
     sha256_add st (foldl sha256_round st (zip sha256_K (sha256_schedule block)))"

definition sha256_init :: sha256_state where
  "sha256_init =
     (0x6a09e667, 0xbb67ae85, 0x3c6ef372, 0xa54ff53a,
      0x510e527f, 0x9b05688c, 0x1f83d9ab, 0x5be0cd19)"

text \<open>\<open>while(len - offset >= 64)\<close>: the state and the unconsumed tail.\<close>

function sha256_blocks :: "sha256_state \<Rightarrow> bytes \<Rightarrow> sha256_state \<times> bytes" where
  "sha256_blocks st data =
     (if length data \<ge> 64 then sha256_blocks (sha256_transform st (take 64 data)) (drop 64 data)
      else (st, data))"
  by pat_completeness auto
termination
  by (relation "measure (\<lambda>(st, data). length data)") auto

declare sha256_blocks.simps [simp del]

text \<open>\<open>block[63 - i] = uint8_t((bitlen >> (8 * i)) & 0xff)\<close> for \<open>i\<close> in \<open>0..7\<close>.\<close>

definition sha256_put_len :: "bytes \<Rightarrow> u64 \<Rightarrow> bytes" where
  "sha256_put_len block bitlen =
     foldl (\<lambda>blk i. blk[63 - i := ucast (drop_bit (8 * i) bitlen AND 0xff)]) block [0..<8]"

definition sha256_finish :: "sha256_state \<Rightarrow> bytes \<Rightarrow> nat \<Rightarrow> sha256_state" where
  "sha256_finish st tail len =
     (let rem = length tail;
          block = (tail @ replicate (64 - rem) 0)[rem := 0x80];
          (st, block) =
            (if rem \<ge> 56 then (sha256_transform st block, replicate 64 0) else (st, block));
          bitlen = of_nat len * 8
      in sha256_transform st (sha256_put_len block bitlen))"

definition sha256_word_bytes :: "u32 \<Rightarrow> bytes" where
  "sha256_word_bytes w =
     [ucast (drop_bit 24 w AND 0xff), ucast (drop_bit 16 w AND 0xff),
      ucast (drop_bit 8 w AND 0xff), ucast (w AND 0xff)]"

fun sha256_output :: "sha256_state \<Rightarrow> bytes" where
  "sha256_output (a, b, c, d, e, f, g, h) =
     concat (map sha256_word_bytes [a, b, c, d, e, f, g, h])"

definition sha256 :: "bytes \<Rightarrow> bytes" where
  "sha256 data =
     (let (st, tail) = sha256_blocks sha256_init data
      in sha256_output (sha256_finish st tail (length data)))"

section \<open>RIPEMD-160\<close>

definition rol :: "u32 \<Rightarrow> nat \<Rightarrow> u32" where
  "rol x n = push_bit n x OR drop_bit (32 - n) x"

definition ripemd_r1 :: "nat list" where
  "ripemd_r1 = [
     0,1,2,3,4,5,6,7,8,9,10,11,12,13,14,15,
     7,4,13,1,10,6,15,3,12,0,9,5,2,14,11,8,
     3,10,14,4,9,15,8,1,2,7,0,6,13,11,5,12,
     1,9,11,10,0,8,12,4,13,3,7,15,14,5,6,2,
     4,0,5,9,7,12,2,10,14,1,3,8,11,6,15,13]"

definition ripemd_r2 :: "nat list" where
  "ripemd_r2 = [
     5,14,7,0,9,2,11,4,13,6,15,8,1,10,3,12,
     6,11,3,7,0,13,5,10,14,15,8,12,4,9,1,2,
     15,5,1,3,7,14,6,9,11,8,12,2,10,0,4,13,
     8,6,4,1,3,11,15,0,5,12,2,13,9,7,10,14,
     12,15,10,4,1,5,8,7,6,2,13,14,0,3,9,11]"

definition ripemd_s1 :: "nat list" where
  "ripemd_s1 = [
     11,14,15,12,5,8,7,9,11,13,14,15,6,7,9,8,
     7,6,8,13,11,9,7,15,7,12,15,9,11,7,13,12,
     11,13,6,7,14,9,13,15,14,8,13,6,5,12,7,5,
     11,12,14,15,14,15,9,8,9,14,5,6,8,6,5,12,
     9,15,5,11,6,8,13,12,5,12,13,14,11,8,5,6]"

definition ripemd_s2 :: "nat list" where
  "ripemd_s2 = [
     8,9,9,11,13,15,15,5,7,7,8,11,14,14,12,6,
     9,13,15,7,12,8,9,11,7,7,12,7,6,15,13,11,
     9,7,15,11,8,6,6,14,12,13,5,14,13,13,7,5,
     15,5,8,11,14,14,6,14,6,9,12,9,12,5,15,8,
     8,5,12,9,12,5,14,6,8,13,6,5,15,13,11,11]"

definition ripemd_K1 :: "u32 list" where
  "ripemd_K1 = [0, 0x5a827999, 0x6ed9eba1, 0x8f1bbcdc, 0xa953fd4e]"

definition ripemd_K2 :: "u32 list" where
  "ripemd_K2 = [0x50a28be6, 0x5c4dd124, 0x6d703ef3, 0x7a6d76e9, 0]"

definition ripemd_f :: "nat \<Rightarrow> u32 \<Rightarrow> u32 \<Rightarrow> u32 \<Rightarrow> u32" where
  "ripemd_f j x y z =
     (if j < 16 then x XOR y XOR z
      else if j < 32 then (x AND y) OR (NOT x AND z)
      else if j < 48 then (x OR NOT y) XOR z
      else if j < 64 then (x AND z) OR (y AND NOT z)
      else x XOR (y OR NOT z))"

type_synonym ripemd_state = "u32 \<times> u32 \<times> u32 \<times> u32 \<times> u32"

definition ripemd_load :: "bytes \<Rightarrow> nat \<Rightarrow> u32" where
  "ripemd_load block i =
     ucast (block ! (i * 4)) OR push_bit 8 (ucast (block ! (i * 4 + 1))) OR
     push_bit 16 (ucast (block ! (i * 4 + 2))) OR push_bit 24 (ucast (block ! (i * 4 + 3)))"

text \<open>One iteration \<open>j\<close> of the loop: the left line, then the right line.\<close>

fun ripemd_round ::
  "u32 list \<Rightarrow> ripemd_state \<times> ripemd_state \<Rightarrow> nat \<Rightarrow> ripemd_state \<times> ripemd_state" where
  "ripemd_round X ((al, bl, cl, dl, el), (ar, br, cr, dr, er)) j =
     (let t = rol (al + ripemd_f j bl cl dl + X ! (ripemd_r1 ! j) + ripemd_K1 ! (j div 16))
                (ripemd_s1 ! j) + el;
          u = rol (ar + ripemd_f (79 - j) br cr dr + X ! (ripemd_r2 ! j) + ripemd_K2 ! (j div 16))
                (ripemd_s2 ! j) + er
      in ((el, t, bl, rol cl 10, dl), (er, u, br, rol cr 10, dr)))"

fun ripemd_combine :: "ripemd_state \<Rightarrow> ripemd_state \<times> ripemd_state \<Rightarrow> ripemd_state" where
  "ripemd_combine (h0, h1, h2, h3, h4) ((al, bl, cl, dl, el), (ar, br, cr, dr, er)) =
     (h1 + cl + dr, h2 + dl + er, h3 + el + ar, h4 + al + br, h0 + bl + cr)"

definition ripemd160_compress :: "ripemd_state \<Rightarrow> bytes \<Rightarrow> ripemd_state" where
  "ripemd160_compress h block =
     ripemd_combine h (foldl (ripemd_round (map (ripemd_load block) [0..<16])) (h, h) [0..<80])"

definition ripemd160_init :: ripemd_state where
  "ripemd160_init = (0x67452301, 0xefcdab89, 0x98badcfe, 0x10325476, 0xc3d2e1f0)"

function ripemd160_blocks :: "ripemd_state \<Rightarrow> bytes \<Rightarrow> ripemd_state \<times> bytes" where
  "ripemd160_blocks h data =
     (if length data \<ge> 64
      then ripemd160_blocks (ripemd160_compress h (take 64 data)) (drop 64 data)
      else (h, data))"
  by pat_completeness auto
termination
  by (relation "measure (\<lambda>(h, data). length data)") auto

declare ripemd160_blocks.simps [simp del]

text \<open>\<open>block[56 + i] = uint8_t((bitlen >> (8 * i)) & 0xff)\<close> for \<open>i\<close> in \<open>0..7\<close>.\<close>

definition ripemd160_put_len :: "bytes \<Rightarrow> u64 \<Rightarrow> bytes" where
  "ripemd160_put_len block bitlen =
     foldl (\<lambda>blk i. blk[56 + i := ucast (drop_bit (8 * i) bitlen AND 0xff)]) block [0..<8]"

definition ripemd160_finish :: "ripemd_state \<Rightarrow> bytes \<Rightarrow> nat \<Rightarrow> ripemd_state" where
  "ripemd160_finish h tail len =
     (let rem = length tail;
          block = (tail @ replicate (64 - rem) 0)[rem := 0x80];
          (h, block) =
            (if rem \<ge> 56 then (ripemd160_compress h block, replicate 64 0) else (h, block));
          bitlen = of_nat len * 8
      in ripemd160_compress h (ripemd160_put_len block bitlen))"

definition ripemd_word_bytes :: "u32 \<Rightarrow> bytes" where
  "ripemd_word_bytes w =
     [ucast (w AND 0xff), ucast (drop_bit 8 w AND 0xff),
      ucast (drop_bit 16 w AND 0xff), ucast (drop_bit 24 w AND 0xff)]"

fun ripemd160_output :: "ripemd_state \<Rightarrow> bytes" where
  "ripemd160_output (a, b, c, d, e) = concat (map ripemd_word_bytes [a, b, c, d, e])"

definition ripemd160 :: "bytes \<Rightarrow> bytes" where
  "ripemd160 data =
     (let (h, tail) = ripemd160_blocks ripemd160_init data
      in ripemd160_output (ripemd160_finish h tail (length data)))"

section \<open>Digests\<close>

definition digest_of :: "hash_algo \<Rightarrow> bytes \<Rightarrow> hash_digest" where
  "digest_of a preimage =
     (if a = SHA256 then \<lparr>algo = a, digest_bytes = sha256 preimage\<rparr>
      else \<lparr>algo = a, digest_bytes = ripemd160 preimage\<rparr>)"

definition digest_size :: "hash_algo \<Rightarrow> nat" where
  "digest_size a = (if a = SHA256 then 32 else 20)"

section \<open>Merkle-Damgaard structure\<close>

text \<open>The padding of both standards: a one bit, zeros up to 56 modulo 64, the bit length.\<close>

definition md_pad :: "(u64 \<Rightarrow> bytes) \<Rightarrow> bytes \<Rightarrow> bytes" where
  "md_pad enc m =
     m @ [0x80] @ replicate ((119 - length m mod 64) mod 64) 0 @ enc (of_nat (length m) * 8)"

function md_chunks :: "bytes \<Rightarrow> bytes list" where
  "md_chunks bs = (if length bs \<ge> 64 then take 64 bs # md_chunks (drop 64 bs) else [])"
  by pat_completeness auto
termination
  by (relation "measure length") auto

declare md_chunks.simps [simp del]

definition be64 :: "u64 \<Rightarrow> bytes" where
  "be64 n = map (\<lambda>i. ucast (drop_bit (56 - 8 * i) n AND 0xff)) [0..<8]"

definition le64 :: "u64 \<Rightarrow> bytes" where
  "le64 n = map (\<lambda>i. ucast (drop_bit (8 * i) n AND 0xff)) [0..<8]"

lemma md_chunks_one: "length bs = 64 \<Longrightarrow> md_chunks bs = [bs]"
  by (subst md_chunks.simps) (simp add: md_chunks.simps [of "[]"])

lemma md_chunks_append: "length bs = 64 \<Longrightarrow> md_chunks (bs @ cs) = bs # md_chunks cs"
  by (subst md_chunks.simps) simp

locale md_hash =
  fixes compress :: "'st \<Rightarrow> bytes \<Rightarrow> 'st"
    and blocks :: "'st \<Rightarrow> bytes \<Rightarrow> 'st \<times> bytes"
    and put_len :: "bytes \<Rightarrow> u64 \<Rightarrow> bytes"
    and finish :: "'st \<Rightarrow> bytes \<Rightarrow> nat \<Rightarrow> 'st"
    and enc :: "u64 \<Rightarrow> bytes"
  assumes blocks_rec: "blocks st data =
      (if length data \<ge> 64 then blocks (compress st (take 64 data)) (drop 64 data)
       else (st, data))"
    and put_len: "length block = 64 \<Longrightarrow> put_len block w = take 56 block @ enc w"
    and length_enc: "length (enc w) = 8"
    and finish_short: "length t < 56 \<Longrightarrow>
      finish st t n = compress st (put_len ((t @ replicate (64 - length t) 0)[length t := 0x80])
                                    (of_nat n * 8))"
    and finish_long: "56 \<le> length t \<Longrightarrow> length t < 64 \<Longrightarrow>
      finish st t n =
        compress (compress st ((t @ replicate (64 - length t) 0)[length t := 0x80]))
          (put_len (replicate 64 0) (of_nat n * 8))"
begin

definition digest :: "'st \<Rightarrow> bytes \<Rightarrow> 'st" where
  "digest st m = (let (st', t) = blocks st m in finish st' t (length m))"

lemma last_block:
  "length t < 64 \<Longrightarrow>
     (t @ replicate (64 - length t) 0)[length t := 0x80] = t @ [0x80] @ replicate (63 - length t) 0"
  by (cases "64 - length t") (auto simp: list_update_append)

lemma take_pad:
  "length t < 56 \<Longrightarrow>
     take 56 (t @ [x] @ replicate (63 - length t) y) = t @ [x] @ replicate (55 - length t) y"
  by (simp add: take_Cons' min_def)

lemma pad_short: "n < 56 \<Longrightarrow> (119 - n) mod 64 = 55 - (n :: nat)"
  by (simp add: mod_if)

lemma pad_long: "56 \<le> n \<Longrightarrow> n < 64 \<Longrightarrow> (119 - n) mod 64 = (63 - n) + (56 :: nat)"
  by (simp add: mod_if)

lemma pad_long_split:
  "t @ [x] @ replicate (k + 56) 0 @ e = (t @ [x] @ replicate k 0) @ (replicate 56 0 @ e)"
  by (simp add: replicate_add)

lemma finish_spec:
  assumes "length t < 64"
  shows "finish st t n =
    foldl compress st (md_chunks (t @ [0x80] @ replicate ((119 - length t) mod 64) 0 @
      enc (of_nat n * 8)))"
proof (cases "length t < 56")
  case True
  have "put_len (t @ [0x80] @ replicate (63 - length t) 0) (of_nat n * 8) =
      (t @ [0x80] @ replicate (55 - length t) 0) @ enc (of_nat n * 8)"
    using True by (subst put_len) (simp_all only: take_pad, simp)
  moreover have "length ((t @ [0x80] @ replicate (55 - length t) 0) @ enc (of_nat n * 8)) = 64"
    using True by (simp add: length_enc)
  ultimately have "finish st t n =
      foldl compress st (md_chunks ((t @ [0x80] @ replicate (55 - length t) 0) @
        enc (of_nat n * 8)))"
    using True assms by (simp only: finish_short last_block md_chunks_one foldl.simps)
  then show ?thesis
    using True by (simp only: pad_short append_assoc)
next
  case False
  then have k: "(119 - length t) mod 64 = (63 - length t) + 56"
    using assms by (intro pad_long) simp_all
  have l1: "length (t @ [0x80] @ replicate (63 - length t) (0 :: u8)) = 64"
    using assms by simp
  have l2: "length (replicate 56 (0 :: u8) @ enc (of_nat n * 8)) = 64"
    by (simp add: length_enc)
  have "put_len (replicate 64 0) (of_nat n * 8) = replicate 56 0 @ enc (of_nat n * 8)"
    by (subst put_len) simp_all
  then show ?thesis
    using False assms l1 l2
    by (simp only: finish_long last_block not_less k pad_long_split md_chunks_append
        md_chunks_one foldl.simps)
qed

lemma blocks_finish:
  "(case blocks st data of (st', t) \<Rightarrow> finish st' t n) =
     foldl compress st (md_chunks (data @ [0x80] @ replicate ((119 - length data mod 64) mod 64) 0 @
       enc (of_nat n * 8)))"
proof (induction "length data" arbitrary: st data rule: less_induct)
  case less
  show ?case
  proof (cases "length data \<ge> 64")
    case True
    have tail: "length (drop 64 data) mod 64 = length data mod 64"
      using True by (simp add: le_mod_geq)
    have ch: "md_chunks (data @ xs) = take 64 data # md_chunks (drop 64 data @ xs)" for xs
      using True by (subst md_chunks.simps) simp
    have IH: "(case blocks (compress st (take 64 data)) (drop 64 data) of
          (st', t) \<Rightarrow> finish st' t n) =
        foldl compress (compress st (take 64 data)) (md_chunks (drop 64 data @ [0x80] @
          replicate ((119 - length (drop 64 data) mod 64) mod 64) 0 @ enc (of_nat n * 8)))"
      by (rule less) (use True in simp)
    have "blocks st data = blocks (compress st (take 64 data)) (drop 64 data)"
      using True by (subst blocks_rec) simp
    with IH show ?thesis
      by (simp only: ch tail foldl.simps)
  next
    case False
    then have "blocks st data = (st, data)"
      by (subst blocks_rec) simp
    with False show ?thesis
      by (simp add: finish_spec)
  qed
qed

lemma digest_is_fold: "digest st m = foldl compress st (md_chunks (md_pad enc m))"
  using blocks_finish [where st = st and data = m and n = "length m"] by (simp add: digest_def md_pad_def Let_def)

end

lemma upt_8: "[0..<8] = [0, 1, 2, 3, 4, 5, 6, 7 :: nat]"
  by (simp add: upt_rec)

lemma tail_split:
  assumes "length b = 64"
  obtains t x0 x1 x2 x3 x4 x5 x6 x7
  where "b = t @ [x0, x1, x2, x3, x4, x5, x6, x7]" "length t = 56"
proof -
  have "length (drop 56 b) = Suc (Suc (Suc (Suc (Suc (Suc (Suc (Suc 0)))))))"
    using assms by simp
  then obtain x0 x1 x2 x3 x4 x5 x6 x7 where "drop 56 b = [x0, x1, x2, x3, x4, x5, x6, x7]"
    by (auto simp only: length_Suc_conv length_0_conv)
  moreover have "b = take 56 b @ drop 56 b" "length (take 56 b) = 56"
    using assms by simp_all
  ultimately show ?thesis
    using that by metis
qed

lemma foldl_update_hi:
  assumes "length b = 64"
  shows "foldl (\<lambda>blk i. blk[63 - i := f i]) b [0..<8] =
    take 56 b @ map (\<lambda>i. f (7 - i)) [0..<8]"
  using assms by (rule tail_split) (simp add: upt_8 list_update_append)

lemma foldl_update_lo:
  assumes "length b = 64"
  shows "foldl (\<lambda>blk i. blk[56 + i := f i]) b [0..<8] = take 56 b @ map f [0..<8]"
  using assms by (rule tail_split) (simp add: upt_8 list_update_append)

interpretation sha: md_hash sha256_transform sha256_blocks sha256_put_len sha256_finish be64
proof unfold_locales
  fix b n assume "length (b :: bytes) = 64"
  then show "sha256_put_len b n = take 56 b @ be64 n"
    by (simp add: sha256_put_len_def foldl_update_hi be64_def diff_mult_distrib2)
qed (subst sha256_blocks.simps, simp_all add: be64_def sha256_finish_def Let_def)

interpretation rmd: md_hash ripemd160_compress ripemd160_blocks ripemd160_put_len
  ripemd160_finish le64
proof unfold_locales
  fix b n assume "length (b :: bytes) = 64"
  then show "ripemd160_put_len b n = take 56 b @ le64 n"
    by (simp add: ripemd160_put_len_def foldl_update_lo le64_def)
qed (subst ripemd160_blocks.simps, simp_all add: le64_def ripemd160_finish_def Let_def)

lemma length_sha256_output [simp]: "length (sha256_output st) = 32"
  by (cases st rule: sha256_output.cases) (simp add: sha256_word_bytes_def)

lemma length_sha256 [simp]: "length (sha256 data) = 32"
  by (simp add: sha256_def case_prod_beta)

lemma length_ripemd160_output [simp]: "length (ripemd160_output st) = 20"
  by (cases st rule: ripemd160_output.cases) (simp add: ripemd_word_bytes_def)

lemma length_ripemd160 [simp]: "length (ripemd160 data) = 20"
  by (simp add: ripemd160_def case_prod_beta)

lemma algo_digest_of [simp]: "algo (digest_of a p) = a"
  by (simp add: digest_of_def)

lemma length_digest_of [simp]: "length (digest_bytes (digest_of a p)) = digest_size a"
  by (cases a) (simp_all add: digest_of_def digest_size_def)

section \<open>Properties\<close>

text \<open>
  C22: the hash functions are the standard constructions. The incremental SHA-256 of the code
  (full blocks taken from the input, then one or two padded blocks built in a 64-byte buffer)
  is FIPS 180-4: the compression function folded over the message padded with a one bit, zeros
  and the 64-bit big-endian bit length; likewise RIPEMD-160, with the length in little-endian
  order, as its specification asks.
\<close>

theorem digests_are_padded_folds:
  "sha256 m = sha256_output (foldl sha256_transform sha256_init (md_chunks (md_pad be64 m))) \<and>
   ripemd160 m =
     ripemd160_output (foldl ripemd160_compress ripemd160_init (md_chunks (md_pad le64 m)))"
  using sha.digest_is_fold [of sha256_init m] rmd.digest_is_fold [of ripemd160_init m]
  by (simp add: sha256_def sha.digest_def ripemd160_def rmd.digest_def Let_def case_prod_beta)

text \<open>
  C23: digests have their declared type. The lists that model \<open>std::array<uint8_t, 32>\<close> and
  \<open>std::array<uint8_t, 20>\<close> have these lengths for every input, \<open>digest_of\<close> keeps the tag of
  the algorithm and yields the number of bytes the protocol asks of that algorithm; hence the
  comparison of a stored digest with the digest of a preimage accepts exactly the equal one.
\<close>

theorem digests_have_declared_sizes:
  "length (sha256 m) = 32 \<and> length (ripemd160 m) = 20 \<and> algo (digest_of a m) = a \<and>
   length (digest_bytes (digest_of a m)) = (if a = SHA256 then 32 else 20) \<and>
   (constant_time_equal (digest_bytes (digest_of a m)) d \<longleftrightarrow> d = digest_bytes (digest_of a m))"
  by (auto simp: digest_size_def constant_time_equal_iff)

end
