(* ===== verification/Protocol.thy ===== *)
theory Protocol
  imports Crypto
begin

text \<open>
  The operations of \<open>include/hive_native/protocol/\<close> (one record per operation struct, field
  names prefixed by the operation) and their \<open>validate()\<close> functions from
  \<open>src/protocol/validate.cpp\<close>. \<open>validate\<close> is a list of checks in source order, the first
  failing one being the exception thrown. For every operation a lemma \<open>validate_..._Inr\<close>
  says exactly which operations pass.
\<close>

type_synonym collection_id_type = u64
type_synonym nft_id_type = u64
type_synonym htlc_id_type = u64
type_synonym contract_id_type = u64

section \<open>NFT operations\<close>

record nft_create_collection_operation =
  ncc_creator :: account_name_type
  ncc_symbol :: string
  ncc_name :: string
  ncc_max_supply :: u64
  ncc_transferable :: bool

record nft_mint_operation =
  nm_creator :: account_name_type
  nm_collection :: collection_id_type
  nm_to :: account_name_type
  nm_metadata_hash :: bytes
  nm_uri :: string
  nm_soulbound :: bool

record nft_transfer_operation =
  nt_from :: account_name_type
  nt_to :: account_name_type
  nt_nft_id :: nft_id_type
  nt_memo :: string

record nft_approve_operation =
  na_owner :: account_name_type
  na_nft_id :: nft_id_type
  na_approved :: account_name_type

record nft_set_approval_for_all_operation =
  ns_owner :: account_name_type
  ns_operator_account :: account_name_type
  ns_collection :: collection_id_type
  ns_approved :: bool

record nft_burn_operation =
  nb_owner :: account_name_type
  nb_nft_id :: nft_id_type

section \<open>HTLC operations\<close>

record htlc_create_operation =
  hc_from :: account_name_type
  hc_to :: account_name_type
  hc_amount :: asset
  hc_preimage_hash :: hash_digest
  hc_preimage_size :: u16
  hc_expiration :: time_point_sec
  hc_memo :: string

record htlc_redeem_operation =
  hr_to :: account_name_type
  hr_htlc_id :: htlc_id_type
  hr_preimage :: bytes

record htlc_refund_operation =
  hf_from :: account_name_type
  hf_htlc_id :: htlc_id_type

section \<open>Contract operations\<close>

record contract_deploy_operation =
  cd_owner :: account_name_type
  cd_code :: bytes
  cd_code_hash :: bytes
  cd_fuel_limit :: u64
  cd_init_args :: bytes

record contract_call_operation =
  cc_caller :: account_name_type
  cc_contract_id :: contract_id_type
  cc_export_name :: string
  cc_args :: bytes
  cc_fuel_limit :: u64

section \<open>Validation\<close>

definition symbol_char :: "char \<Rightarrow> bool" where
  "symbol_char c \<longleftrightarrow>
     char_between (CHR ''A'') (CHR ''Z'') c \<or> char_between (CHR ''0'') (CHR ''9'') c"

definition validate_nft_create_collection :: "nft_create_collection_operation \<Rightarrow> exn + unit" where
  "validate_nft_create_collection op = checks [
     assert_account_name (ncc_creator op),
     assert_len (ncc_symbol op) MAX_NFT_SYMBOL_LEN ''symbol'',
     assert_len (ncc_name op) MAX_NFT_NAME_LEN ''name'',
     throw_if (ncc_symbol op = []) ''symbol required'',
     throw_if (\<exists>c \<in> set (ncc_symbol op). \<not> symbol_char c) ''symbol must be A-Z0-9'']"

definition validate_nft_mint :: "nft_mint_operation \<Rightarrow> exn + unit" where
  "validate_nft_mint op = checks [
     assert_account_name (nm_creator op),
     assert_account_name (nm_to op),
     assert_len (nm_uri op) MAX_NFT_URI_LEN ''uri'',
     throw_if (nm_collection op = 0) ''collection required'']"

definition validate_nft_transfer :: "nft_transfer_operation \<Rightarrow> exn + unit" where
  "validate_nft_transfer op = checks [
     assert_account_name (nt_from op),
     assert_account_name (nt_to op),
     assert_len (nt_memo op) MAX_MEMO_LEN ''memo'',
     throw_if (nt_nft_id op = 0) ''nft_id required'',
     throw_if (nt_from op = nt_to op) ''cannot transfer to self'']"

definition validate_nft_approve :: "nft_approve_operation \<Rightarrow> exn + unit" where
  "validate_nft_approve op = checks [
     assert_account_name (na_owner op),
     throw_if (na_nft_id op = 0) ''nft_id required'',
     (if na_approved op \<noteq> [] then assert_account_name (na_approved op) else Inr ())]"

definition validate_nft_set_approval_for_all ::
  "nft_set_approval_for_all_operation \<Rightarrow> exn + unit" where
  "validate_nft_set_approval_for_all op = checks [
     assert_account_name (ns_owner op),
     assert_account_name (ns_operator_account op),
     throw_if (ns_owner op = ns_operator_account op) ''cannot approve self as operator'']"

definition validate_nft_burn :: "nft_burn_operation \<Rightarrow> exn + unit" where
  "validate_nft_burn op = checks [
     assert_account_name (nb_owner op),
     throw_if (nb_nft_id op = 0) ''nft_id required'']"

text \<open>
  \<open>now + HTLC_MIN_DURATION_SEC\<close> converts the \<open>uint32_t\<close> time to \<open>int64_t\<close>, so the bounds
  are computed and compared without wrap-around.
\<close>

definition validate_htlc_create :: "htlc_create_operation \<Rightarrow> time_point_sec \<Rightarrow> exn + unit" where
  "validate_htlc_create op now = checks [
     assert_account_name (hc_from op),
     assert_account_name (hc_to op),
     assert_len (hc_memo op) MAX_MEMO_LEN ''memo'',
     throw_if (\<not> is_positive (hc_amount op)) ''amount must be positive'',
     throw_if (symbol (hc_amount op) \<noteq> HIVE \<and> symbol (hc_amount op) \<noteq> HBD)
       ''only HIVE/HBD in MVP'',
     throw_if (hc_preimage_size op = 0 \<or> unat (hc_preimage_size op) > MAX_HTLC_PREIMAGE_LEN)
       ''invalid preimage_size'',
     throw_if (length (digest_bytes (hc_preimage_hash op)) \<noteq>
         (if algo (hc_preimage_hash op) = SHA256 then 32 else 20))
       ''preimage_hash length mismatch'',
     throw_if (uint (hc_expiration op) < uint now + HTLC_MIN_DURATION_SEC) ''expiration too soon'',
     throw_if (uint (hc_expiration op) > uint now + HTLC_MAX_DURATION_SEC) ''expiration too far'']"

definition validate_htlc_redeem :: "htlc_redeem_operation \<Rightarrow> exn + unit" where
  "validate_htlc_redeem op = checks [
     assert_account_name (hr_to op),
     throw_if (hr_htlc_id op = 0) ''htlc_id required'',
     throw_if (hr_preimage op = [] \<or> length (hr_preimage op) > MAX_HTLC_PREIMAGE_LEN)
       ''invalid preimage'']"

definition validate_htlc_refund :: "htlc_refund_operation \<Rightarrow> exn + unit" where
  "validate_htlc_refund op = checks [
     assert_account_name (hf_from op),
     throw_if (hf_htlc_id op = 0) ''htlc_id required'']"

definition validate_contract_deploy :: "contract_deploy_operation \<Rightarrow> exn + unit" where
  "validate_contract_deploy op = checks [
     assert_account_name (cd_owner op),
     throw_if (cd_fuel_limit op = 0) ''fuel_limit required'',
     throw_if (length (cd_code op) > MAX_CODE_BYTES) ''code too large'',
     throw_if (cd_code op = []) ''code required in portable deploy'',
     throw_if (length (cd_init_args op) > MAX_CONTRACT_ARGS) ''init_args too large'',
     throw_if ((\<exists>b \<in> set (cd_code_hash op). b \<noteq> 0) \<and> sha256 (cd_code op) \<noteq> cd_code_hash op)
       ''code_hash mismatch'']"

definition validate_contract_call :: "contract_call_operation \<Rightarrow> exn + unit" where
  "validate_contract_call op = checks [
     assert_account_name (cc_caller op),
     throw_if (cc_contract_id op = 0) ''contract_id required'',
     throw_if (cc_fuel_limit op = 0) ''fuel_limit required'',
     assert_len (cc_export_name op) MAX_CONTRACT_EXPORT ''export_name'',
     throw_if (cc_export_name op = []) ''export_name required'',
     throw_if (length (cc_args op) > MAX_CONTRACT_ARGS) ''args too large'']"

section \<open>What passes\<close>

lemma validate_nft_create_collection_Inr [outcome_simps]:
  "validate_nft_create_collection op = Inr u \<longleftrightarrow>
     account_name_ok (ncc_creator op) \<and> length (ncc_symbol op) \<le> MAX_NFT_SYMBOL_LEN \<and>
     length (ncc_name op) \<le> MAX_NFT_NAME_LEN \<and> ncc_symbol op \<noteq> [] \<and>
     (\<forall>c \<in> set (ncc_symbol op). symbol_char c)"
  by (auto simp: validate_nft_create_collection_def outcome_simps)

lemma validate_nft_mint_Inr [outcome_simps]:
  "validate_nft_mint op = Inr u \<longleftrightarrow>
     account_name_ok (nm_creator op) \<and> account_name_ok (nm_to op) \<and>
     length (nm_uri op) \<le> MAX_NFT_URI_LEN \<and> nm_collection op \<noteq> 0"
  by (auto simp: validate_nft_mint_def outcome_simps)

lemma validate_nft_transfer_Inr [outcome_simps]:
  "validate_nft_transfer op = Inr u \<longleftrightarrow>
     account_name_ok (nt_from op) \<and> account_name_ok (nt_to op) \<and>
     length (nt_memo op) \<le> MAX_MEMO_LEN \<and> nt_nft_id op \<noteq> 0 \<and> nt_from op \<noteq> nt_to op"
  by (auto simp: validate_nft_transfer_def outcome_simps)

lemma validate_nft_approve_Inr [outcome_simps]:
  "validate_nft_approve op = Inr u \<longleftrightarrow>
     account_name_ok (na_owner op) \<and> na_nft_id op \<noteq> 0 \<and>
     (na_approved op = [] \<or> account_name_ok (na_approved op))"
  by (auto simp: validate_nft_approve_def outcome_simps)

lemma validate_nft_set_approval_for_all_Inr [outcome_simps]:
  "validate_nft_set_approval_for_all op = Inr u \<longleftrightarrow>
     account_name_ok (ns_owner op) \<and> account_name_ok (ns_operator_account op) \<and>
     ns_owner op \<noteq> ns_operator_account op"
  by (auto simp: validate_nft_set_approval_for_all_def outcome_simps)

lemma validate_nft_burn_Inr [outcome_simps]:
  "validate_nft_burn op = Inr u \<longleftrightarrow> account_name_ok (nb_owner op) \<and> nb_nft_id op \<noteq> 0"
  by (auto simp: validate_nft_burn_def outcome_simps)

lemma validate_htlc_create_Inr [outcome_simps]:
  "validate_htlc_create op now = Inr u \<longleftrightarrow>
     account_name_ok (hc_from op) \<and> account_name_ok (hc_to op) \<and>
     length (hc_memo op) \<le> MAX_MEMO_LEN \<and> 0 < sint (amount (hc_amount op)) \<and>
     hc_preimage_size op \<noteq> 0 \<and> unat (hc_preimage_size op) \<le> MAX_HTLC_PREIMAGE_LEN \<and>
     length (digest_bytes (hc_preimage_hash op)) = digest_size (algo (hc_preimage_hash op)) \<and>
     uint now + HTLC_MIN_DURATION_SEC \<le> uint (hc_expiration op) \<and>
     uint (hc_expiration op) \<le> uint now + HTLC_MAX_DURATION_SEC"
  by (cases "symbol (hc_amount op)")
    (auto simp: validate_htlc_create_def outcome_simps is_positive_def digest_size_def not_less)

lemma validate_htlc_redeem_Inr [outcome_simps]:
  "validate_htlc_redeem op = Inr u \<longleftrightarrow>
     account_name_ok (hr_to op) \<and> hr_htlc_id op \<noteq> 0 \<and> hr_preimage op \<noteq> [] \<and>
     length (hr_preimage op) \<le> MAX_HTLC_PREIMAGE_LEN"
  by (auto simp: validate_htlc_redeem_def outcome_simps)

lemma validate_htlc_refund_Inr [outcome_simps]:
  "validate_htlc_refund op = Inr u \<longleftrightarrow> account_name_ok (hf_from op) \<and> hf_htlc_id op \<noteq> 0"
  by (auto simp: validate_htlc_refund_def outcome_simps)

lemma validate_contract_deploy_Inr [outcome_simps]:
  "validate_contract_deploy op = Inr u \<longleftrightarrow>
     account_name_ok (cd_owner op) \<and> cd_fuel_limit op \<noteq> 0 \<and>
     length (cd_code op) \<le> MAX_CODE_BYTES \<and> cd_code op \<noteq> [] \<and>
     length (cd_init_args op) \<le> MAX_CONTRACT_ARGS \<and>
     ((\<forall>b \<in> set (cd_code_hash op). b = 0) \<or> cd_code_hash op = sha256 (cd_code op))"
  by (auto simp: validate_contract_deploy_def outcome_simps)

lemma validate_contract_call_Inr [outcome_simps]:
  "validate_contract_call op = Inr u \<longleftrightarrow>
     account_name_ok (cc_caller op) \<and> cc_contract_id op \<noteq> 0 \<and> cc_fuel_limit op \<noteq> 0 \<and>
     length (cc_export_name op) \<le> MAX_CONTRACT_EXPORT \<and> cc_export_name op \<noteq> [] \<and>
     length (cc_args op) \<le> MAX_CONTRACT_ARGS"
  by (auto simp: validate_contract_call_def outcome_simps)

lemma protocol_only_validate [protocol_intros]:
  "protocol_only (validate_nft_create_collection op1)"
  "protocol_only (validate_nft_mint op2)"
  "protocol_only (validate_nft_transfer op3)"
  "protocol_only (validate_nft_approve op4)"
  "protocol_only (validate_nft_set_approval_for_all op5)"
  "protocol_only (validate_nft_burn op6)"
  "protocol_only (validate_htlc_create op7 now)"
  "protocol_only (validate_htlc_redeem op8)"
  "protocol_only (validate_htlc_refund op9)"
  "protocol_only (validate_contract_deploy op10)"
  "protocol_only (validate_contract_call op11)"
  unfolding validate_nft_create_collection_def validate_nft_mint_def
    validate_nft_transfer_def validate_nft_approve_def
    validate_nft_set_approval_for_all_def validate_nft_burn_def
    validate_htlc_create_def validate_htlc_redeem_def
    validate_htlc_refund_def validate_contract_deploy_def
    validate_contract_call_def
  by (intro protocol_intros)+

end
