(* ===== verification/Rc_Costs.thy ===== *)
theory Rc_Costs
  imports Protocol
begin

text \<open>
  \<open>src/rc/costs.cpp\<close>: the resource-credit cost of every operation, in 64-bit unsigned
  arithmetic. The lemmas show that for validated operations no cost wraps around, so each
  is the exact linear function the model intends.
\<close>

definition TRANSFER_BASE :: u64 where "TRANSFER_BASE = 1000"
definition FUEL_TO_RC_NUM :: u64 where "FUEL_TO_RC_NUM = 1"
definition FUEL_TO_RC_DEN :: u64 where "FUEL_TO_RC_DEN = 10"

definition bytes_cost :: "nat \<Rightarrow> u64" where
  "bytes_cost n = of_nat n * 2"

definition cost_nft_create_collection :: "nft_create_collection_operation \<Rightarrow> u64" where
  "cost_nft_create_collection op =
     TRANSFER_BASE * 3 + bytes_cost (length (ncc_symbol op) + length (ncc_name op)) + 500"

definition cost_nft_mint :: "nft_mint_operation \<Rightarrow> u64" where
  "cost_nft_mint op = TRANSFER_BASE * 2 + bytes_cost (length (nm_uri op)) + 800"

definition cost_nft_transfer :: "nft_transfer_operation \<Rightarrow> u64" where
  "cost_nft_transfer op = TRANSFER_BASE + bytes_cost (length (nt_memo op))"

definition cost_nft_approve :: "nft_approve_operation \<Rightarrow> u64" where
  "cost_nft_approve op = TRANSFER_BASE div 2"

definition cost_nft_set_approval_for_all :: "nft_set_approval_for_all_operation \<Rightarrow> u64" where
  "cost_nft_set_approval_for_all op = TRANSFER_BASE div 2 + 100"

definition cost_nft_burn :: "nft_burn_operation \<Rightarrow> u64" where
  "cost_nft_burn op = TRANSFER_BASE"

definition cost_htlc_create :: "htlc_create_operation \<Rightarrow> u64" where
  "cost_htlc_create op = TRANSFER_BASE * 2 + bytes_cost (length (hc_memo op)) + 600"

definition cost_htlc_redeem :: "htlc_redeem_operation \<Rightarrow> u64" where
  "cost_htlc_redeem op = TRANSFER_BASE + bytes_cost (length (hr_preimage op)) + 200"

definition cost_htlc_refund :: "htlc_refund_operation \<Rightarrow> u64" where
  "cost_htlc_refund op = TRANSFER_BASE"

definition cost_contract_deploy :: "contract_deploy_operation \<Rightarrow> u64" where
  "cost_contract_deploy op =
     TRANSFER_BASE * 10 + bytes_cost (length (cd_code op)) +
     (cd_fuel_limit op * FUEL_TO_RC_NUM) div FUEL_TO_RC_DEN"

definition cost_contract_call :: "contract_call_operation \<Rightarrow> u64 \<Rightarrow> u64" where
  "cost_contract_call op fuel_used =
     (let fuel = (if fuel_used \<noteq> 0 then fuel_used else cc_fuel_limit op)
      in TRANSFER_BASE * 2 + bytes_cost (length (cc_args op)) +
         (fuel * FUEL_TO_RC_NUM) div FUEL_TO_RC_DEN)"

lemma unat_sum3_cost:
  assumes "n \<le> 2 ^ 32" and "b \<le> 2 ^ 16"
  shows "unat (of_nat b + of_nat n * 2 + (f :: u64) div 10) = b + 2 * n + unat f div 10"
proof -
  have f: "unat f div 10 \<le> (2 ^ 64 - 1) div 10"
    using unsigned_less [of f, where ?'a = nat] by (intro div_le_mono) simp
  have "unat (of_nat (b + 2 * n + unat f div 10) :: u64) = b + 2 * n + unat f div 10"
    using assms f by (intro unat_of_nat_u64) simp
  moreover have "of_nat b + of_nat n * 2 + f div 10 = (of_nat (b + 2 * n + unat f div 10) :: u64)"
    by (simp add: word_arith_nat_div mult.commute)
  ultimately show ?thesis by (simp only:)
qed

lemma unat_sum2_cost:
  "n \<le> 2 ^ 32 \<Longrightarrow> b \<le> 2 ^ 16 \<Longrightarrow> unat (of_nat b + of_nat n * 2 :: u64) = b + 2 * n"
  using unat_sum3_cost [of n b 0] by simp

lemmas cost_defs = cost_nft_create_collection_def cost_nft_mint_def cost_nft_transfer_def
  cost_nft_approve_def cost_nft_set_approval_for_all_def cost_nft_burn_def cost_htlc_create_def
  cost_htlc_redeem_def cost_htlc_refund_def cost_contract_deploy_def cost_contract_call_def
  bytes_cost_def TRANSFER_BASE_def FUEL_TO_RC_NUM_def FUEL_TO_RC_DEN_def

lemma cost_nft_exact:
  shows "validate_nft_create_collection c = Inr () \<Longrightarrow>
      unat (cost_nft_create_collection c) = 3500 + 2 * (length (ncc_symbol c) + length (ncc_name c))"
    and "validate_nft_mint m = Inr () \<Longrightarrow> unat (cost_nft_mint m) = 2800 + 2 * length (nm_uri m)"
    and "validate_nft_transfer t = Inr () \<Longrightarrow> unat (cost_nft_transfer t) = 1000 + 2 * length (nt_memo t)"
  using unat_sum2_cost [of "length (ncc_symbol c) + length (ncc_name c)" 3500]
    unat_sum2_cost [of "length (nm_uri m)" 2800] unat_sum2_cost [of "length (nt_memo t)" 1000]
  by (simp_all add: outcome_simps hive_constants cost_defs algebra_simps)

lemma cost_htlc_exact:
  shows "validate_htlc_create h now = Inr () \<Longrightarrow>
      unat (cost_htlc_create h) = 2600 + 2 * length (hc_memo h)"
    and "validate_htlc_redeem r = Inr () \<Longrightarrow>
      unat (cost_htlc_redeem r) = 1200 + 2 * length (hr_preimage r)"
  using unat_sum2_cost [of "length (hc_memo h)" 2600] unat_sum2_cost [of "length (hr_preimage r)" 1200]
  by (simp_all add: outcome_simps hive_constants cost_defs algebra_simps)

lemma cost_contract_exact:
  shows "validate_contract_deploy d = Inr () \<Longrightarrow>
      unat (cost_contract_deploy d) = 10000 + 2 * length (cd_code d) + unat (cd_fuel_limit d) div 10"
    and "validate_contract_call k = Inr () \<Longrightarrow>
      unat (cost_contract_call k used) = 2000 + 2 * length (cc_args k) +
        unat (if used = 0 then cc_fuel_limit k else used) div 10"
  using unat_sum3_cost [of "length (cd_code d)" 10000 "cd_fuel_limit d"]
    unat_sum3_cost [of "length (cc_args k)" 2000 "if used = 0 then cc_fuel_limit k else used"]
  by (simp_all add: outcome_simps hive_constants cost_defs split: if_splits)

text \<open>
  C24: no charge wraps around. For every operation that passes validation the 64-bit cost is
  the exact linear function of its variable-length fields and, for contracts, of a tenth of the
  fuel: the limit on deployment, what the engine reports on a call, or the limit when it
  reports none.
\<close>

theorem costs_are_exact:
  "(validate_nft_create_collection c = Inr () \<longrightarrow>
      unat (cost_nft_create_collection c) = 3500 + 2 * (length (ncc_symbol c) + length (ncc_name c))) \<and>
   (validate_nft_mint m = Inr () \<longrightarrow> unat (cost_nft_mint m) = 2800 + 2 * length (nm_uri m)) \<and>
   (validate_nft_transfer t = Inr () \<longrightarrow> unat (cost_nft_transfer t) = 1000 + 2 * length (nt_memo t)) \<and>
   (validate_htlc_create h now = Inr () \<longrightarrow> unat (cost_htlc_create h) = 2600 + 2 * length (hc_memo h)) \<and>
   (validate_htlc_redeem r = Inr () \<longrightarrow> unat (cost_htlc_redeem r) = 1200 + 2 * length (hr_preimage r)) \<and>
   (validate_contract_deploy d = Inr () \<longrightarrow>
      unat (cost_contract_deploy d) = 10000 + 2 * length (cd_code d) + unat (cd_fuel_limit d) div 10) \<and>
   (validate_contract_call k = Inr () \<longrightarrow>
      unat (cost_contract_call k used) = 2000 + 2 * length (cc_args k) +
        unat (if used = 0 then cc_fuel_limit k else used) div 10)"
  using cost_nft_exact cost_htlc_exact cost_contract_exact by blast

theorem costs_are_exact_witness:
  "unat (cost_contract_call \<lparr>cc_caller = ''bob'', cc_contract_id = 1, cc_export_name = ''call'',
       cc_args = [79, 75], cc_fuel_limit = 5000\<rparr> 50) = 2009 \<and>
   unat (cost_nft_transfer \<lparr>nt_from = ''alice'', nt_to = ''bob'', nt_nft_id = 1, nt_memo = ''hi''\<rparr>) = 1004"
proof -
  let ?call = "\<lparr>cc_caller = ''bob'', cc_contract_id = 1, cc_export_name = ''call'',
    cc_args = [79, 75], cc_fuel_limit = 5000\<rparr> :: contract_call_operation"
  let ?move = "\<lparr>nt_from = ''alice'', nt_to = ''bob'', nt_nft_id = 1, nt_memo = ''hi''\<rparr> :: nft_transfer_operation"
  have "validate_contract_call ?call = Inr ()" "validate_nft_transfer ?move = Inr ()"
    by (simp_all add: outcome_simps hive_constants account_name_ok_def account_name_char_def
        char_between_def less_eq_char_def)
  then show ?thesis
    using costs_are_exact [where k = ?call and used = 50 and t = ?move] by simp
qed

end
