(* ===== verification/Database.thy ===== *)
theory Database
  imports Rc_Costs
begin

text \<open>
  \<open>include/hive_native/chain/database.hpp\<close> and \<open>src/chain/database.cpp\<close>: the in-memory
  chain state and its own operations. Every \<open>std::map\<close> is an \<open>omap\<close>; the key of
  \<open>operators\<close> is the tuple (owner, operator, collection).
\<close>

section \<open>State\<close>

record account_balance =
  b_hive :: share_type
  b_hbd :: share_type

record nft_collection_object =
  c_id :: collection_id_type
  c_creator :: account_name_type
  c_symbol :: string
  c_name :: string
  c_max_supply :: u64
  c_supply :: u64
  c_transferable :: bool
  c_created :: time_point_sec

record nft_object =
  n_id :: nft_id_type
  n_collection :: collection_id_type
  n_token_serial :: u64
  n_owner :: account_name_type
  n_approved :: account_name_type
  n_metadata_hash :: bytes
  n_uri :: string
  n_soulbound :: bool
  n_minted :: time_point_sec

record nft_operator_object =
  o_owner :: account_name_type
  o_operator_account :: account_name_type
  o_collection :: collection_id_type
  o_approved :: bool

datatype htlc_status = Open | Redeemed | Refunded

record htlc_object =
  h_id :: htlc_id_type
  h_from :: account_name_type
  h_to :: account_name_type
  h_amount :: asset
  h_preimage_hash :: hash_digest
  h_preimage_size :: u16
  h_expiration :: time_point_sec
  h_created :: time_point_sec
  h_memo :: string
  h_status :: htlc_status

record contract_object =
  k_id :: contract_id_type
  k_owner :: account_name_type
  k_code_hash :: bytes
  k_code :: bytes
  k_created :: time_point_sec

record virtual_op =
  v_name :: string
  v_payload_json :: string

record node_config =
  nft_skip_state :: bool
  htlc_skip_state :: bool
  contracts_skip :: bool
  is_consensus_node :: bool
  hardfork :: u32

type_synonym operator_key = "string \<times> string \<times> u64"
type_synonym storage = "(string, bytes) omap"

record database =
  head_time :: time_point_sec
  config :: node_config
  next_collection_id :: u64
  next_nft_id :: u64
  next_htlc_id :: u64
  next_contract_id :: u64
  balances :: "(account_name_type, account_balance) omap"
  collections :: "(collection_id_type, nft_collection_object) omap"
  collection_by_symbol :: "(string, collection_id_type) omap"
  nfts :: "(nft_id_type, nft_object) omap"
  operators :: "(operator_key, nft_operator_object) omap"
  htlcs :: "(htlc_id_type, htlc_object) omap"
  contracts :: "(contract_id_type, contract_object) omap"
  contract_storage :: "(contract_id_type, storage) omap"
  pending_virtual_ops :: "virtual_op list"
  last_rc_charged :: u64

definition default_node_config :: node_config where
  "default_node_config =
     \<lparr>nft_skip_state = False, htlc_skip_state = False, contracts_skip = False,
      is_consensus_node = True, hardfork = HIVE_HARDFORK_CONTRACTS\<rparr>"

definition empty_database :: database where
  "empty_database =
     \<lparr>head_time = 0, config = default_node_config,
      next_collection_id = 1, next_nft_id = 1, next_htlc_id = 1, next_contract_id = 1,
      balances = om_empty, collections = om_empty, collection_by_symbol = om_empty,
      nfts = om_empty, operators = om_empty, htlcs = om_empty, contracts = om_empty,
      contract_storage = om_empty, pending_virtual_ops = [], last_rc_charged = 0\<rparr>"

section \<open>Operations\<close>

definition create_account ::
  "database \<Rightarrow> account_name_type \<Rightarrow> share_type \<Rightarrow> share_type \<Rightarrow> database outcome" where
  "create_account db name hive hbd =
     attempt db (assert_account_name name)
       (\<lambda>_. Done (db\<lparr>balances := om_put (balances db) name \<lparr>b_hive = hive, b_hbd = hbd\<rparr>\<rparr>))"

definition account_exists :: "database \<Rightarrow> account_name_type \<Rightarrow> bool" where
  "account_exists db name \<longleftrightarrow> om_find (balances db) name \<noteq> None"

definition balance_field :: "asset_symbol \<Rightarrow> account_balance \<Rightarrow> share_type" where
  "balance_field sy b = (if sy = HIVE then b_hive b else b_hbd b)"

definition set_balance_field ::
  "asset_symbol \<Rightarrow> share_type \<Rightarrow> account_balance \<Rightarrow> account_balance" where
  "set_balance_field sy v b = (if sy = HIVE then b\<lparr>b_hive := v\<rparr> else b\<lparr>b_hbd := v\<rparr>)"

definition get_balance :: "database \<Rightarrow> account_name_type \<Rightarrow> asset_symbol \<Rightarrow> exn + share_type" where
  "get_balance db name sy =
     (case om_find (balances db) name of
        None \<Rightarrow> Inl (Protocol_error ''account missing'')
      | Some b \<Rightarrow> Inr (balance_field sy b))"

text \<open>
  \<open>adjust_balance\<close>. \<open>-delta.amount\<close> is evaluated only for a negative delta and
  \<open>field += delta.amount\<close> in \<open>int64_t\<close>; either overflowing is undefined behaviour.
\<close>

definition adjust_balance ::
  "database \<Rightarrow> account_name_type \<Rightarrow> asset \<Rightarrow> database outcome" where
  "adjust_balance db name delta =
     (case om_find (balances db) name of
        None \<Rightarrow> Threw (Protocol_error ''account missing'') db
      | Some b \<Rightarrow>
          let sy = symbol delta; field = balance_field sy b;
              short = (if sint (amount delta) < 0
                       then (case i64_neg (amount delta) of
                               Inl e \<Rightarrow> Inl e
                             | Inr need \<Rightarrow> throw_if (sint field < sint need) ''insufficient balance'')
                       else Inr ())
          in attempt db short (\<lambda>_.
             attempt db (i64_add field (amount delta)) (\<lambda>v.
               Done (db\<lparr>balances := om_put (balances db) name (set_balance_field sy v b)\<rparr>))))"

definition is_operator_approved ::
  "database \<Rightarrow> account_name_type \<Rightarrow> account_name_type \<Rightarrow> collection_id_type \<Rightarrow> bool" where
  "is_operator_approved db owner op collection =
     (let approved_at = (\<lambda>k. case om_find (operators db) k of
                               None \<Rightarrow> False | Some o' \<Rightarrow> o_approved o')
      in approved_at (owner, op, collection) \<or> approved_at (owner, op, 0))"

definition open_htlc_count :: "database \<Rightarrow> account_name_type \<Rightarrow> u32" where
  "open_htlc_count db acc =
     foldl (\<lambda>n p. if h_from (snd p) = acc \<and> h_status (snd p) = Open then n + 1 else n) 0
       (om_entries (htlcs db))"

definition push_virtual :: "database \<Rightarrow> string \<Rightarrow> string \<Rightarrow> database" where
  "push_virtual db name payload =
     db\<lparr>pending_virtual_ops := pending_virtual_ops db @ [\<lparr>v_name = name, v_payload_json = payload\<rparr>]\<rparr>"

definition clear_virtual :: "database \<Rightarrow> database" where
  "clear_virtual db = db\<lparr>pending_virtual_ops := []\<rparr>"

definition require_hardfork :: "database \<Rightarrow> u32 \<Rightarrow> exn + unit" where
  "require_hardfork db hf = throw_if (hardfork (config db) < hf) ''hardfork not active''"

definition require_full_nft_state :: "database \<Rightarrow> exn + unit" where
  "require_full_nft_state db = checks [
     throw_if (is_consensus_node (config db) \<and> nft_skip_state (config db))
       ''consensus node cannot skip NFT state'',
     throw_if (nft_skip_state (config db)) ''NFT state skipped on this node'']"

definition require_full_htlc_state :: "database \<Rightarrow> exn + unit" where
  "require_full_htlc_state db = checks [
     throw_if (is_consensus_node (config db) \<and> htlc_skip_state (config db))
       ''consensus node cannot skip HTLC state'',
     throw_if (htlc_skip_state (config db)) ''HTLC state skipped on this node'']"

section \<open>Lemmas\<close>

lemma require_hardfork_Inr [outcome_simps]:
  "require_hardfork db hf = Inr u \<longleftrightarrow> hf \<le> hardfork (config db)"
  by (auto simp: require_hardfork_def outcome_simps not_less)

lemma require_full_nft_state_Inr [outcome_simps]:
  "require_full_nft_state db = Inr u \<longleftrightarrow> \<not> nft_skip_state (config db)"
  by (auto simp: require_full_nft_state_def outcome_simps)

lemma require_full_htlc_state_Inr [outcome_simps]:
  "require_full_htlc_state db = Inr u \<longleftrightarrow> \<not> htlc_skip_state (config db)"
  by (auto simp: require_full_htlc_state_def outcome_simps)

lemma protocol_only_require [protocol_intros]:
  "protocol_only (require_hardfork db hf)" "protocol_only (require_full_nft_state db)"
  "protocol_only (require_full_htlc_state db)"
  unfolding require_hardfork_def require_full_nft_state_def require_full_htlc_state_def
  by (intro protocol_intros)+

lemma account_exists_iff: "account_exists db name \<longleftrightarrow> (\<exists>b. om_find (balances db) name = Some b)"
  by (simp add: account_exists_def)

lemma balance_field_set [simp]:
  "balance_field s (set_balance_field s' v b) = (if s = s' then v else balance_field s b)"
  by (cases s; cases s') (simp_all add: balance_field_def set_balance_field_def)

text \<open>The balance of an account as an integer; 0 for an account that does not exist.\<close>

definition bal :: "database \<Rightarrow> asset_symbol \<Rightarrow> account_name_type \<Rightarrow> int" where
  "bal db sy name =
     (case om_find (balances db) name of None \<Rightarrow> 0 | Some b \<Rightarrow> sint (balance_field sy b))"

definition total_liquid :: "asset_symbol \<Rightarrow> database \<Rightarrow> int" where
  "total_liquid sy db = om_sum (\<lambda>_ b. sint (balance_field sy b)) (balances db)"

text \<open>
  What \<open>adjust_balance\<close> promises: with the account present, a non-overflowing sum and, for
  a debit, enough funds, it moves exactly that account's balance of that asset by exactly
  the delta; otherwise it throws and leaves the database as it was.
\<close>

definition adjust_ok :: "database \<Rightarrow> account_name_type \<Rightarrow> asset \<Rightarrow> bool" where
  "adjust_ok db name delta \<longleftrightarrow>
     account_exists db name \<and> sint (amount delta) \<noteq> INT64_MIN \<and>
     (sint (amount delta) < 0 \<longrightarrow> 0 \<le> bal db (symbol delta) name + sint (amount delta)) \<and>
     bal db (symbol delta) name + sint (amount delta) \<le> INT64_MAX"

lemma neg_i64_eq: "sint a < 0 \<Longrightarrow> sint a \<noteq> INT64_MIN \<Longrightarrow> sint (- a :: i64) = - sint a"
  by (rule sint_i64_neg) (simp add: i64_neg_def)

lemma adjust_balance_ok:
  assumes "adjust_ok db name delta" and "om_find (balances db) name = Some b"
  shows "adjust_balance db name delta =
    Done (db\<lparr>balances := om_put (balances db) name
      (set_balance_field (symbol delta) (balance_field (symbol delta) b + amount delta) b)\<rparr>)"
  using assms sint_i64_range [of "balance_field (symbol delta) b"] sint_i64_range [of "amount delta"]
  by (auto simp: adjust_balance_def adjust_ok_def bal_def Let_def i64_neg_def i64_add_def
      neg_i64_eq throw_if_def INT64_MIN_def)

lemma adjust_balance_Done:
  assumes "adjust_balance db name delta = Done db'"
  obtains b v where "om_find (balances db) name = Some b"
    "db' = db\<lparr>balances := om_put (balances db) name (set_balance_field (symbol delta) v b)\<rparr>"
    "sint v = sint (balance_field (symbol delta) b) + sint (amount delta)"
    "sint (amount delta) < 0 \<Longrightarrow> 0 \<le> sint v"
proof -
  from assms obtain b v where b: "om_find (balances db) name = Some b"
    and add: "i64_add (balance_field (symbol delta) b) (amount delta) = Inr v"
    and db': "db' = db\<lparr>balances := om_put (balances db) name (set_balance_field (symbol delta) v b)\<rparr>"
    and short: "sint (amount delta) < 0 \<Longrightarrow>
      i64_neg (amount delta) = Inr (- amount delta) \<and>
      \<not> sint (balance_field (symbol delta) b) < sint (- amount delta)"
    by (auto simp: adjust_balance_def Let_def outcome_simps i64_neg_def
        split: option.splits if_splits sum.splits)
  have "0 \<le> sint v" if "sint (amount delta) < 0"
    using short [OF that] sint_i64_add [OF add] sint_i64_neg [of "amount delta" "- amount delta"]
    by auto
  with b db' sint_i64_add [OF add] show ?thesis
    by (rule that)
qed

lemma adjust_balance_Threw:
  "adjust_balance db name delta = Threw e db' \<Longrightarrow> db' = db"
  by (auto simp: adjust_balance_def Let_def outcome_simps split: option.splits)

lemma bal_adjust_balance:
  assumes "adjust_balance db name delta = Done db'"
  shows "bal db' sy acc =
    bal db sy acc + (if acc = name \<and> sy = symbol delta then sint (amount delta) else 0)"
  using assms by (elim adjust_balance_Done) (simp add: bal_def)

lemma total_liquid_adjust_balance:
  assumes "adjust_balance db name delta = Done db'"
  shows "total_liquid sy db' =
    total_liquid sy db + (if sy = symbol delta then sint (amount delta) else 0)"
  using assms by (elim adjust_balance_Done) (simp add: total_liquid_def om_sum_put)

text \<open>The fields that neither charge nor event emission touches.\<close>

lemma push_virtual_simps [simp]:
  "head_time (push_virtual db n p) = head_time db"
  "config (push_virtual db n p) = config db"
  "next_collection_id (push_virtual db n p) = next_collection_id db"
  "next_nft_id (push_virtual db n p) = next_nft_id db"
  "next_htlc_id (push_virtual db n p) = next_htlc_id db"
  "next_contract_id (push_virtual db n p) = next_contract_id db"
  "balances (push_virtual db n p) = balances db"
  "collections (push_virtual db n p) = collections db"
  "collection_by_symbol (push_virtual db n p) = collection_by_symbol db"
  "nfts (push_virtual db n p) = nfts db"
  "operators (push_virtual db n p) = operators db"
  "htlcs (push_virtual db n p) = htlcs db"
  "contracts (push_virtual db n p) = contracts db"
  "contract_storage (push_virtual db n p) = contract_storage db"
  "last_rc_charged (push_virtual db n p) = last_rc_charged db"
  by (simp_all add: push_virtual_def)

lemma open_htlc_count_eq:
  "unat (open_htlc_count db acc) =
     length (filter (\<lambda>p. h_from (snd p) = acc \<and> h_status (snd p) = Open) (om_entries (htlcs db)))
       mod 2 ^ 32"
proof -
  have "foldl (\<lambda>n p. if P p then n + 1 else n) (k :: u32) xs = k + of_nat (length (filter P xs))"
    for P k and xs :: "(u64 \<times> htlc_object) list"
    by (induction xs arbitrary: k) simp_all
  then show ?thesis
    by (simp add: open_htlc_count_def unat_of_nat take_bit_eq_mod)
qed

section \<open>A concrete database\<close>

text \<open>The database of the unit tests' fixture; the witnesses of the chain theories use it.\<close>

definition demo_db :: database where
  "demo_db = empty_database
     \<lparr>head_time := 1700000000,
      balances :=
        om_put (om_put (om_put (om_put om_empty
          ''alice'' \<lparr>b_hive = 1000000, b_hbd = 1000000\<rparr>)
          ''bob'' \<lparr>b_hive = 1000000, b_hbd = 1000000\<rparr>)
          ''carol'' \<lparr>b_hive = 0, b_hbd = 0\<rparr>)
          ''op'' \<lparr>b_hive = 0, b_hbd = 0\<rparr>\<rparr>"

lemma account_name_char_simps [simp]:
  "account_name_char c \<longleftrightarrow>
     (97 \<le> (of_char c :: nat) \<and> (of_char c :: nat) \<le> 122) \<or>
     (48 \<le> (of_char c :: nat) \<and> (of_char c :: nat) \<le> 57) \<or> c = CHR ''.'' \<or> c = CHR ''-''"
  by (simp add: account_name_char_def char_between_def less_eq_char_def)

lemma symbol_char_simps [simp]:
  "symbol_char c \<longleftrightarrow>
     (65 \<le> (of_char c :: nat) \<and> (of_char c :: nat) \<le> 90) \<or>
     (48 \<le> (of_char c :: nat) \<and> (of_char c :: nat) \<le> 57)"
  by (simp add: symbol_char_def char_between_def less_eq_char_def)

lemmas demo_simps = demo_db_def empty_database_def default_node_config_def hive_constants
  account_exists_def account_name_ok_def

end
