(* ===== verification/Engine.thy ===== *)
theory Engine
  imports Database
begin

text \<open>
  \<open>include/hive_native/contracts/engine.hpp\<close>, \<open>src/contracts/engine.cpp\<close> and
  \<open>plugins/hive_contracts/\<close>: the contract engine interface, the metering engine
  \<open>null_engine\<close> behind \<open>default_engine()\<close>, the host policy tables and the plugin facade.

  An \<open>engine\<close> is the record of its virtual functions; \<open>call\<close> returns \<open>exn + call_result\<close>
  because \<open>std::stoull\<close> may throw out of it. The locale \<open>contract_engine\<close> is the contract the
  chain and the plugin rely on; it is interpreted on \<open>null_engine\<close>, and the plugin facade is
  shown to keep it.
\<close>

section \<open>Interface\<close>

record host_limits =
  l_fuel :: u64
  l_max_memory_bytes :: nat
  l_max_storage_key :: nat
  l_max_storage_value :: nat
  l_max_storage_total :: nat

definition default_host_limits :: host_limits where
  "default_host_limits =
     \<lparr>l_fuel = 0, l_max_memory_bytes = 4 * 1024 * 1024, l_max_storage_key = 256,
      l_max_storage_value = 4096, l_max_storage_total = 64 * 1024\<rparr>"

record call_result =
  r_success :: bool
  r_fuel_used :: u64
  r_error :: string
  r_storage_writes :: storage
  r_denied_hosts :: "string list"

definition empty_result :: call_result where
  "empty_result =
     \<lparr>r_success = False, r_fuel_used = 0, r_error = [], r_storage_writes = om_empty,
      r_denied_hosts = []\<rparr>"

record engine =
  eng_name :: string
  eng_deploy_and_init :: "bytes \<Rightarrow> bytes \<Rightarrow> host_limits \<Rightarrow> exn + call_result"
  eng_call :: "bytes \<Rightarrow> string \<Rightarrow> bytes \<Rightarrow> storage \<Rightarrow> host_limits \<Rightarrow> account_name_type \<Rightarrow>
    exn + call_result"

datatype host_fn =
    Read_storage | Write_storage | Remove_storage | Get_caller | Get_contract_id
  | Get_block_time | Get_balance | Sha256_host | Log_msg | Abort_call
  | Transfer | Net | Fs | Random | Wall_clock

definition host_allowed :: "host_fn \<Rightarrow> bool" where
  "host_allowed f = (case f of
       Transfer \<Rightarrow> False | Net \<Rightarrow> False | Fs \<Rightarrow> False | Random \<Rightarrow> False | Wall_clock \<Rightarrow> False
     | _ \<Rightarrow> True)"

definition host_fuel_weight :: "host_fn \<Rightarrow> nat \<Rightarrow> u64" where
  "host_fuel_weight f n = (case f of
       Read_storage \<Rightarrow> 50 + of_nat n
     | Write_storage \<Rightarrow> 200 + of_nat n * 2
     | Remove_storage \<Rightarrow> 80
     | Get_caller \<Rightarrow> 10 | Get_contract_id \<Rightarrow> 10 | Get_block_time \<Rightarrow> 10
     | Get_balance \<Rightarrow> 40
     | Sha256_host \<Rightarrow> 30 + of_nat n
     | Log_msg \<Rightarrow> 20 + of_nat n
     | Abort_call \<Rightarrow> 1
     | _ \<Rightarrow> 1000000)"

section \<open>The null engine\<close>

definition burn :: "call_result \<Rightarrow> host_limits \<Rightarrow> u64 \<Rightarrow> bool \<times> call_result" where
  "burn r lim amt =
     (if r_fuel_used r + amt > l_fuel lim
      then (False, r\<lparr>r_success := False, r_error := ''out of fuel'', r_fuel_used := l_fuel lim\<rparr>)
      else (True, r\<lparr>r_fuel_used := r_fuel_used r + amt\<rparr>))"

text \<open>\<open>if(!burn(r, limits, n)) return r;\<close> followed by the rest.\<close>

definition burn_or_return ::
  "call_result \<Rightarrow> host_limits \<Rightarrow> u64 \<Rightarrow> (call_result \<Rightarrow> exn + call_result) \<Rightarrow> exn + call_result" where
  "burn_or_return r lim amt k = (let (ok, r) = burn r lim amt in if \<not> ok then Inr r else k r)"

definition starts_with :: "string \<Rightarrow> string \<Rightarrow> bool" where
  "starts_with p s \<longleftrightarrow> take (length p) s = p"

definition find_char :: "char \<Rightarrow> string \<Rightarrow> nat option" where
  "find_char c s = (if c \<in> set s then Some (length (takeWhile (\<lambda>x. x \<noteq> c) s)) else None)"

definition null_deploy_and_init :: "bytes \<Rightarrow> bytes \<Rightarrow> host_limits \<Rightarrow> exn + call_result" where
  "null_deploy_and_init code init_args limits =
     (let r = empty_result in
      if code = [] then Inr (r\<lparr>r_error := ''empty code''\<rparr>)
      else burn_or_return r limits (100 + of_nat (length code) div 64) (\<lambda>r.
        Inr (r\<lparr>r_success := True\<rparr>)))"

definition null_call ::
  "bytes \<Rightarrow> string \<Rightarrow> bytes \<Rightarrow> storage \<Rightarrow> host_limits \<Rightarrow> account_name_type \<Rightarrow> exn + call_result" where
  "null_call code export_name args storage limits caller =
     (let r = empty_result in
      if code = [] then Inr (r\<lparr>r_error := ''empty code''\<rparr>)
      else if export_name = [] then Inr (r\<lparr>r_error := ''empty export''\<rparr>)
      else burn_or_return r limits 50 (\<lambda>r.
        let cmd = string_of_bytes args in
        if cmd = [] \<or> cmd = ''OK'' then Inr (r\<lparr>r_success := True\<rparr>)
        else if starts_with ''BURN:'' cmd then
          (case stoull (drop 5 cmd) of
             Inl e \<Rightarrow> Inl e
           | Inr n \<Rightarrow> burn_or_return r limits n (\<lambda>r. Inr (r\<lparr>r_success := True\<rparr>)))
        else if starts_with ''DENY:'' cmd then
          (let which = drop 5 cmd in
           if which = ''transfer'' \<and> \<not> host_allowed Transfer
           then Inr (r\<lparr>r_denied_hosts := r_denied_hosts r @ [''transfer''],
                       r_error := ''host function denied: transfer'', r_success := False\<rparr>)
           else Inr (r\<lparr>r_error := ''unknown deny target''\<rparr>))
        else if starts_with ''WRITE:'' cmd then
          (let rest = drop 6 cmd in
           case find_char (CHR '':'') rest of
             None \<Rightarrow> Inr (r\<lparr>r_error := ''bad WRITE''\<rparr>)
           | Some pos \<Rightarrow>
               let key = take pos rest; val = drop (pos + 1) rest in
               if length key > l_max_storage_key limits \<or> length val > l_max_storage_value limits
               then Inr (r\<lparr>r_error := ''storage size limit''\<rparr>)
               else burn_or_return r limits (host_fuel_weight Write_storage (length val)) (\<lambda>r.
                 Inr (r\<lparr>r_storage_writes := om_put (r_storage_writes r) key (bytes_of_string val),
                        r_success := True\<rparr>)))
        else if starts_with ''READ:'' cmd then
          burn_or_return r limits (host_fuel_weight Read_storage 0) (\<lambda>r.
            Inr (r\<lparr>r_success := True\<rparr>))
        else burn_or_return r limits (20 + of_nat (length args)) (\<lambda>r.
            Inr (r\<lparr>r_success := True\<rparr>))))"

definition null_engine :: engine where
  "null_engine =
     \<lparr>eng_name = ''null'', eng_deploy_and_init = null_deploy_and_init, eng_call = null_call\<rparr>"

definition default_engine :: engine where
  "default_engine = null_engine"

section \<open>The engine contract\<close>

text \<open>What a result within its limits is: no more fuel than the limit, writes only on
  success, and every write within the storage size limits.\<close>

definition result_ok :: "host_limits \<Rightarrow> call_result \<Rightarrow> bool" where
  "result_ok lim r \<longleftrightarrow>
     r_fuel_used r \<le> l_fuel lim \<and> (\<not> r_success r \<longrightarrow> r_storage_writes r = om_empty) \<and>
     (\<forall>k v. om_find (r_storage_writes r) k = Some v \<longrightarrow>
        length k \<le> l_max_storage_key lim \<and> length v \<le> l_max_storage_value lim)"

locale contract_engine =
  fixes deploy :: "bytes \<Rightarrow> bytes \<Rightarrow> host_limits \<Rightarrow> exn + call_result"
    and call :: "bytes \<Rightarrow> string \<Rightarrow> bytes \<Rightarrow> storage \<Rightarrow> host_limits \<Rightarrow> account_name_type \<Rightarrow>
      exn + call_result"
  assumes deploy_ok: "deploy code ini lim = Inr r \<Longrightarrow> result_ok lim r"
    and deploy_total: "\<exists>r. deploy code ini lim = Inr r"
    and call_ok: "call code ex args st lim caller = Inr r \<Longrightarrow> result_ok lim r"
begin

lemma call_fuel: "call code ex args st lim caller = Inr r \<Longrightarrow> r_fuel_used r \<le> l_fuel lim"
  using call_ok by (simp add: result_ok_def)

lemma call_failure_writes:
  "call code ex args st lim caller = Inr r \<Longrightarrow> \<not> r_success r \<Longrightarrow> r_storage_writes r = om_empty"
  using call_ok by (simp add: result_ok_def)

lemma call_write_sizes:
  "call code ex args st lim caller = Inr r \<Longrightarrow> om_find (r_storage_writes r) k = Some v \<Longrightarrow>
     length k \<le> l_max_storage_key lim \<and> length v \<le> l_max_storage_value lim"
  using call_ok by (simp add: result_ok_def)

end

text \<open>A result that has staged nothing and stays within its fuel.\<close>

definition metered :: "host_limits \<Rightarrow> call_result \<Rightarrow> bool" where
  "metered lim r \<longleftrightarrow> r_fuel_used r \<le> l_fuel lim \<and> r_storage_writes r = om_empty"

lemma metered_empty [simp]: "metered lim empty_result"
  by (simp add: metered_def empty_result_def)

lemma metered_updates [simp]:
  "metered lim (r\<lparr>r_success := b\<rparr>) = metered lim r"
  "metered lim (r\<lparr>r_error := e\<rparr>) = metered lim r"
  "metered lim (r\<lparr>r_denied_hosts := d\<rparr>) = metered lim r"
  by (simp_all add: metered_def)

lemma metered_result_ok: "metered lim r \<Longrightarrow> result_ok lim r"
  by (simp add: metered_def result_ok_def)

definition returns_ok :: "host_limits \<Rightarrow> exn + call_result \<Rightarrow> bool" where
  "returns_ok lim c \<longleftrightarrow> (\<forall>r. c = Inr r \<longrightarrow> result_ok lim r)"

named_theorems returns_ok_intros \<open>computations that return results within their limits\<close>

lemma returns_ok_basic [returns_ok_intros]:
  "returns_ok lim (Inl e)" "metered lim r \<Longrightarrow> returns_ok lim (Inr r)"
  by (simp_all add: returns_ok_def metered_result_ok)

lemma returns_ok_burn [returns_ok_intros]:
  assumes "metered lim r" and k: "\<And>r'. metered lim r' \<Longrightarrow> returns_ok lim (k r')"
  shows "returns_ok lim (burn_or_return r lim amt k)"
proof (cases "r_fuel_used r + amt > l_fuel lim")
  case True
  with assms(1) show ?thesis
    by (auto simp: returns_ok_def burn_or_return_def burn_def Let_def metered_def result_ok_def)
next
  case False
  then have "metered lim (r\<lparr>r_fuel_used := r_fuel_used r + amt\<rparr>)"
    using assms(1) by (simp add: metered_def not_less)
  from k [OF this] False show ?thesis
    by (simp add: burn_or_return_def burn_def)
qed

lemma returns_ok_if [returns_ok_intros]:
  "(b \<Longrightarrow> returns_ok lim x) \<Longrightarrow> (\<not> b \<Longrightarrow> returns_ok lim y) \<Longrightarrow> returns_ok lim (if b then x else y)"
  by simp

lemma returns_ok_case [returns_ok_intros]:
  "returns_ok lim x \<Longrightarrow> (\<And>i. o' = Some i \<Longrightarrow> returns_ok lim (f i)) \<Longrightarrow>
     returns_ok lim (case o' of None \<Rightarrow> x | Some i \<Rightarrow> f i)"
  "(\<And>e. returns_ok lim (g e)) \<Longrightarrow> (\<And>n. returns_ok lim (h n)) \<Longrightarrow>
     returns_ok lim (case c of Inl e \<Rightarrow> g e | Inr n \<Rightarrow> h n)"
  by (simp_all split: option.splits sum.splits)

lemma returns_ok_write [returns_ok_intros]:
  assumes "metered lim r" and "\<not> (length k > l_max_storage_key lim \<or> length v > l_max_storage_value lim)"
  shows "returns_ok lim (Inr (r\<lparr>r_storage_writes := om_put (r_storage_writes r) k (bytes_of_string v),
    r_success := True\<rparr>))"
  using assms by (auto simp: metered_def result_ok_def returns_ok_def)

lemma null_deploy_returns_ok: "returns_ok lim (null_deploy_and_init code ini lim)"
  unfolding null_deploy_and_init_def Let_def by (intro returns_ok_intros) simp_all

lemma null_deploy_total: "\<exists>r. null_deploy_and_init code ini lim = Inr r"
  by (simp add: null_deploy_and_init_def burn_or_return_def burn_def Let_def)

lemma null_call_returns_ok: "returns_ok lim (null_call code ex args st lim caller)"
  unfolding null_call_def Let_def by (intro returns_ok_intros returns_ok_write) simp_all

interpretation ne: contract_engine null_deploy_and_init null_call
  using null_deploy_returns_ok null_call_returns_ok
  by unfold_locales (auto simp: returns_ok_def intro: null_deploy_total)

section \<open>Exact metering\<close>

text \<open>The meta-protocol of the null engine as a datatype, and the fuel each command costs on
  top of the base cost of 50, as a natural number.\<close>

datatype command =
    Noop | Burn_cmd u64 | Malformed exn | Deny_cmd string | Bad_write
  | Write_cmd string string | Read_cmd | Generic nat

definition parse_command :: "bytes \<Rightarrow> command" where
  "parse_command args =
     (let cmd = string_of_bytes args in
      if cmd = [] \<or> cmd = ''OK'' then Noop
      else if starts_with ''BURN:'' cmd
      then (case stoull (drop 5 cmd) of Inl e \<Rightarrow> Malformed e | Inr n \<Rightarrow> Burn_cmd n)
      else if starts_with ''DENY:'' cmd then Deny_cmd (drop 5 cmd)
      else if starts_with ''WRITE:'' cmd
      then (case find_char (CHR '':'') (drop 6 cmd) of
              None \<Rightarrow> Bad_write
            | Some pos \<Rightarrow> Write_cmd (take pos (drop 6 cmd)) (drop (pos + 1) (drop 6 cmd)))
      else if starts_with ''READ:'' cmd then Read_cmd
      else Generic (length args))"

fun command_fuel :: "command \<Rightarrow> nat" where
  "command_fuel (Burn_cmd n) = unat n"
| "command_fuel (Write_cmd k v) = 200 + 2 * length v"
| "command_fuel Read_cmd = 50"
| "command_fuel (Generic n) = 20 + n"
| "command_fuel _ = 0"

fun runnable :: "host_limits \<Rightarrow> command \<Rightarrow> bool" where
  "runnable lim (Malformed e) = False"
| "runnable lim (Deny_cmd s) = False"
| "runnable lim Bad_write = False"
| "runnable lim (Write_cmd k v) =
     (length k \<le> l_max_storage_key lim \<and> length v \<le> l_max_storage_value lim)"
| "runnable lim _ = True"

fun command_writes :: "command \<Rightarrow> storage" where
  "command_writes (Write_cmd k v) = om_put om_empty k (bytes_of_string v)"
| "command_writes _ = om_empty"

lemma burn_or_return_exact:
  assumes "unat (r_fuel_used r) + n < 2 ^ 64" and "amt = of_nat n"
  shows "burn_or_return r lim amt k =
    (if unat (r_fuel_used r) + n \<le> unat (l_fuel lim)
     then k (r\<lparr>r_fuel_used := of_nat (unat (r_fuel_used r) + n)\<rparr>)
     else Inr (r\<lparr>r_success := False, r_error := ''out of fuel'', r_fuel_used := l_fuel lim\<rparr>))"
proof -
  have "r_fuel_used r + amt = of_nat (unat (r_fuel_used r) + n)"
    by (simp add: assms(2))
  moreover have "unat (of_nat (unat (r_fuel_used r) + n) :: u64) = unat (r_fuel_used r) + n"
    by (rule unat_of_nat_u64 [OF assms(1)])
  ultimately have "r_fuel_used r + amt > l_fuel lim \<longleftrightarrow>
      \<not> unat (r_fuel_used r) + n \<le> unat (l_fuel lim)"
    by (simp only: word_less_nat_alt not_le)
  then show ?thesis
    by (simp add: burn_or_return_def burn_def assms(2))
qed

text \<open>The reference interpreter of parsed commands; \<open>null_call\<close> is parsing followed by it.\<close>

fun run_command :: "host_limits \<Rightarrow> call_result \<Rightarrow> command \<Rightarrow> exn + call_result" where
  "run_command lim r Noop = Inr (r\<lparr>r_success := True\<rparr>)"
| "run_command lim r (Burn_cmd n) = burn_or_return r lim n (\<lambda>r. Inr (r\<lparr>r_success := True\<rparr>))"
| "run_command lim r (Malformed e) = Inl e"
| "run_command lim r (Deny_cmd s) =
     (if s = ''transfer''
      then Inr (r\<lparr>r_denied_hosts := r_denied_hosts r @ [''transfer''],
                  r_error := ''host function denied: transfer'', r_success := False\<rparr>)
      else Inr (r\<lparr>r_error := ''unknown deny target''\<rparr>))"
| "run_command lim r Bad_write = Inr (r\<lparr>r_error := ''bad WRITE''\<rparr>)"
| "run_command lim r (Write_cmd k v) =
     (if length k > l_max_storage_key lim \<or> length v > l_max_storage_value lim
      then Inr (r\<lparr>r_error := ''storage size limit''\<rparr>)
      else burn_or_return r lim (200 + of_nat (length v) * 2) (\<lambda>r.
        Inr (r\<lparr>r_storage_writes := om_put (r_storage_writes r) k (bytes_of_string v),
               r_success := True\<rparr>)))"
| "run_command lim r Read_cmd = burn_or_return r lim 50 (\<lambda>r. Inr (r\<lparr>r_success := True\<rparr>))"
| "run_command lim r (Generic n) =
     burn_or_return r lim (20 + of_nat n) (\<lambda>r. Inr (r\<lparr>r_success := True\<rparr>))"

lemma null_call_eq:
  assumes "code \<noteq> []" "ex \<noteq> []"
  shows "null_call code ex args st lim caller =
    burn_or_return empty_result lim 50 (\<lambda>r. run_command lim r (parse_command args))"
  unfolding null_call_def Let_def parse_command_def using assms
  by (simp only: if_False) (auto simp: host_allowed_def host_fuel_weight_def
      intro!: arg_cong [where f = "burn_or_return empty_result lim 50"]
      split: option.split sum.split)

lemma run_command_exact:
  assumes run: "runnable lim c" and r: "r = empty_result\<lparr>r_fuel_used := 50\<rparr>"
    and small: "50 + command_fuel c < 2 ^ 64"
  shows "run_command lim r c =
    (if 50 + command_fuel c \<le> unat (l_fuel lim) \<or> c = Noop
     then Inr (r\<lparr>r_success := True, r_fuel_used := of_nat (50 + command_fuel c),
                 r_storage_writes := command_writes c\<rparr>)
     else Inr (r\<lparr>r_success := False, r_error := ''out of fuel'', r_fuel_used := l_fuel lim\<rparr>))"
proof -
  have *: "burn_or_return r lim amt k =
      (if 50 + n \<le> unat (l_fuel lim) then k (r\<lparr>r_fuel_used := of_nat (50 + n)\<rparr>)
       else Inr (r\<lparr>r_success := False, r_error := ''out of fuel'', r_fuel_used := l_fuel lim\<rparr>))"
    if "amt = of_nat n" "50 + n < 2 ^ 64" for k amt n
    using that by (subst burn_or_return_exact [of _ n]) (simp_all add: r)
  have empty: "r\<lparr>r_fuel_used := f, r_success := True\<rparr> =
      r\<lparr>r_success := True, r_fuel_used := f, r_storage_writes := om_empty\<rparr>" for f
    by (simp add: r empty_result_def)
  show ?thesis
  proof (cases c)
    case (Burn_cmd n)
    with small show ?thesis by (simp add: * [of n "unat n"] empty)
  next
    case (Write_cmd k v)
    with run have fits: "\<not> (l_max_storage_key lim < length k \<or> l_max_storage_value lim < length v)"
      by auto
    have "200 + of_nat (length v) * 2 = (of_nat (200 + 2 * length v) :: u64)"
      by simp
    note charge = * [OF this]
    from small Write_cmd have "50 + (200 + 2 * length v) < 2 ^ 64"
      by simp
    note charge = charge [OF this]
    show ?thesis
      by (simp only: Write_cmd run_command.simps fits if_False charge command_fuel.simps)
        (simp add: r empty_result_def)
  next
    case Read_cmd
    with small show ?thesis by (simp add: * [of _ 50] empty)
  next
    case (Generic n)
    with small show ?thesis by (simp add: * [of _ "20 + n"] empty)
  qed (use run in \<open>simp_all add: r empty_result_def\<close>)
qed

lemma null_call_exact:
  assumes "code \<noteq> []" "ex \<noteq> []" and run: "runnable lim (parse_command args)"
    and small: "50 + command_fuel (parse_command args) < 2 ^ 64"
  shows "null_call code ex args st lim caller =
    (if 50 + command_fuel (parse_command args) \<le> unat (l_fuel lim)
     then Inr (empty_result\<lparr>r_success := True,
            r_fuel_used := of_nat (50 + command_fuel (parse_command args)),
            r_storage_writes := command_writes (parse_command args)\<rparr>)
     else Inr (empty_result\<lparr>r_error := ''out of fuel'', r_fuel_used := l_fuel lim\<rparr>))"
proof (cases "50 \<le> unat (l_fuel lim)")
  case True
  then have "null_call code ex args st lim caller =
      run_command lim (empty_result\<lparr>r_fuel_used := 50\<rparr>) (parse_command args)"
    unfolding null_call_eq [OF assms(1,2)]
    by (subst burn_or_return_exact [of _ 50]) (simp_all add: empty_result_def)
  also have "\<dots> = (if 50 + command_fuel (parse_command args) \<le> unat (l_fuel lim)
      then Inr (empty_result\<lparr>r_success := True,
            r_fuel_used := of_nat (50 + command_fuel (parse_command args)),
            r_storage_writes := command_writes (parse_command args)\<rparr>)
      else Inr (empty_result\<lparr>r_error := ''out of fuel'', r_fuel_used := l_fuel lim\<rparr>))"
    by (subst run_command_exact [OF run refl small]) (use True in \<open>auto simp: empty_result_def\<close>)
  finally show ?thesis .
next
  case False
  then show ?thesis
    unfolding null_call_eq [OF assms(1,2)]
    by (subst burn_or_return_exact [of _ 50]) (simp_all add: empty_result_def)
qed

section \<open>The plugin facade\<close>

record plugin_options =
  po_enabled :: bool
  po_execute :: bool
  po_engine_name :: string

definition default_plugin_options :: plugin_options where
  "default_plugin_options = \<lparr>po_enabled = True, po_execute = True, po_engine_name = []\<rparr>"

record hive_contracts_plugin =
  p_initialized :: bool
  p_opts :: plugin_options
  p_engine :: "engine option"

definition new_plugin :: hive_contracts_plugin where
  "new_plugin = \<lparr>p_initialized = False, p_opts = default_plugin_options, p_engine = None\<rparr>"

definition plugin_init :: "hive_contracts_plugin \<Rightarrow> plugin_options \<Rightarrow> hive_contracts_plugin" where
  "plugin_init p opts =
     (if p_initialized p then p
      else p\<lparr>p_opts := opts, p_engine := Some default_engine, p_initialized := True\<rparr>)"

definition plugin_shutdown :: "hive_contracts_plugin \<Rightarrow> hive_contracts_plugin" where
  "plugin_shutdown p =
     p\<lparr>p_engine := None, p_initialized := False, p_opts := default_plugin_options\<rparr>"

definition plugin_engine_name :: "hive_contracts_plugin \<Rightarrow> string" where
  "plugin_engine_name p =
     (if \<not> p_initialized p then ''uninitialized''
      else case p_engine p of None \<Rightarrow> ''uninitialized'' | Some e \<Rightarrow> eng_name e)"

definition plugin_deploy ::
  "hive_contracts_plugin \<Rightarrow> bytes \<Rightarrow> bytes \<Rightarrow> host_limits \<Rightarrow> exn + call_result" where
  "plugin_deploy p code init_args limits =
     (if \<not> p_initialized p then Inr (empty_result\<lparr>r_error := ''plugin not initialized''\<rparr>)
      else case p_engine p of
        None \<Rightarrow> Inr (empty_result\<lparr>r_error := ''plugin not initialized''\<rparr>)
      | Some e \<Rightarrow>
          if \<not> po_enabled (p_opts p) \<or> \<not> po_execute (p_opts p)
          then Inr (empty_result\<lparr>r_error := ''plugin execution disabled''\<rparr>)
          else eng_deploy_and_init e code init_args limits)"

definition plugin_call ::
  "hive_contracts_plugin \<Rightarrow> bytes \<Rightarrow> string \<Rightarrow> bytes \<Rightarrow> storage \<Rightarrow> host_limits \<Rightarrow>
   account_name_type \<Rightarrow> exn + call_result" where
  "plugin_call p code export_name args storage limits caller =
     (if \<not> p_initialized p then Inr (empty_result\<lparr>r_error := ''plugin not initialized''\<rparr>)
      else case p_engine p of
        None \<Rightarrow> Inr (empty_result\<lparr>r_error := ''plugin not initialized''\<rparr>)
      | Some e \<Rightarrow>
          if \<not> po_enabled (p_opts p) \<or> \<not> po_execute (p_opts p)
          then Inr (empty_result\<lparr>r_error := ''plugin execution disabled''\<rparr>)
          else eng_call e code export_name args storage limits caller)"

text \<open>The plugin's life cycle: any sequence of \<open>init\<close> and \<open>shutdown\<close> calls. As \<open>init\<close> does nothing while
  the plugin is initialised, the session in force is that of the first \<open>init\<close> after the last
  \<open>shutdown\<close>.\<close>

datatype plugin_event = Init plugin_options | Shut_down

fun plugin_do :: "hive_contracts_plugin \<Rightarrow> plugin_event \<Rightarrow> hive_contracts_plugin" where
  "plugin_do p (Init opts) = plugin_init p opts"
| "plugin_do p Shut_down = plugin_shutdown p"

definition plugin_after :: "plugin_event list \<Rightarrow> hive_contracts_plugin" where
  "plugin_after es = foldl plugin_do new_plugin es"

definition plugin_session :: "plugin_event list \<Rightarrow> plugin_options option" where
  "plugin_session es =
     (case rev (takeWhile (\<lambda>e. e \<noteq> Shut_down) (rev es)) of Init opts # _ \<Rightarrow> Some opts | _ \<Rightarrow> None)"

inductive plugin_reachable :: "hive_contracts_plugin \<Rightarrow> bool" where
  plugin_new: "plugin_reachable new_plugin"
| plugin_inited: "plugin_reachable p \<Longrightarrow> plugin_reachable (plugin_init p opts)"
| plugin_down: "plugin_reachable p \<Longrightarrow> plugin_reachable (plugin_shutdown p)"

lemma plugin_reachable_engine:
  "plugin_reachable p \<Longrightarrow> p_engine p = (if p_initialized p then Some default_engine else None)"
  by (induction rule: plugin_reachable.induct)
    (auto simp: new_plugin_def plugin_init_def plugin_shutdown_def)

text \<open>A plugin is itself an engine within the contract, whatever its life cycle so far.\<close>

lemma plugin_contract_engine:
  assumes "plugin_reachable p"
  shows "contract_engine (plugin_deploy p) (plugin_call p)"
proof
  fix code ini lim ex args st caller r
  show "result_ok lim r" if "plugin_deploy p code ini lim = Inr r"
    using that plugin_reachable_engine [OF assms] ne.deploy_ok
    by (auto simp: plugin_deploy_def default_engine_def null_engine_def intro!: metered_result_ok
        split: if_splits)
  show "\<exists>r. plugin_deploy p code ini lim = Inr r"
    using plugin_reachable_engine [OF assms] ne.deploy_total
    by (auto simp: plugin_deploy_def default_engine_def null_engine_def)
  show "result_ok lim r" if "plugin_call p code ex args st lim caller = Inr r"
    using that plugin_reachable_engine [OF assms] ne.call_ok
    by (auto simp: plugin_call_def default_engine_def null_engine_def intro!: metered_result_ok
        split: if_splits)
qed

lemma plugin_after_reachable: "plugin_reachable (plugin_after es)"
proof (induction es rule: rev_induct)
  case (snoc e es)
  then show ?case by (cases e) (simp_all add: plugin_after_def plugin_inited plugin_down)
qed (simp add: plugin_after_def plugin_new)

lemma takeWhile_Init: "e \<in> set (takeWhile (\<lambda>e. e \<noteq> Shut_down) es) \<Longrightarrow> \<exists>opts. e = Init opts"
  by (cases e) (auto dest: set_takeWhileD)

lemma plugin_session_snoc:
  "plugin_session [] = None" "plugin_session (es @ [Shut_down]) = None"
  "plugin_session (es @ [Init opts]) =
     (case plugin_session es of None \<Rightarrow> Some opts | Some opts' \<Rightarrow> Some opts')"
proof -
  show "plugin_session (es @ [Init opts]) =
     (case plugin_session es of None \<Rightarrow> Some opts | Some opts' \<Rightarrow> Some opts')"
  proof (cases "rev (takeWhile (\<lambda>e. e \<noteq> Shut_down) (rev es))")
    case (Cons e rest)
    then have "e \<in> set (takeWhile (\<lambda>e. e \<noteq> Shut_down) (rev es))"
      by (metis list.set_intros(1) set_rev)
    with Cons show ?thesis using takeWhile_Init by (fastforce simp: plugin_session_def)
  qed (simp add: plugin_session_def)
qed (simp_all add: plugin_session_def)

lemma plugin_after_session:
  "plugin_after es =
     (case plugin_session es of
        None \<Rightarrow> new_plugin
      | Some opts \<Rightarrow> \<lparr>p_initialized = True, p_opts = opts, p_engine = Some default_engine\<rparr>)"
proof (induction es rule: rev_induct)
  case (snoc e es)
  then show ?case
    by (cases e) (simp_all add: plugin_after_def plugin_session_snoc plugin_init_def plugin_shutdown_def
        new_plugin_def split: option.split)
qed (simp add: plugin_after_def plugin_session_snoc)

text \<open>The engine name in the options has no influence.\<close>

lemma engine_name_is_ignored:
  "plugin_call (plugin_init new_plugin (opts\<lparr>po_engine_name := name\<rparr>)) =
     plugin_call (plugin_init new_plugin opts)"
  by (simp add: fun_eq_iff plugin_call_def plugin_init_def new_plugin_def)

text \<open>Two of the host limits are never looked at: neither the memory limit nor the limit on the total
  size of a contract's storage changes a result, and a call does not read the storage it extends.\<close>

lemma burn_or_return_quota:
  "burn_or_return r (lim\<lparr>l_max_memory_bytes := n, l_max_storage_total := t\<rparr>) a k = burn_or_return r lim a k"
  by (simp add: burn_or_return_def burn_def)

lemma host_limits_quota:
  "l_max_storage_key (lim\<lparr>l_max_memory_bytes := n, l_max_storage_total := t\<rparr>) = l_max_storage_key lim"
  "l_max_storage_value (lim\<lparr>l_max_memory_bytes := n, l_max_storage_total := t\<rparr>) = l_max_storage_value lim"
  "l_fuel (lim\<lparr>l_max_memory_bytes := n, l_max_storage_total := t\<rparr>) = l_fuel lim"
  by simp_all

lemma quotas_are_not_enforced:
  "null_call code ex args st (lim\<lparr>l_max_memory_bytes := n, l_max_storage_total := t\<rparr>) caller =
     null_call code ex args st' lim caller"
  "null_deploy_and_init code ia (lim\<lparr>l_max_memory_bytes := n, l_max_storage_total := t\<rparr>) =
     null_deploy_and_init code ia lim"
  unfolding null_call_def null_deploy_and_init_def Let_def burn_or_return_quota host_limits_quota
  by (rule refl)+

section \<open>Properties\<close>

lemmas stoull_eval = stoull_def is_space_def is_digit_def nat_of_dec_def digit_val_def

definition demo_limits :: host_limits where
  "demo_limits = default_host_limits\<lparr>l_fuel := 1000\<rparr>"

definition demo_args :: bytes where
  "demo_args = bytes_of_string ''WRITE:k:v''"

lemma parse_demo_args: "parse_command demo_args = Write_cmd ''k'' ''v''"
  by (simp add: parse_command_def demo_args_def starts_with_def find_char_def)

text \<open>C19: a call of the null engine that returns has used no more fuel than its limit, has
  staged storage writes only if it succeeded, and every staged key and value is within the size
  limits.\<close>

theorem null_engine_within_limits:
  "eng_call default_engine code export_name args storage lim caller = Inr r \<Longrightarrow> result_ok lim r"
  by (rule ne.call_ok) (simp add: default_engine_def null_engine_def)

theorem null_engine_within_limits_witness:
  "\<exists>r. eng_call default_engine [1] ''run'' demo_args om_empty demo_limits ''bob'' = Inr r \<and>
     result_ok demo_limits r"
proof -
  obtain r where *: "eng_call default_engine [1] ''run'' demo_args om_empty demo_limits ''bob'' = Inr r"
    using null_call_exact [of "[1]" "''run''" demo_limits demo_args om_empty "''bob''"]
    by (simp add: default_engine_def null_engine_def parse_demo_args demo_limits_def
        default_host_limits_def)
  with null_engine_within_limits [OF *] show ?thesis by blast
qed

text \<open>C20: exact metering. For every command that is allowed to run, the call succeeds exactly
  when the limit covers 50 plus the command's own fuel, it then reports exactly that fuel and
  exactly that command's writes, and otherwise it fails as out of fuel having used the whole
  limit. The last hypothesis excludes sums beyond 64 bits, that is \<open>BURN:n\<close> with \<open>n\<close> of at least
  \<open>2^64 - 50\<close> (and arguments of about that length), where the check of the code wraps around.\<close>

theorem null_engine_meters_exactly:
  assumes "code \<noteq> []" "export_name \<noteq> []" and "runnable lim (parse_command args)"
    and "50 + command_fuel (parse_command args) < 2 ^ 64"
  shows "null_call code export_name args st lim caller =
    (if 50 + command_fuel (parse_command args) \<le> unat (l_fuel lim)
     then Inr (empty_result\<lparr>r_success := True,
            r_fuel_used := of_nat (50 + command_fuel (parse_command args)),
            r_storage_writes := command_writes (parse_command args)\<rparr>)
     else Inr (empty_result\<lparr>r_error := ''out of fuel'', r_fuel_used := l_fuel lim\<rparr>))"
  by (rule null_call_exact [OF assms])

theorem null_engine_meters_exactly_witness:
  "null_call [1] ''run'' demo_args om_empty demo_limits ''bob'' =
     Inr (empty_result\<lparr>r_success := True, r_fuel_used := 252,
       r_storage_writes := om_put om_empty ''k'' [118]\<rparr>)"
  using null_engine_meters_exactly [of "[1]" "''run''" demo_limits demo_args om_empty "''bob''"]
  by (simp add: parse_demo_args demo_limits_def default_host_limits_def bytes_of_string_def)

text \<open>The fuel check adds in 64 bits, so a burn that wraps around passes it: with a limit
  of 50, \<open>BURN:18446744073709551615\<close> succeeds and reports 49 units used, one less than the
  base charge of the same call.\<close>

lemma burn_wraps_past_the_limit:
  "null_call [1] ''run'' (bytes_of_string ''BURN:18446744073709551615'') om_empty
     (default_host_limits\<lparr>l_fuel := 50\<rparr>) ''bob'' =
   Inr (empty_result\<lparr>r_success := True, r_fuel_used := 49\<rparr>)"
  by (simp add: null_call_def burn_or_return_def burn_def starts_with_def stoull_eval
      default_host_limits_def empty_result_def Let_def)

text \<open>C21: the plugin follows its session. After any sequence of \<open>init\<close> and \<open>shutdown\<close> calls, the
  options in force are those of the first \<open>init\<close> since the last \<open>shutdown\<close>, later calls of \<open>init\<close>
  having no effect. Without such an \<open>init\<close> the plugin is uninitialised and refuses to deploy and to
  call; with options that disable it or its execution it refuses too; a refusal uses no fuel
  and stages no write. Otherwise, when the options leave the choice of the engine open, both are
  what the default engine returns. Every result of a call is within the limits given.\<close>

theorem plugin_follows_its_session:
  "let p = plugin_after es; refused = (\<lambda>e. Inr (empty_result\<lparr>r_error := e\<rparr>) :: exn + call_result) in
   (p_initialized p \<longleftrightarrow> plugin_session es \<noteq> None) \<and>
   (\<forall>r. plugin_call p code export_name args st lim caller = Inr r \<longrightarrow> result_ok lim r) \<and>
   (case plugin_session es of
      None \<Rightarrow>
        p_opts p = default_plugin_options \<and> plugin_engine_name p = ''uninitialized'' \<and>
        plugin_call p code export_name args st lim caller = refused ''plugin not initialized'' \<and>
        plugin_deploy p code ini lim = refused ''plugin not initialized''
    | Some opts \<Rightarrow>
        p_opts p = opts \<and>
        (if po_enabled opts \<and> po_execute opts
         then po_engine_name opts = [] \<longrightarrow>
           plugin_engine_name p = eng_name default_engine \<and>
           plugin_call p code export_name args st lim caller =
             eng_call default_engine code export_name args st lim caller \<and>
           plugin_deploy p code ini lim = eng_deploy_and_init default_engine code ini lim
         else
           plugin_call p code export_name args st lim caller = refused ''plugin execution disabled'' \<and>
           plugin_deploy p code ini lim = refused ''plugin execution disabled''))"
proof -
  have "\<forall>r. plugin_call (plugin_after es) code export_name args st lim caller = Inr r \<longrightarrow> result_ok lim r"
    using contract_engine.call_ok [OF plugin_contract_engine [OF plugin_after_reachable]] by blast
  then show ?thesis
    by (auto simp: Let_def plugin_after_session plugin_call_def plugin_deploy_def plugin_engine_name_def
        new_plugin_def split: option.split)
qed

theorem plugin_follows_its_session_witness:
  "plugin_call (plugin_after [Init (default_plugin_options\<lparr>po_execute := False\<rparr>), Shut_down,
       Init default_plugin_options, Init (default_plugin_options\<lparr>po_enabled := False\<rparr>)])
     [1] ''run'' demo_args om_empty demo_limits ''bob'' =
   Inr (empty_result\<lparr>r_success := True, r_fuel_used := 252, r_storage_writes := om_put om_empty ''k'' [118]\<rparr>)"
proof -
  let ?es = "[Init (default_plugin_options\<lparr>po_execute := False\<rparr>), Shut_down,
    Init default_plugin_options, Init (default_plugin_options\<lparr>po_enabled := False\<rparr>)]"
  have "plugin_session ?es = Some default_plugin_options" by (simp add: plugin_session_def)
  then have "plugin_call (plugin_after ?es) [1] ''run'' demo_args om_empty demo_limits ''bob'' =
      eng_call default_engine [1] ''run'' demo_args om_empty demo_limits ''bob''"
    using plugin_follows_its_session [of ?es "[1]" "''run''" demo_args om_empty demo_limits "''bob''"]
    by (simp add: Let_def default_plugin_options_def)
  also have "\<dots> = Inr (empty_result\<lparr>r_success := True, r_fuel_used := 252,
      r_storage_writes := om_put om_empty ''k'' [118]\<rparr>)"
    using null_call_exact [of "[1]" "''run''" demo_limits demo_args om_empty "''bob''"]
    by (simp add: default_engine_def null_engine_def parse_demo_args demo_limits_def default_host_limits_def
        bytes_of_string_def)
  finally show ?thesis .
qed

end
