(* ===== verification/Nft.thy ===== *)
theory Nft
  imports Database
begin

text \<open>
  \<open>src/chain/evaluators_nft.cpp\<close>: the six NFT evaluators. Each is the whole \<open>apply\<close>
  overload: hardfork and node guards, validation, state checks, the resource-credit charge,
  the mutation and the virtual operation. For each a lemma \<open>..._Done\<close> gives its success
  condition and result, and \<open>nft_apply_Threw\<close> says that a rejected operation changes
  nothing.

  \<open>nft_inv\<close> is the invariant of the NFT tables; every evaluator keeps it. \<open>nft_ledger\<close> is
  the abstract token ledger (owner, approval and operator relations) with a step relation
  in the style of ERC-721, and every evaluator refines it.
\<close>

section \<open>Evaluators\<close>

definition apply_nft_create_collection ::
  "database \<Rightarrow> nft_create_collection_operation \<Rightarrow> database outcome" where
  "apply_nft_create_collection db op =
     attempt db (checks [
         require_hardfork db HIVE_HARDFORK_NFT,
         require_full_nft_state db,
         validate_nft_create_collection op,
         throw_if (\<not> account_exists db (ncc_creator op)) ''creator account missing'',
         throw_if (om_find (collection_by_symbol db) (ncc_symbol op) \<noteq> None) ''symbol taken'']) (\<lambda>_.
       let db = db\<lparr>last_rc_charged := cost_nft_create_collection op\<rparr>;
           c = \<lparr>c_id = next_collection_id db, c_creator = ncc_creator op,
                c_symbol = ncc_symbol op, c_name = ncc_name op,
                c_max_supply = ncc_max_supply op, c_supply = 0,
                c_transferable = ncc_transferable op, c_created = head_time db\<rparr>;
           db = db\<lparr>next_collection_id := next_collection_id db + 1\<rparr>;
           db = db\<lparr>collections := om_put (collections db) (c_id c) c\<rparr>;
           db = db\<lparr>collection_by_symbol := om_put (collection_by_symbol db) (c_symbol c) (c_id c)\<rparr>
       in Done (push_virtual db ''nft_collection_created''
            (''{\"id\":'' @ dec_u64 (c_id c) @ '',\"symbol\":\"'' @ c_symbol c @ ''\"}'')))"

definition apply_nft_mint :: "database \<Rightarrow> nft_mint_operation \<Rightarrow> database outcome" where
  "apply_nft_mint db op =
     attempt db (checks [
         require_hardfork db HIVE_HARDFORK_NFT,
         require_full_nft_state db,
         validate_nft_mint op,
         throw_if (\<not> account_exists db (nm_creator op) \<or> \<not> account_exists db (nm_to op))
           ''account missing'']) (\<lambda>_.
     case om_find (collections db) (nm_collection op) of
       None \<Rightarrow> Threw (Protocol_error ''unknown collection'') db
     | Some col \<Rightarrow>
     attempt db (checks [
         throw_if (c_creator col \<noteq> nm_creator op) ''not collection creator'',
         throw_if (c_max_supply col \<noteq> 0 \<and> c_supply col \<ge> c_max_supply col)
           ''max supply reached'']) (\<lambda>_.
       let db = db\<lparr>last_rc_charged := cost_nft_mint op\<rparr>;
           n = \<lparr>n_id = next_nft_id db, n_collection = nm_collection op,
                n_token_serial = c_supply col + 1, n_owner = nm_to op, n_approved = [],
                n_metadata_hash = nm_metadata_hash op, n_uri = nm_uri op,
                n_soulbound = (nm_soulbound op \<or> \<not> c_transferable col),
                n_minted = head_time db\<rparr>;
           db = db\<lparr>next_nft_id := next_nft_id db + 1\<rparr>;
           db = db\<lparr>nfts := om_put (nfts db) (n_id n) n\<rparr>;
           db = db\<lparr>collections := om_put (collections db) (nm_collection op)
                                   (col\<lparr>c_supply := c_supply col + 1\<rparr>)\<rparr>
       in Done (push_virtual db ''nft_minted''
            (''{\"nft_id\":'' @ dec_u64 (n_id n) @ '',\"to\":\"'' @ n_owner n @ ''\"}''))))"

definition apply_nft_transfer :: "database \<Rightarrow> nft_transfer_operation \<Rightarrow> database outcome" where
  "apply_nft_transfer db op =
     attempt db (checks [
         require_hardfork db HIVE_HARDFORK_NFT,
         require_full_nft_state db,
         validate_nft_transfer op,
         throw_if (\<not> account_exists db (nt_to op)) ''to missing'']) (\<lambda>_.
     case om_find (nfts db) (nt_nft_id op) of
       None \<Rightarrow> Threw (Protocol_error ''unknown nft'') db
     | Some n \<Rightarrow>
     let is_owner = (n_owner n = nt_from op);
         is_token_approved = (n_approved n = nt_from op);
         is_op_all = is_operator_approved db (n_owner n) (nt_from op) (n_collection n)
     in attempt db (checks [
         throw_if (\<not> is_owner \<and> \<not> is_token_approved \<and> \<not> is_op_all) ''not authorized to transfer'',
         throw_if (n_soulbound n) ''soulbound'']) (\<lambda>_.
       let db = db\<lparr>last_rc_charged := cost_nft_transfer op\<rparr>;
           prev_owner = n_owner n;
           n = n\<lparr>n_owner := nt_to op, n_approved := []\<rparr>;
           db = db\<lparr>nfts := om_put (nfts db) (nt_nft_id op) n\<rparr>
       in Done (push_virtual db ''nft_transferred''
            (''{\"nft_id\":'' @ dec_u64 (n_id n) @ '',\"from\":\"'' @ prev_owner @ ''\",\"to\":\"''
              @ n_owner n @ ''\"}''))))"

definition apply_nft_approve :: "database \<Rightarrow> nft_approve_operation \<Rightarrow> database outcome" where
  "apply_nft_approve db op =
     attempt db (checks [
         require_hardfork db HIVE_HARDFORK_NFT,
         require_full_nft_state db,
         validate_nft_approve op]) (\<lambda>_.
     case om_find (nfts db) (na_nft_id op) of
       None \<Rightarrow> Threw (Protocol_error ''unknown nft'') db
     | Some n \<Rightarrow>
     attempt db (checks [
         throw_if (n_owner n \<noteq> na_owner op) ''not owner'',
         throw_if (na_approved op \<noteq> [] \<and> \<not> account_exists db (na_approved op))
           ''approved account missing'']) (\<lambda>_.
       let db = db\<lparr>last_rc_charged := cost_nft_approve op\<rparr>;
           db = db\<lparr>nfts := om_put (nfts db) (na_nft_id op) (n\<lparr>n_approved := na_approved op\<rparr>)\<rparr>
       in Done (push_virtual db ''nft_approved''
            (''{\"nft_id\":'' @ dec_u64 (na_nft_id op) @ '',\"approved\":\"'' @ na_approved op
              @ ''\"}''))))"

definition apply_nft_set_approval_for_all ::
  "database \<Rightarrow> nft_set_approval_for_all_operation \<Rightarrow> database outcome" where
  "apply_nft_set_approval_for_all db op =
     attempt db (checks [
         require_hardfork db HIVE_HARDFORK_NFT,
         require_full_nft_state db,
         validate_nft_set_approval_for_all op,
         throw_if (\<not> account_exists db (ns_owner op) \<or> \<not> account_exists db (ns_operator_account op))
           ''account missing'',
         throw_if (ns_collection op \<noteq> 0 \<and> om_find (collections db) (ns_collection op) = None)
           ''unknown collection'']) (\<lambda>_.
       let db = db\<lparr>last_rc_charged := cost_nft_set_approval_for_all op\<rparr>;
           key = (ns_owner op, ns_operator_account op, ns_collection op);
           db = (if \<not> ns_approved op then db\<lparr>operators := om_erase (operators db) key\<rparr>
                 else db\<lparr>operators := om_put (operators db) key
                        \<lparr>o_owner = ns_owner op, o_operator_account = ns_operator_account op,
                         o_collection = ns_collection op, o_approved = True\<rparr>\<rparr>)
       in Done (push_virtual db ''nft_approval_for_all''
            (''{\"owner\":\"'' @ ns_owner op @ ''\",\"operator\":\"'' @ ns_operator_account op
              @ ''\",\"collection\":'' @ dec_u64 (ns_collection op) @ '',\"approved\":''
              @ (if ns_approved op then ''true'' else ''false'') @ ''}'')))"

definition apply_nft_burn :: "database \<Rightarrow> nft_burn_operation \<Rightarrow> database outcome" where
  "apply_nft_burn db op =
     attempt db (checks [
         require_hardfork db HIVE_HARDFORK_NFT,
         require_full_nft_state db,
         validate_nft_burn op]) (\<lambda>_.
     case om_find (nfts db) (nb_nft_id op) of
       None \<Rightarrow> Threw (Protocol_error ''unknown nft'') db
     | Some n \<Rightarrow>
     attempt db (throw_if (n_owner n \<noteq> nb_owner op) ''not owner'') (\<lambda>_.
       let db = db\<lparr>last_rc_charged := cost_nft_burn op\<rparr>;
           collection = n_collection n;
           db = db\<lparr>nfts := om_erase (nfts db) (nb_nft_id op)\<rparr>;
           db = (case om_find (collections db) collection of
                   None \<Rightarrow> db
                 | Some c \<Rightarrow>
                     if c_supply c > 0
                     then db\<lparr>collections := om_put (collections db) collection
                                              (c\<lparr>c_supply := c_supply c - 1\<rparr>)\<rparr>
                     else db)
       in Done (push_virtual db ''nft_burned''
            (''{\"nft_id\":'' @ dec_u64 (nb_nft_id op) @ '',\"owner\":\"'' @ nb_owner op @ ''\"}''))))"

section \<open>Success conditions\<close>

text \<open>The guard every NFT evaluator starts with.\<close>

definition nft_enabled :: "database \<Rightarrow> bool" where
  "nft_enabled db \<longleftrightarrow> HIVE_HARDFORK_NFT \<le> hardfork (config db) \<and> \<not> nft_skip_state (config db)"

lemma apply_nft_create_collection_Done:
  "apply_nft_create_collection db op = Done db' \<longleftrightarrow>
     nft_enabled db \<and> validate_nft_create_collection op = Inr () \<and>
     account_exists db (ncc_creator op) \<and>
     om_find (collection_by_symbol db) (ncc_symbol op) = None \<and>
     db' = push_virtual
       (db\<lparr>last_rc_charged := cost_nft_create_collection op,
           next_collection_id := next_collection_id db + 1,
           collections := om_put (collections db) (next_collection_id db)
             \<lparr>c_id = next_collection_id db, c_creator = ncc_creator op,
              c_symbol = ncc_symbol op, c_name = ncc_name op,
              c_max_supply = ncc_max_supply op, c_supply = 0,
              c_transferable = ncc_transferable op, c_created = head_time db\<rparr>,
           collection_by_symbol :=
             om_put (collection_by_symbol db) (ncc_symbol op) (next_collection_id db)\<rparr>)
       ''nft_collection_created''
       (''{\"id\":'' @ dec_u64 (next_collection_id db) @ '',\"symbol\":\"'' @ ncc_symbol op @ ''\"}'')"
  by (auto simp: apply_nft_create_collection_def Let_def attempt_Done checks_Cons_Inr throw_if_Inr
      require_hardfork_Inr require_full_nft_state_Inr nft_enabled_def)

lemma apply_nft_mint_Done:
  "apply_nft_mint db op = Done db' \<longleftrightarrow>
     nft_enabled db \<and> validate_nft_mint op = Inr () \<and>
     account_exists db (nm_creator op) \<and> account_exists db (nm_to op) \<and>
     (\<exists>col. om_find (collections db) (nm_collection op) = Some col \<and>
       c_creator col = nm_creator op \<and>
       (c_max_supply col = 0 \<or> c_supply col < c_max_supply col) \<and>
       db' = push_virtual
         (db\<lparr>last_rc_charged := cost_nft_mint op,
             next_nft_id := next_nft_id db + 1,
             nfts := om_put (nfts db) (next_nft_id db)
               \<lparr>n_id = next_nft_id db, n_collection = nm_collection op,
                n_token_serial = c_supply col + 1, n_owner = nm_to op, n_approved = [],
                n_metadata_hash = nm_metadata_hash op, n_uri = nm_uri op,
                n_soulbound = (nm_soulbound op \<or> \<not> c_transferable col),
                n_minted = head_time db\<rparr>,
             collections := om_put (collections db) (nm_collection op)
               (col\<lparr>c_supply := c_supply col + 1\<rparr>)\<rparr>)
         ''nft_minted''
         (''{\"nft_id\":'' @ dec_u64 (next_nft_id db) @ '',\"to\":\"'' @ nm_to op @ ''\"}''))"
  by (auto simp: apply_nft_mint_def Let_def attempt_Done checks_Cons_Inr throw_if_Inr
      require_hardfork_Inr require_full_nft_state_Inr nft_enabled_def not_le split: option.splits)

lemma apply_nft_transfer_Done:
  "apply_nft_transfer db op = Done db' \<longleftrightarrow>
     nft_enabled db \<and> validate_nft_transfer op = Inr () \<and> account_exists db (nt_to op) \<and>
     (\<exists>n. om_find (nfts db) (nt_nft_id op) = Some n \<and>
       (n_owner n = nt_from op \<or> n_approved n = nt_from op \<or>
        is_operator_approved db (n_owner n) (nt_from op) (n_collection n)) \<and>
       \<not> n_soulbound n \<and>
       db' = push_virtual
         (db\<lparr>last_rc_charged := cost_nft_transfer op,
             nfts := om_put (nfts db) (nt_nft_id op) (n\<lparr>n_owner := nt_to op, n_approved := []\<rparr>)\<rparr>)
         ''nft_transferred''
         (''{\"nft_id\":'' @ dec_u64 (n_id n) @ '',\"from\":\"'' @ n_owner n @ ''\",\"to\":\"''
           @ nt_to op @ ''\"}''))"
  by (auto simp: apply_nft_transfer_def Let_def attempt_Done checks_Cons_Inr throw_if_Inr
      require_hardfork_Inr require_full_nft_state_Inr nft_enabled_def split: option.splits)

lemma apply_nft_approve_Done:
  "apply_nft_approve db op = Done db' \<longleftrightarrow>
     nft_enabled db \<and> validate_nft_approve op = Inr () \<and>
     (\<exists>n. om_find (nfts db) (na_nft_id op) = Some n \<and> n_owner n = na_owner op \<and>
       (na_approved op = [] \<or> account_exists db (na_approved op)) \<and>
       db' = push_virtual
         (db\<lparr>last_rc_charged := cost_nft_approve op,
             nfts := om_put (nfts db) (na_nft_id op) (n\<lparr>n_approved := na_approved op\<rparr>)\<rparr>)
         ''nft_approved''
         (''{\"nft_id\":'' @ dec_u64 (na_nft_id op) @ '',\"approved\":\"'' @ na_approved op @ ''\"}''))"
  by (auto simp: apply_nft_approve_def Let_def attempt_Done checks_Cons_Inr throw_if_Inr
      require_hardfork_Inr require_full_nft_state_Inr nft_enabled_def split: option.splits)

lemma apply_nft_set_approval_for_all_Done:
  "apply_nft_set_approval_for_all db op = Done db' \<longleftrightarrow>
     nft_enabled db \<and> validate_nft_set_approval_for_all op = Inr () \<and>
     account_exists db (ns_owner op) \<and> account_exists db (ns_operator_account op) \<and>
     (ns_collection op = 0 \<or> om_find (collections db) (ns_collection op) \<noteq> None) \<and>
     db' = push_virtual
       (db\<lparr>last_rc_charged := cost_nft_set_approval_for_all op,
           operators :=
             (if ns_approved op
              then om_put (operators db) (ns_owner op, ns_operator_account op, ns_collection op)
                     \<lparr>o_owner = ns_owner op, o_operator_account = ns_operator_account op,
                      o_collection = ns_collection op, o_approved = True\<rparr>
              else om_erase (operators db)
                     (ns_owner op, ns_operator_account op, ns_collection op))\<rparr>)
       ''nft_approval_for_all''
       (''{\"owner\":\"'' @ ns_owner op @ ''\",\"operator\":\"'' @ ns_operator_account op
         @ ''\",\"collection\":'' @ dec_u64 (ns_collection op) @ '',\"approved\":''
         @ (if ns_approved op then ''true'' else ''false'') @ ''}'')"
  by (cases "ns_approved op")
    (auto simp: apply_nft_set_approval_for_all_def Let_def attempt_Done checks_Cons_Inr throw_if_Inr
      require_hardfork_Inr require_full_nft_state_Inr nft_enabled_def)

definition collections_after_burn ::
  "database \<Rightarrow> collection_id_type \<Rightarrow> (collection_id_type, nft_collection_object) omap" where
  "collections_after_burn db collection =
     (case om_find (collections db) collection of
        None \<Rightarrow> collections db
      | Some c \<Rightarrow>
          if c_supply c > 0
          then om_put (collections db) collection (c\<lparr>c_supply := c_supply c - 1\<rparr>)
          else collections db)"

lemma apply_nft_burn_Done:
  "apply_nft_burn db op = Done db' \<longleftrightarrow>
     nft_enabled db \<and> validate_nft_burn op = Inr () \<and>
     (\<exists>n. om_find (nfts db) (nb_nft_id op) = Some n \<and> n_owner n = nb_owner op \<and>
       db' = push_virtual
         (db\<lparr>last_rc_charged := cost_nft_burn op,
             nfts := om_erase (nfts db) (nb_nft_id op),
             collections := collections_after_burn db (n_collection n)\<rparr>)
         ''nft_burned''
         (''{\"nft_id\":'' @ dec_u64 (nb_nft_id op) @ '',\"owner\":\"'' @ nb_owner op @ ''\"}''))"
  by (auto simp: apply_nft_burn_def Let_def attempt_Done checks_Cons_Inr throw_if_Inr
      require_hardfork_Inr require_full_nft_state_Inr nft_enabled_def collections_after_burn_def
      split: option.splits if_splits)

text \<open>A rejected NFT operation leaves the database as it was: every check precedes every write.\<close>

lemma apply_nft_create_collection_Threw:
  "apply_nft_create_collection db op = Threw e db' \<Longrightarrow> db' = db"
  by (auto simp: apply_nft_create_collection_def Let_def attempt_Threw)

lemma apply_nft_mint_Threw: "apply_nft_mint db op = Threw e db' \<Longrightarrow> db' = db"
  by (auto simp: apply_nft_mint_def Let_def attempt_Threw split: option.splits)

lemma apply_nft_transfer_Threw: "apply_nft_transfer db op = Threw e db' \<Longrightarrow> db' = db"
  by (auto simp: apply_nft_transfer_def Let_def attempt_Threw split: option.splits)

lemma apply_nft_approve_Threw: "apply_nft_approve db op = Threw e db' \<Longrightarrow> db' = db"
  by (auto simp: apply_nft_approve_def Let_def attempt_Threw split: option.splits)

lemma apply_nft_set_approval_for_all_Threw:
  "apply_nft_set_approval_for_all db op = Threw e db' \<Longrightarrow> db' = db"
  by (auto simp: apply_nft_set_approval_for_all_def Let_def attempt_Threw split: if_splits)

lemma apply_nft_burn_Threw: "apply_nft_burn db op = Threw e db' \<Longrightarrow> db' = db"
  by (auto simp: apply_nft_burn_def Let_def attempt_Threw split: option.splits)

lemmas nft_apply_Threw =
  apply_nft_create_collection_Threw apply_nft_mint_Threw apply_nft_transfer_Threw
  apply_nft_approve_Threw apply_nft_set_approval_for_all_Threw apply_nft_burn_Threw

section \<open>The invariant of the NFT tables\<close>

definition live_tokens :: "database \<Rightarrow> collection_id_type \<Rightarrow> int" where
  "live_tokens db k = om_count (\<lambda>n. n_collection n = k) (nfts db)"

definition collections_inv :: "database \<Rightarrow> bool" where
  "collections_inv db \<longleftrightarrow>
     table_ok c_id (collections db) (next_collection_id db) \<and>
     (\<forall>k c. om_find (collections db) k = Some c \<longrightarrow>
        account_exists db (c_creator c) \<and> (c_max_supply c \<noteq> 0 \<longrightarrow> c_supply c \<le> c_max_supply c))"

definition symbols_inv :: "database \<Rightarrow> bool" where
  "symbols_inv db \<longleftrightarrow>
     (\<forall>s k. om_find (collection_by_symbol db) s = Some k \<longleftrightarrow>
        (\<exists>c. om_find (collections db) k = Some c \<and> c_symbol c = s))"

definition token_ok :: "database \<Rightarrow> nft_object \<Rightarrow> bool" where
  "token_ok db n \<longleftrightarrow>
     account_exists db (n_owner n) \<and> (n_approved n = [] \<or> account_exists db (n_approved n)) \<and>
     (\<exists>c. om_find (collections db) (n_collection n) = Some c \<and>
        (n_soulbound n \<or> c_transferable c))"

definition tokens_inv :: "database \<Rightarrow> bool" where
  "tokens_inv db \<longleftrightarrow>
     table_ok n_id (nfts db) (next_nft_id db) \<and>
     (\<forall>k n. om_find (nfts db) k = Some n \<longrightarrow> token_ok db n)"

definition supply_inv :: "database \<Rightarrow> bool" where
  "supply_inv db \<longleftrightarrow>
     (\<forall>k c. om_find (collections db) k = Some c \<longrightarrow> uint (c_supply c) = live_tokens db k)"

definition operators_inv :: "database \<Rightarrow> bool" where
  "operators_inv db \<longleftrightarrow>
     (\<forall>k o'. om_find (operators db) k = Some o' \<longrightarrow>
        o_approved o' \<and> k = (o_owner o', o_operator_account o', o_collection o'))"

definition nft_inv :: "database \<Rightarrow> bool" where
  "nft_inv db \<longleftrightarrow>
     collections_inv db \<and> symbols_inv db \<and> tokens_inv db \<and> supply_inv db \<and> operators_inv db"

lemmas nft_inv_defs = nft_inv_def collections_inv_def symbols_inv_def tokens_inv_def token_ok_def
  supply_inv_def operators_inv_def live_tokens_def

text \<open>The invariant reads only the NFT tables and which accounts exist.\<close>

lemma nft_inv_frame:
  assumes "nft_inv db"
    and "collections db' = collections db" "collection_by_symbol db' = collection_by_symbol db"
    and "nfts db' = nfts db" "operators db' = operators db"
    and "next_collection_id db' = next_collection_id db" "next_nft_id db' = next_nft_id db"
    and "\<And>a. account_exists db a \<Longrightarrow> account_exists db' a"
  shows "nft_inv db'"
  using assms by (simp add: nft_inv_defs) blast

lemma nft_inv_push_virtual [simp]: "nft_inv (push_virtual db n p) \<longleftrightarrow> nft_inv db"
  by (simp add: nft_inv_defs account_exists_def)

lemma account_exists_frame [simp]:
  "account_exists (push_virtual db n p) a \<longleftrightarrow> account_exists db a"
  "account_exists (db\<lparr>last_rc_charged := x\<rparr>) a \<longleftrightarrow> account_exists db a"
  "account_exists (db\<lparr>nfts := t\<rparr>) a \<longleftrightarrow> account_exists db a"
  "account_exists (db\<lparr>collections := cs\<rparr>) a \<longleftrightarrow> account_exists db a"
  "account_exists (db\<lparr>operators := os\<rparr>) a \<longleftrightarrow> account_exists db a"
  "account_exists (db\<lparr>htlcs := hs\<rparr>) a \<longleftrightarrow> account_exists db a"
  "account_exists (db\<lparr>next_nft_id := i\<rparr>) a \<longleftrightarrow> account_exists db a"
  "account_exists (db\<lparr>next_collection_id := i\<rparr>) a \<longleftrightarrow> account_exists db a"
  "account_exists (db\<lparr>collection_by_symbol := sm\<rparr>) a \<longleftrightarrow> account_exists db a"
  by (simp_all add: account_exists_def)

lemma symbol_fresh_id:
  "nft_inv db \<Longrightarrow> om_find (collection_by_symbol db) s \<noteq> Some (next_collection_id db)"
  using table_ok_fresh [of c_id "collections db" "next_collection_id db"]
  by (auto simp: nft_inv_def collections_inv_def symbols_inv_def)

lemma no_live_tokens_fresh:
  assumes "nft_inv db"
  shows "live_tokens db (next_collection_id db) = 0"
proof -
  have "om_find (collections db) (next_collection_id db) = None"
    using assms table_ok_fresh by (auto simp: nft_inv_def collections_inv_def)
  then have "of_bool (n_collection n = next_collection_id db) = (0 :: int)"
    if "om_find (nfts db) k = Some n" for k n
    using assms that by (fastforce simp: nft_inv_def tokens_inv_def token_ok_def)
  then have "live_tokens db (next_collection_id db) = om_sum (\<lambda>_ _. 0) (nfts db)"
    unfolding live_tokens_def om_count_def by (intro om_sum_cong) blast
  then show ?thesis by (simp add: om_sum_def)
qed

lemma supply_not_max:
  assumes "nft_inv db" and "om_find (collections db) k = Some c"
  shows "c_supply c \<noteq> - 1"
proof -
  have "uint (c_supply c) \<le> int (om_size (nfts db))"
    using assms om_count_le_size [of "\<lambda>n. n_collection n = k" "nfts db"]
    by (simp add: nft_inv_def supply_inv_def live_tokens_def)
  moreover have "om_size (nfts db) < unat (next_nft_id db)"
    using assms(1) table_ok_size by (auto simp: nft_inv_def tokens_inv_def)
  moreover have "unat (next_nft_id db) \<le> unat (- 1 :: u64)"
    by (rule word_le_nat_alt [THEN iffD1]) simp
  ultimately have "uint (c_supply c) < int (unat (- 1 :: u64))"
    by linarith
  then show ?thesis by auto
qed

lemma nft_inv_create_collection:
  assumes inv: "nft_inv db" and room: "next_collection_id db \<noteq> - 1"
    and ok: "apply_nft_create_collection db op = Done db'"
  shows "nft_inv db'"
proof -
  have fresh: "om_find (collections db) (next_collection_id db) = None"
    using inv table_ok_fresh by (auto simp: nft_inv_def collections_inv_def)
  have sym: "om_find (collection_by_symbol db) s \<noteq> Some (next_collection_id db)" for s
    using inv by (rule symbol_fresh_id)
  have zero: "live_tokens db (next_collection_id db) = 0"
    using inv by (rule no_live_tokens_fresh)
  from ok have acc: "account_exists db (ncc_creator op)"
    and free: "om_find (collection_by_symbol db) (ncc_symbol op) = None"
    by (simp_all add: apply_nft_create_collection_Done)
  have unused: "c_symbol c \<noteq> ncc_symbol op" if "om_find (collections db) k = Some c" for k c
    using inv free that by (metis nft_inv_def symbols_inv_def option.distinct(1))
  from ok have "collections_inv db'"
    using inv room acc
    by (auto simp: apply_nft_create_collection_Done nft_inv_def collections_inv_def
        intro!: table_ok_alloc split: if_splits)
  moreover from ok have "symbols_inv db'"
    using inv fresh sym unused
    by (auto simp: apply_nft_create_collection_Done nft_inv_def symbols_inv_def split: if_splits)
  moreover from ok have "tokens_inv db'"
    using inv fresh
    by (fastforce simp: apply_nft_create_collection_Done nft_inv_def tokens_inv_def token_ok_def)
  moreover from ok have "supply_inv db'"
    using inv zero
    by (auto simp: apply_nft_create_collection_Done nft_inv_def supply_inv_def live_tokens_def
        split: if_splits)
  moreover from ok have "operators_inv db'"
    using inv by (simp add: apply_nft_create_collection_Done nft_inv_def operators_inv_def)
  ultimately show ?thesis by (simp add: nft_inv_def)
qed

lemma nft_inv_mint:
  assumes inv: "nft_inv db" and room: "next_nft_id db \<noteq> - 1"
    and ok: "apply_nft_mint db op = Done db'"
  shows "nft_inv db'"
proof -
  from ok obtain col where col: "om_find (collections db) (nm_collection op) = Some col"
    and acc: "account_exists db (nm_to op)"
    and cap: "c_max_supply col = 0 \<or> c_supply col < c_max_supply col"
    by (auto simp: apply_nft_mint_Done)
  have fresh: "om_find (nfts db) (next_nft_id db) = None"
    using inv table_ok_fresh by (auto simp: nft_inv_def tokens_inv_def)
  have inc: "uint (c_supply col + 1) = uint (c_supply col) + 1"
    using supply_not_max [OF inv col] by (rule uint_plus_1)
  from ok col have "collections_inv db'"
    using inv cap inc_le [of "c_supply col" "c_max_supply col"]
    by (auto simp: apply_nft_mint_Done nft_inv_def collections_inv_def
        intro!: table_ok_update split: if_splits)
  moreover from ok col have "symbols_inv db'"
    using inv by (auto simp: apply_nft_mint_Done nft_inv_def symbols_inv_def split: if_splits)
  moreover from ok col have "tokens_inv db'"
    using inv room acc
    by (fastforce simp: apply_nft_mint_Done nft_inv_def tokens_inv_def token_ok_def
        intro!: table_ok_alloc split: if_splits)
  moreover from ok col have "supply_inv db'"
    using inv fresh inc
    by (auto simp: apply_nft_mint_Done nft_inv_def supply_inv_def live_tokens_def
        om_count_put_new split: if_splits)
  moreover from ok have "operators_inv db'"
    using inv by (auto simp: apply_nft_mint_Done nft_inv_def operators_inv_def)
  ultimately show ?thesis by (simp add: nft_inv_def)
qed

text \<open>Rewriting one token in place, keeping its id, collection and lock.\<close>

lemma nft_inv_token_update:
  assumes inv: "nft_inv db" and n: "om_find (nfts db) k = Some n"
    and same: "n_id n' = n_id n" "n_collection n' = n_collection n" "n_soulbound n' = n_soulbound n"
    and accs: "account_exists db (n_owner n')"
      "n_approved n' = [] \<or> account_exists db (n_approved n')"
  shows "nft_inv (db\<lparr>last_rc_charged := r, nfts := om_put (nfts db) k n'\<rparr>)"
proof -
  have "token_ok db n"
    using inv n by (auto simp: nft_inv_def tokens_inv_def)
  then have "token_ok db n'"
    using same accs by (auto simp: token_ok_def)
  moreover have "table_ok n_id (om_put (nfts db) k n') (next_nft_id db)"
    using inv n same(1) by (auto simp: nft_inv_def tokens_inv_def intro: table_ok_update)
  ultimately have "tokens_inv (db\<lparr>last_rc_charged := r, nfts := om_put (nfts db) k n'\<rparr>)"
    using inv by (auto simp: nft_inv_def tokens_inv_def token_ok_def)
  then show ?thesis
    using inv n same(2)
    by (simp add: nft_inv_def collections_inv_def symbols_inv_def supply_inv_def operators_inv_def
        live_tokens_def om_count_put_old)
qed

lemma nft_inv_transfer:
  "nft_inv db \<Longrightarrow> apply_nft_transfer db op = Done db' \<Longrightarrow> nft_inv db'"
  by (auto simp: apply_nft_transfer_Done intro!: nft_inv_token_update)

lemma nft_inv_approve:
  assumes inv: "nft_inv db" and ok: "apply_nft_approve db op = Done db'"
  shows "nft_inv db'"
proof -
  from ok obtain n where n: "om_find (nfts db) (na_nft_id op) = Some n"
    by (auto simp: apply_nft_approve_Done)
  with inv have "account_exists db (n_owner n)"
    by (auto simp: nft_inv_def tokens_inv_def token_ok_def)
  with ok n show ?thesis
    by (auto simp: apply_nft_approve_Done intro!: nft_inv_token_update [OF inv n])
qed

lemma nft_inv_set_approval_for_all:
  "nft_inv db \<Longrightarrow> apply_nft_set_approval_for_all db op = Done db' \<Longrightarrow> nft_inv db'"
  by (auto simp: apply_nft_set_approval_for_all_Done nft_inv_defs split: if_splits)

lemma nft_inv_burn:
  assumes inv: "nft_inv db" and ok: "apply_nft_burn db op = Done db'"
  shows "nft_inv db'"
proof -
  from ok obtain n where n: "om_find (nfts db) (nb_nft_id op) = Some n"
    and db': "db' = push_virtual
      (db\<lparr>last_rc_charged := cost_nft_burn op, nfts := om_erase (nfts db) (nb_nft_id op),
          collections := collections_after_burn db (n_collection n)\<rparr>)
      ''nft_burned''
      (''{\"nft_id\":'' @ dec_u64 (nb_nft_id op) @ '',\"owner\":\"'' @ nb_owner op @ ''\"}'')"
    by (auto simp: apply_nft_burn_Done)
  from inv n obtain c where c: "om_find (collections db) (n_collection n) = Some c"
    by (auto simp: nft_inv_def tokens_inv_def token_ok_def)
  have "0 < live_tokens db (n_collection n)"
    unfolding live_tokens_def using n by (rule om_count_pos) simp
  then have "0 < uint (c_supply c)"
    using inv c by (simp add: nft_inv_def supply_inv_def)
  then have pos: "c_supply c \<noteq> 0" by auto
  then have dec: "uint (c_supply c - 1) = uint (c_supply c) - 1"
    by (rule uint_minus_1)
  have after: "collections_after_burn db (n_collection n) =
      om_put (collections db) (n_collection n) (c\<lparr>c_supply := c_supply c - 1\<rparr>)"
    using c pos by (simp add: collections_after_burn_def word_gt_0)
  have "c_supply c - 1 \<le> c_supply c"
    using dec by (simp add: word_le_def)
  then have "collections_inv db'"
    using inv c
    by (auto simp: db' after nft_inv_def collections_inv_def intro!: table_ok_update
        intro: order_trans split: if_splits)
  moreover have "symbols_inv db'"
    using inv c by (auto simp: db' after nft_inv_def symbols_inv_def split: if_splits)
  moreover have "tokens_inv db'"
    using inv c
    by (fastforce simp: db' after nft_inv_def tokens_inv_def token_ok_def
        intro!: table_ok_erase split: if_splits)
  moreover have "supply_inv db'"
    using inv c n dec
    by (auto simp: db' after nft_inv_def supply_inv_def live_tokens_def om_count_erase
        split: if_splits)
  moreover have "operators_inv db'"
    using inv by (auto simp: db' nft_inv_def operators_inv_def)
  ultimately show ?thesis by (simp add: nft_inv_def)
qed

section \<open>The overload set\<close>

text \<open>
  The six \<open>apply\<close> overloads as one function, and the account whose active authority each
  operation requires (\<open>get_required_active_authorities\<close>).
\<close>

datatype nft_operation =
    Nft_create_collection nft_create_collection_operation
  | Nft_mint nft_mint_operation
  | Nft_transfer nft_transfer_operation
  | Nft_approve nft_approve_operation
  | Nft_set_approval_for_all nft_set_approval_for_all_operation
  | Nft_burn nft_burn_operation

fun apply_nft :: "database \<Rightarrow> nft_operation \<Rightarrow> database outcome" where
  "apply_nft db (Nft_create_collection op) = apply_nft_create_collection db op"
| "apply_nft db (Nft_mint op) = apply_nft_mint db op"
| "apply_nft db (Nft_transfer op) = apply_nft_transfer db op"
| "apply_nft db (Nft_approve op) = apply_nft_approve db op"
| "apply_nft db (Nft_set_approval_for_all op) = apply_nft_set_approval_for_all db op"
| "apply_nft db (Nft_burn op) = apply_nft_burn db op"

fun nft_required_authorities :: "nft_operation \<Rightarrow> account_name_type list" where
  "nft_required_authorities (Nft_create_collection op) = [ncc_creator op]"
| "nft_required_authorities (Nft_mint op) = [nm_creator op]"
| "nft_required_authorities (Nft_transfer op) = [nt_from op]"
| "nft_required_authorities (Nft_approve op) = [na_owner op]"
| "nft_required_authorities (Nft_set_approval_for_all op) = [ns_owner op]"
| "nft_required_authorities (Nft_burn op) = [nb_owner op]"

definition nft_ids_left :: "database \<Rightarrow> bool" where
  "nft_ids_left db \<longleftrightarrow> next_collection_id db \<noteq> - 1 \<and> next_nft_id db \<noteq> - 1"

lemma apply_nft_Threw_same: "apply_nft db op = Threw e db' \<Longrightarrow> db' = db"
  by (cases op) (auto dest: nft_apply_Threw)

lemma apply_nft_protocol_outcome: "protocol_outcome (apply_nft db op)"
  by (cases op)
    (auto simp: apply_nft_create_collection_def apply_nft_mint_def apply_nft_transfer_def
      apply_nft_approve_def apply_nft_set_approval_for_all_def apply_nft_burn_def Let_def
      intro!: protocol_intros)

lemma nft_inv_apply_nft:
  "nft_inv db \<Longrightarrow> nft_ids_left db \<Longrightarrow> apply_nft db op = Done db' \<Longrightarrow> nft_inv db'"
  by (cases op) (auto simp: nft_ids_left_def dest: nft_inv_create_collection nft_inv_mint
      nft_inv_transfer nft_inv_approve nft_inv_set_approval_for_all nft_inv_burn)

lemma nft_inv_empty: "nft_inv empty_database"
  by (simp add: nft_inv_defs empty_database_def table_ok_empty)

section \<open>The token ledger\<close>

record nft_ledger =
  owner_of :: "nft_id_type \<Rightarrow> account_name_type option"
  approved_of :: "nft_id_type \<Rightarrow> account_name_type option"
  collection_of :: "nft_id_type \<Rightarrow> collection_id_type option"
  locked :: "nft_id_type \<Rightarrow> bool"
  operator_for :: "(account_name_type \<times> account_name_type \<times> collection_id_type) set"
  creator_of :: "collection_id_type \<Rightarrow> account_name_type option"

definition creators :: "database \<Rightarrow> collection_id_type \<Rightarrow> account_name_type option" where
  "creators db i = map_option c_creator (om_find (collections db) i)"

definition ledger_of :: "database \<Rightarrow> nft_ledger" where
  "ledger_of db =
     \<lparr>owner_of = (\<lambda>i. map_option n_owner (om_find (nfts db) i)),
      approved_of = (\<lambda>i. case om_find (nfts db) i of
          None \<Rightarrow> None | Some n \<Rightarrow> if n_approved n = [] then None else Some (n_approved n)),
      collection_of = (\<lambda>i. map_option n_collection (om_find (nfts db) i)),
      locked = (\<lambda>i. case om_find (nfts db) i of None \<Rightarrow> False | Some n \<Rightarrow> n_soulbound n),
      operator_for = {k. \<exists>o'. om_find (operators db) k = Some o' \<and> o_approved o'},
      creator_of = creators db\<rparr>"

definition may_move :: "nft_ledger \<Rightarrow> account_name_type \<Rightarrow> nft_id_type \<Rightarrow> bool" where
  "may_move L a i \<longleftrightarrow>
     (\<exists>p c. owner_of L i = Some p \<and> collection_of L i = Some c \<and> \<not> locked L i \<and>
        (a = p \<or> approved_of L i = Some a \<or> (p, a, c) \<in> operator_for L \<or> (p, a, 0) \<in> operator_for L))"

text \<open>One rule per kind of ledger change. A step has the acting account and the action, which says
  what is changed and how; \<open>nft_action\<close> is the action an operation stands for.\<close>

datatype ledger_action =
    Found collection_id_type
  | Mint_token nft_id_type collection_id_type account_name_type bool
  | Move_token nft_id_type account_name_type
  | Approve_for nft_id_type "account_name_type option"
  | Grant_all account_name_type collection_id_type
  | Revoke_all account_name_type collection_id_type
  | Burn_token nft_id_type

inductive ledger_step :: "nft_ledger \<Rightarrow> account_name_type \<Rightarrow> ledger_action \<Rightarrow> nft_ledger \<Rightarrow> bool" where
  ledger_found: "creator_of L c = None \<Longrightarrow>
    ledger_step L a (Found c) (L\<lparr>creator_of := (creator_of L)(c \<mapsto> a)\<rparr>)"
| ledger_mint: "owner_of L i = None \<Longrightarrow> creator_of L c = Some a \<Longrightarrow>
    ledger_step L a (Mint_token i c q l)
      (L\<lparr>owner_of := (owner_of L)(i \<mapsto> q), approved_of := (approved_of L)(i := None),
         collection_of := (collection_of L)(i \<mapsto> c), locked := (locked L)(i := l)\<rparr>)"
| ledger_transfer: "may_move L a i \<Longrightarrow>
    ledger_step L a (Move_token i q)
      (L\<lparr>owner_of := (owner_of L)(i \<mapsto> q), approved_of := (approved_of L)(i := None)\<rparr>)"
| ledger_approve: "owner_of L i = Some a \<Longrightarrow>
    ledger_step L a (Approve_for i q) (L\<lparr>approved_of := (approved_of L)(i := q)\<rparr>)"
| ledger_grant: "ledger_step L a (Grant_all q c) (L\<lparr>operator_for := insert (a, q, c) (operator_for L)\<rparr>)"
| ledger_revoke: "ledger_step L a (Revoke_all q c) (L\<lparr>operator_for := operator_for L - {(a, q, c)}\<rparr>)"
| ledger_burn: "owner_of L i = Some a \<Longrightarrow>
    ledger_step L a (Burn_token i)
      (L\<lparr>owner_of := (owner_of L)(i := None), approved_of := (approved_of L)(i := None),
         collection_of := (collection_of L)(i := None), locked := (locked L)(i := False)\<rparr>)"

fun nft_action :: "database \<Rightarrow> nft_operation \<Rightarrow> ledger_action" where
  "nft_action db (Nft_create_collection op) = Found (next_collection_id db)"
| "nft_action db (Nft_mint op) =
     Mint_token (next_nft_id db) (nm_collection op) (nm_to op)
       (nm_soulbound op \<or> (\<exists>c. om_find (collections db) (nm_collection op) = Some c \<and> \<not> c_transferable c))"
| "nft_action db (Nft_transfer op) = Move_token (nt_nft_id op) (nt_to op)"
| "nft_action db (Nft_approve op) =
     Approve_for (na_nft_id op) (if na_approved op = [] then None else Some (na_approved op))"
| "nft_action db (Nft_set_approval_for_all op) =
     (if ns_approved op then Grant_all else Revoke_all) (ns_operator_account op) (ns_collection op)"
| "nft_action db (Nft_burn op) = Burn_token (nb_nft_id op)"

lemma ledger_of_push_virtual [simp]: "ledger_of (push_virtual db n p) = ledger_of db"
  by (simp add: ledger_of_def creators_def fun_eq_iff)

lemma ledger_of_rc [simp]: "ledger_of (db\<lparr>last_rc_charged := x\<rparr>) = ledger_of db"
  by (simp add: ledger_of_def creators_def fun_eq_iff)

lemma ledger_of_put:
  "nfts db' = om_put (nfts db) i n \<Longrightarrow> operators db' = operators db \<Longrightarrow> creators db' = creators db \<Longrightarrow>
     ledger_of db' = (ledger_of db)\<lparr>
       owner_of := (owner_of (ledger_of db))(i \<mapsto> n_owner n),
       approved_of := (approved_of (ledger_of db))
         (i := if n_approved n = [] then None else Some (n_approved n)),
       collection_of := (collection_of (ledger_of db))(i \<mapsto> n_collection n),
       locked := (locked (ledger_of db))(i := n_soulbound n)\<rparr>"
  by (auto simp: ledger_of_def fun_eq_iff)

lemma ledger_of_erase:
  "nfts db' = om_erase (nfts db) i \<Longrightarrow> operators db' = operators db \<Longrightarrow> creators db' = creators db \<Longrightarrow>
     ledger_of db' = (ledger_of db)\<lparr>
       owner_of := (owner_of (ledger_of db))(i := None),
       approved_of := (approved_of (ledger_of db))(i := None),
       collection_of := (collection_of (ledger_of db))(i := None),
       locked := (locked (ledger_of db))(i := False)\<rparr>"
  by (auto simp: ledger_of_def fun_eq_iff)

lemma ledger_token:
  "om_find (nfts db) i = Some n \<Longrightarrow>
     owner_of (ledger_of db) i = Some (n_owner n) \<and>
     collection_of (ledger_of db) i = Some (n_collection n) \<and>
     locked (ledger_of db) i = n_soulbound n \<and>
     approved_of (ledger_of db) i = (if n_approved n = [] then None else Some (n_approved n))"
  by (simp add: ledger_of_def)

lemma is_operator_approved_ledger:
  "is_operator_approved db p a c \<longleftrightarrow>
     (p, a, c) \<in> operator_for (ledger_of db) \<or> (p, a, 0) \<in> operator_for (ledger_of db)"
  by (auto simp: is_operator_approved_def ledger_of_def split: option.splits)

lemma mint_refines:
  assumes "nft_inv db" and "apply_nft_mint db op = Done db'"
  shows "ledger_step (ledger_of db) (nm_creator op) (nft_action db (Nft_mint op)) (ledger_of db')"
proof -
  have "om_find (nfts db) (next_nft_id db) = None"
    using assms(1) table_ok_fresh by (auto simp: nft_inv_def tokens_inv_def)
  then have none: "owner_of (ledger_of db) (next_nft_id db) = None"
    by (simp add: ledger_of_def)
  from assms(2) obtain n where put: "nfts db' = om_put (nfts db) (next_nft_id db) n"
    and ops: "operators db' = operators db" and clear: "n_approved n = []"
    and col: "creator_of (ledger_of db) (nm_collection op) = Some (nm_creator op)"
    and token: "n_collection n = nm_collection op" "n_owner n = nm_to op" "n_soulbound n \<longleftrightarrow>
      nm_soulbound op \<or> (\<exists>c. om_find (collections db) (nm_collection op) = Some c \<and> \<not> c_transferable c)"
    and cre: "creators db' = creators db"
    by (auto simp: apply_nft_mint_Done ledger_of_def creators_def fun_eq_iff)
  show ?thesis
    by (simp only: ledger_of_put [OF put ops cre] clear token refl if_True nft_action.simps)
      (rule ledger_mint [OF none col])
qed

lemma transfer_refines:
  assumes "apply_nft_transfer db op = Done db'"
  shows "ledger_step (ledger_of db) (nt_from op) (nft_action db (Nft_transfer op)) (ledger_of db')"
proof -
  from assms obtain n where n: "om_find (nfts db) (nt_nft_id op) = Some n"
    and name: "account_name_ok (nt_from op)" and free: "\<not> n_soulbound n"
    and auth: "n_owner n = nt_from op \<or> n_approved n = nt_from op \<or>
      is_operator_approved db (n_owner n) (nt_from op) (n_collection n)"
    and put: "nfts db' = om_put (nfts db) (nt_nft_id op) (n\<lparr>n_owner := nt_to op, n_approved := []\<rparr>)"
    and ops: "operators db' = operators db" and cre: "creators db' = creators db"
    by (auto simp: apply_nft_transfer_Done outcome_simps creators_def fun_eq_iff)
  have move: "may_move (ledger_of db) (nt_from op) (nt_nft_id op)"
    using ledger_token [OF n] auth free account_name_ok_nonempty [OF name]
    by (auto simp: may_move_def is_operator_approved_ledger)
  have "ledger_of db' = (ledger_of db)\<lparr>
      owner_of := (owner_of (ledger_of db))(nt_nft_id op \<mapsto> nt_to op),
      approved_of := (approved_of (ledger_of db))(nt_nft_id op := None)\<rparr>"
    using ledger_of_put [OF put ops cre] n by (auto simp: ledger_of_def fun_eq_iff)
  with ledger_transfer [OF move] show ?thesis by simp
qed

lemma approve_refines:
  assumes "apply_nft_approve db op = Done db'"
  shows "ledger_step (ledger_of db) (na_owner op) (nft_action db (Nft_approve op)) (ledger_of db')"
proof -
  from assms obtain n where n: "om_find (nfts db) (na_nft_id op) = Some n"
    and own: "n_owner n = na_owner op"
    and put: "nfts db' = om_put (nfts db) (na_nft_id op) (n\<lparr>n_approved := na_approved op\<rparr>)"
    and ops: "operators db' = operators db" and cre: "creators db' = creators db"
    by (auto simp: apply_nft_approve_Done creators_def fun_eq_iff)
  have "ledger_of db' = (ledger_of db)\<lparr>approved_of := (approved_of (ledger_of db))
      (na_nft_id op := if na_approved op = [] then None else Some (na_approved op))\<rparr>"
    using ledger_of_put [OF put ops cre] n by (auto simp: ledger_of_def fun_eq_iff)
  then show ?thesis
    using ledger_approve [of "ledger_of db" "na_nft_id op" "na_owner op"] ledger_token [OF n] own
    by simp
qed

lemma set_approval_refines:
  assumes "apply_nft_set_approval_for_all db op = Done db'"
  shows "ledger_step (ledger_of db) (ns_owner op) (nft_action db (Nft_set_approval_for_all op)) (ledger_of db')"
proof -
  let ?k = "(ns_owner op, ns_operator_account op, ns_collection op)"
  have "ledger_of db' = (ledger_of db)\<lparr>operator_for :=
      (if ns_approved op then insert ?k (operator_for (ledger_of db))
       else operator_for (ledger_of db) - {?k})\<rparr>"
    using assms
    by (auto simp: apply_nft_set_approval_for_all_Done ledger_of_def creators_def fun_eq_iff
        split: if_splits)
  then show ?thesis
    by (cases "ns_approved op") (simp_all add: ledger_grant ledger_revoke)
qed

lemma creators_after_burn:
  "om_find (collections_after_burn db c) i = Some x \<Longrightarrow>
     \<exists>y. om_find (collections db) i = Some y \<and> c_creator y = c_creator x"
  "om_find (collections_after_burn db c) i = None \<longleftrightarrow> om_find (collections db) i = None"
  by (auto simp: collections_after_burn_def split: option.splits if_splits)

lemma burn_refines:
  assumes "apply_nft_burn db op = Done db'"
  shows "ledger_step (ledger_of db) (nb_owner op) (nft_action db (Nft_burn op)) (ledger_of db')"
proof -
  from assms obtain n where n: "om_find (nfts db) (nb_nft_id op) = Some n"
    and own: "n_owner n = nb_owner op"
    and erase: "nfts db' = om_erase (nfts db) (nb_nft_id op)"
    and ops: "operators db' = operators db"
    and col: "collections db' = collections_after_burn db (n_collection n)"
    by (auto simp: apply_nft_burn_Done)
  have "creators db' i = creators db i" for i
    by (cases "om_find (collections db') i")
      (auto simp: creators_def col creators_after_burn(2) dest: creators_after_burn(1))
  then have cre: "creators db' = creators db" by (simp add: fun_eq_iff)
  show ?thesis
    using ledger_token [OF n] own
    by (simp add: ledger_of_erase [OF erase ops cre] ledger_burn)
qed

lemma create_collection_refines:
  assumes "nft_inv db" and "apply_nft_create_collection db op = Done db'"
  shows "ledger_step (ledger_of db) (ncc_creator op) (nft_action db (Nft_create_collection op)) (ledger_of db')"
proof -
  have "om_find (collections db) (next_collection_id db) = None"
    using assms(1) table_ok_fresh by (auto simp: nft_inv_def collections_inv_def)
  then have none: "creator_of (ledger_of db) (next_collection_id db) = None"
    by (simp add: ledger_of_def creators_def)
  have "ledger_of db' = (ledger_of db)\<lparr>creator_of :=
      (creator_of (ledger_of db))(next_collection_id db \<mapsto> ncc_creator op)\<rparr>"
    using assms(2)
    by (auto simp: apply_nft_create_collection_Done ledger_of_def creators_def fun_eq_iff)
  then show ?thesis by (simp add: ledger_found [OF none])
qed

lemma apply_nft_refines:
  "nft_inv db \<Longrightarrow> apply_nft db op = Done db' \<Longrightarrow> a \<in> set (nft_required_authorities op) \<Longrightarrow>
     ledger_step (ledger_of db) a (nft_action db op) (ledger_of db')"
  by (cases op) (auto dest: create_collection_refines mint_refines transfer_refines approve_refines set_approval_refines burn_refines)

lemma ledger_step_new_token:
  assumes "ledger_step L a act L'" and "owner_of L i = None" and "owner_of L' i \<noteq> None"
  shows "\<exists>c. collection_of L' i = Some c \<and> creator_of L' c = Some a"
  using assms by (induction rule: ledger_step.induct) (auto simp: may_move_def split: if_splits)

lemma ledger_step_owner_change:
  assumes "ledger_step L a act L'" and "owner_of L i = Some p" and "owner_of L' i \<noteq> Some p"
  shows "a = p \<or> may_move L a i"
  using assms by (induction rule: ledger_step.induct) (auto split: if_splits)

section \<open>A concrete token\<close>

definition demo_collection :: nft_collection_object where
  "demo_collection =
     \<lparr>c_id = 1, c_creator = ''alice'', c_symbol = ''ART'', c_name = ''Art'', c_max_supply = 0,
      c_supply = 1, c_transferable = True, c_created = 1700000000\<rparr>"

definition demo_token :: nft_object where
  "demo_token =
     \<lparr>n_id = 1, n_collection = 1, n_token_serial = 1, n_owner = ''bob'', n_approved = ''op'',
      n_metadata_hash = [], n_uri = ''ipfs'', n_soulbound = False, n_minted = 1700000000\<rparr>"

definition demo_nft_db :: database where
  "demo_nft_db = demo_db
     \<lparr>next_collection_id := 2, next_nft_id := 2,
      collections := om_put om_empty 1 demo_collection,
      collection_by_symbol := om_put om_empty ''ART'' 1,
      nfts := om_put om_empty 1 demo_token\<rparr>"

lemmas demo_nft_simps = demo_nft_db_def demo_collection_def demo_token_def demo_simps

lemma nft_inv_demo: "nft_inv demo_nft_db"
  by (auto simp: nft_inv_defs demo_nft_simps table_ok_def om_count_put_new
      split: if_splits)

lemma nft_enabled_demo: "nft_enabled demo_nft_db"
  by (simp add: nft_enabled_def demo_nft_simps)

definition demo_transfer :: nft_operation where
  "demo_transfer = Nft_transfer
     \<lparr>nt_from = ''op'', nt_to = ''carol'', nt_nft_id = 1, nt_memo = []\<rparr>"

lemma demo_transfer_Done:
  "\<exists>db'. apply_nft demo_nft_db demo_transfer = Done db' \<and>
     owner_of (ledger_of db') 1 = Some ''carol''"
  by (simp add: demo_transfer_def apply_nft_transfer_Done nft_enabled_demo outcome_simps)
    (simp add: demo_nft_simps ledger_of_def)

lemma demo_owner: "owner_of (ledger_of demo_nft_db) 1 = Some ''bob''"
  by (simp add: demo_nft_simps ledger_of_def)

lemma demo_ids_left: "nft_ids_left demo_nft_db"
  by (simp add: nft_ids_left_def demo_nft_simps)

text \<open>A token leaves its owner (to another account, or by being burned) only through an
  operation that requires the authority of the owner or of an account entitled to move it.\<close>

lemma nft_owner_change_is_authorised:
  assumes "nft_inv db" and "apply_nft db op = Done db'"
    and "owner_of (ledger_of db) i = Some p" and "owner_of (ledger_of db') i \<noteq> Some p"
  shows "\<exists>a \<in> set (nft_required_authorities op). a = p \<or> may_move (ledger_of db) a i"
  using ledger_step_owner_change [OF apply_nft_refines [OF assms(1,2)] assms(3,4)]
  by (cases op) auto

definition demo_mint :: nft_operation where
  "demo_mint = Nft_mint
     \<lparr>nm_creator = ''alice'', nm_collection = 1, nm_to = ''bob'', nm_metadata_hash = [],
      nm_uri = [], nm_soulbound = False\<rparr>"

definition demo_burn :: nft_operation where
  "demo_burn = Nft_burn \<lparr>nb_owner = ''bob'', nb_nft_id = 1\<rparr>"

text \<open>Token serials are not unique within a collection. \<open>token_serial\<close> is
  \<open>supply + 1\<close> and a burn decrements \<open>supply\<close>, so mint, mint, burn of the first, mint gives
  two live tokens of one collection with the same serial.\<close>

lemma token_serials_collide_after_burn:
  "\<exists>db1 db2 db3 t u.
     apply_nft demo_nft_db demo_mint = Done db1 \<and> apply_nft db1 demo_burn = Done db2 \<and>
     apply_nft db2 demo_mint = Done db3 \<and>
     om_find (nfts db3) 2 = Some t \<and> om_find (nfts db3) 3 = Some u \<and>
     n_collection t = n_collection u \<and> n_token_serial t = n_token_serial u"
  by (simp add: demo_mint_def demo_burn_def apply_nft_mint_Done apply_nft_burn_Done
      nft_enabled_def outcome_simps demo_nft_simps collections_after_burn_def)

section \<open>Properties\<close>

text \<open>C17: every NFT operation keeps the invariant of the NFT tables, as long as the two 64-bit
  id counters have not reached their last value, and a rejected operation leaves the whole
  database as it was: no charge, no id consumed, no virtual operation. The invariant includes:
  ids are unique and below the counter, the symbol index and the collections agree, every token
  belongs to an existing collection and an existing account, each collection's \<open>supply\<close> is the
  number of its live tokens and respects \<open>max_supply\<close>.\<close>

theorem nft_operations_keep_invariant:
  assumes "nft_inv db" and "nft_ids_left db"
  shows "case apply_nft db op of Done db' \<Rightarrow> nft_inv db' | Threw e db' \<Rightarrow> db' = db"
  using assms apply_nft_Threw_same [of db op] nft_inv_apply_nft [of db op]
  by (cases "apply_nft db op") auto

theorem nft_operations_keep_invariant_witness:
  "(\<exists>db'. apply_nft demo_nft_db demo_transfer = Done db' \<and> nft_inv db') \<and>
   apply_nft demo_nft_db (Nft_burn \<lparr>nb_owner = ''carol'', nb_nft_id = 1\<rparr>) =
     Threw (Protocol_error ''not owner'') demo_nft_db"
proof
  from demo_transfer_Done nft_operations_keep_invariant [OF nft_inv_demo demo_ids_left, of demo_transfer]
  show "\<exists>db'. apply_nft demo_nft_db demo_transfer = Done db' \<and> nft_inv db'" by auto
next
  obtain db' where *: "apply_nft demo_nft_db (Nft_burn \<lparr>nb_owner = ''carol'', nb_nft_id = 1\<rparr>) =
      Threw (Protocol_error ''not owner'') db'"
    by (simp add: apply_nft_burn_def demo_nft_simps require_hardfork_def
        require_full_nft_state_def validate_nft_burn_def)
  with nft_operations_keep_invariant [OF nft_inv_demo demo_ids_left,
      of "Nft_burn \<lparr>nb_owner = ''carol'', nb_nft_id = 1\<rparr>"]
  show "apply_nft demo_nft_db (Nft_burn \<lparr>nb_owner = ''carol'', nb_nft_id = 1\<rparr>) =
     Threw (Protocol_error ''not owner'') demo_nft_db" by simp
qed

text \<open>C16: refinement. Every applied NFT operation is one step of the abstract token ledger
  taken by the account whose active authority the operation requires, and it is the action the
  operation names, on that token or collection and for that recipient, approved account or
  operator, with no other change of owners, approvals, collections or operators. So only a collection's
  creator mints into it, only the owner, the token's approved account or an operator of the
  owner moves a token and never a soulbound one, only the owner approves or burns, and
  an account grants and revokes operators only for itself.\<close>

theorem nft_operations_refine_ledger:
  assumes "nft_inv db" and "apply_nft db op = Done db'"
  shows "ledger_step (ledger_of db) (hd (nft_required_authorities op)) (nft_action db op) (ledger_of db')"
  using apply_nft_refines [OF assms] by (cases op) auto

theorem nft_operations_refine_ledger_witness:
  "\<exists>db'. apply_nft demo_nft_db demo_transfer = Done db' \<and>
     ledger_step (ledger_of demo_nft_db) ''op'' (Move_token 1 ''carol'') (ledger_of db')"
  using demo_transfer_Done nft_operations_refine_ledger [OF nft_inv_demo, of demo_transfer]
  by (auto simp: demo_transfer_def)

end
