(* ===== verification/Htlc.thy ===== *)
theory Htlc
  imports Nft
begin

text \<open>
  \<open>src/chain/evaluators_htlc.cpp\<close>: hash time-locked contracts. Creating one debits the
  sender, redeeming credits the receiver against the preimage before the expiration,
  refunding credits the sender from the expiration on.

  \<open>last_rc_charged\<close> is written before \<open>adjust_balance\<close> runs, so a create that fails for
  lack of funds leaves the charge behind; the model keeps that order. The invariants are
  \<open>htlc_inv\<close> (the table) and \<open>funds_inv\<close> (balances and the supply); \<open>escrow\<close> is the
  abstract specification the evaluators refine.
\<close>

section \<open>Evaluators\<close>

definition apply_htlc_create :: "database \<Rightarrow> htlc_create_operation \<Rightarrow> database outcome" where
  "apply_htlc_create db op =
     attempt db (checks [
         require_hardfork db HIVE_HARDFORK_HTLC,
         require_full_htlc_state db,
         validate_htlc_create op (head_time db),
         throw_if (\<not> account_exists db (hc_from op) \<or> \<not> account_exists db (hc_to op))
           ''account missing'',
         throw_if (open_htlc_count db (hc_from op) \<ge> HTLC_MAX_OPEN_PER_ACCOUNT)
           ''too many open htlcs'']) (\<lambda>_.
     let db = db\<lparr>last_rc_charged := cost_htlc_create op\<rparr> in
     attempt db (i64_neg (amount (hc_amount op))) (\<lambda>minus_amount.
     and_then (adjust_balance db (hc_from op)
         \<lparr>amount = minus_amount, symbol = symbol (hc_amount op)\<rparr>) (\<lambda>db.
       let h = \<lparr>h_id = next_htlc_id db, h_from = hc_from op, h_to = hc_to op,
                h_amount = hc_amount op, h_preimage_hash = hc_preimage_hash op,
                h_preimage_size = hc_preimage_size op, h_expiration = hc_expiration op,
                h_created = head_time db, h_memo = hc_memo op, h_status = Open\<rparr>;
           db = db\<lparr>next_htlc_id := next_htlc_id db + 1\<rparr>;
           db = db\<lparr>htlcs := om_put (htlcs db) (h_id h) h\<rparr>
       in Done (push_virtual db ''htlc_created''
            (''{\"htlc_id\":'' @ dec_u64 (h_id h) @ '',\"from\":\"'' @ h_from h @ ''\",\"to\":\"''
              @ h_to h @ ''\"}'')))))"

definition apply_htlc_redeem :: "database \<Rightarrow> htlc_redeem_operation \<Rightarrow> database outcome" where
  "apply_htlc_redeem db op =
     attempt db (checks [
         require_hardfork db HIVE_HARDFORK_HTLC,
         require_full_htlc_state db,
         validate_htlc_redeem op]) (\<lambda>_.
     case om_find (htlcs db) (hr_htlc_id op) of
       None \<Rightarrow> Threw (Protocol_error ''unknown htlc'') db
     | Some h \<Rightarrow>
     attempt db (checks [
         throw_if (h_status h \<noteq> Open) ''htlc not open'',
         throw_if (h_to h \<noteq> hr_to op) ''redeem requires to authority'',
         throw_if (head_time db \<ge> h_expiration h) ''htlc expired'',
         throw_if (length (hr_preimage op) \<noteq> unat (h_preimage_size h)) ''preimage size mismatch'',
         throw_if (\<not> constant_time_equal
             (digest_bytes (digest_of (algo (h_preimage_hash h)) (hr_preimage op)))
             (digest_bytes (h_preimage_hash h)))
           ''preimage hash mismatch'']) (\<lambda>_.
     let db = db\<lparr>last_rc_charged := cost_htlc_redeem op\<rparr> in
     and_then (adjust_balance db (h_to h) (h_amount h)) (\<lambda>db.
       let h = h\<lparr>h_status := Redeemed\<rparr>;
           db = db\<lparr>htlcs := om_put (htlcs db) (hr_htlc_id op) h\<rparr>
       in Done (push_virtual db ''htlc_redeemed''
            (''{\"htlc_id\":'' @ dec_u64 (h_id h) @ '',\"to\":\"'' @ h_to h @ ''\"}'')))))"

definition apply_htlc_refund :: "database \<Rightarrow> htlc_refund_operation \<Rightarrow> database outcome" where
  "apply_htlc_refund db op =
     attempt db (checks [
         require_hardfork db HIVE_HARDFORK_HTLC,
         require_full_htlc_state db,
         validate_htlc_refund op]) (\<lambda>_.
     case om_find (htlcs db) (hf_htlc_id op) of
       None \<Rightarrow> Threw (Protocol_error ''unknown htlc'') db
     | Some h \<Rightarrow>
     attempt db (checks [
         throw_if (h_status h \<noteq> Open) ''htlc not open'',
         throw_if (h_from h \<noteq> hf_from op) ''refund requires from authority'',
         throw_if (head_time db < h_expiration h) ''htlc not yet expired'']) (\<lambda>_.
     let db = db\<lparr>last_rc_charged := cost_htlc_refund op\<rparr> in
     and_then (adjust_balance db (h_from h) (h_amount h)) (\<lambda>db.
       let h = h\<lparr>h_status := Refunded\<rparr>;
           db = db\<lparr>htlcs := om_put (htlcs db) (hf_htlc_id op) h\<rparr>
       in Done (push_virtual db ''htlc_refunded''
            (''{\"htlc_id\":'' @ dec_u64 (h_id h) @ '',\"from\":\"'' @ h_from h @ ''\"}'')))))"

datatype htlc_operation =
    Htlc_create htlc_create_operation
  | Htlc_redeem htlc_redeem_operation
  | Htlc_refund htlc_refund_operation

fun apply_htlc :: "database \<Rightarrow> htlc_operation \<Rightarrow> database outcome" where
  "apply_htlc db (Htlc_create op) = apply_htlc_create db op"
| "apply_htlc db (Htlc_redeem op) = apply_htlc_redeem db op"
| "apply_htlc db (Htlc_refund op) = apply_htlc_refund db op"

fun htlc_required_authorities :: "htlc_operation \<Rightarrow> account_name_type list" where
  "htlc_required_authorities (Htlc_create op) = [hc_from op]"
| "htlc_required_authorities (Htlc_redeem op) = [hr_to op]"
| "htlc_required_authorities (Htlc_refund op) = [hf_from op]"

section \<open>Success conditions\<close>

definition htlc_enabled :: "database \<Rightarrow> bool" where
  "htlc_enabled db \<longleftrightarrow> HIVE_HARDFORK_HTLC \<le> hardfork (config db) \<and> \<not> htlc_skip_state (config db)"

definition open_htlcs :: "database \<Rightarrow> account_name_type \<Rightarrow> int" where
  "open_htlcs db acc = om_count (\<lambda>h. h_from h = acc \<and> h_status h = Open) (htlcs db)"

definition htlc_of_create :: "database \<Rightarrow> htlc_create_operation \<Rightarrow> htlc_object" where
  "htlc_of_create db op =
     \<lparr>h_id = next_htlc_id db, h_from = hc_from op, h_to = hc_to op,
      h_amount = hc_amount op, h_preimage_hash = hc_preimage_hash op,
      h_preimage_size = hc_preimage_size op, h_expiration = hc_expiration op,
      h_created = head_time db, h_memo = hc_memo op, h_status = Open\<rparr>"

text \<open>The effect of crediting or debiting followed by a table update, on the fields the
  invariants read.\<close>

definition moved :: "database \<Rightarrow> account_name_type \<Rightarrow> asset_symbol \<Rightarrow> int \<Rightarrow> database \<Rightarrow> bool" where
  "moved db acc sy d db' \<longleftrightarrow>
     (\<forall>s a. bal db' s a = bal db s a + (if a = acc \<and> s = sy then d else 0)) \<and>
     (\<forall>s. total_liquid s db' = total_liquid s db + (if s = sy then d else 0)) \<and>
     (\<forall>a. account_exists db' a \<longleftrightarrow> account_exists db a)"

text \<open>The tables the HTLC evaluators never touch.\<close>

definition same_elsewhere :: "database \<Rightarrow> database \<Rightarrow> bool" where
  "same_elsewhere db db' \<longleftrightarrow>
     head_time db' = head_time db \<and> config db' = config db \<and>
     collections db' = collections db \<and> collection_by_symbol db' = collection_by_symbol db \<and>
     nfts db' = nfts db \<and> operators db' = operators db \<and>
     contracts db' = contracts db \<and> contract_storage db' = contract_storage db \<and>
     next_collection_id db' = next_collection_id db \<and> next_nft_id db' = next_nft_id db \<and>
     next_contract_id db' = next_contract_id db"

lemma adjust_balance_moved:
  assumes "adjust_balance db name delta = Done db'"
  shows "moved db name (symbol delta) (sint (amount delta)) db'"
    and "same_elsewhere db db'"
    and "htlcs db' = htlcs db" "next_htlc_id db' = next_htlc_id db"
  using bal_adjust_balance [OF assms] total_liquid_adjust_balance [OF assms] assms
  by (auto simp: moved_def same_elsewhere_def account_exists_def elim!: adjust_balance_Done
      split: if_splits)

lemma moved_cong:
  "moved db a sy d db' \<Longrightarrow> balances db1 = balances db \<Longrightarrow> balances db2 = balances db' \<Longrightarrow>
     moved db1 a sy d db2"
  by (simp add: moved_def bal_def total_liquid_def account_exists_def)

lemma same_elsewhere_rc [simp]:
  "same_elsewhere (db\<lparr>last_rc_charged := r\<rparr>) db' \<longleftrightarrow> same_elsewhere db db'"
  by (simp add: same_elsewhere_def)

lemma apply_htlc_create_Done:
  assumes "apply_htlc_create db op = Done db'"
  shows "htlc_enabled db" "validate_htlc_create op (head_time db) = Inr ()"
    "account_exists db (hc_from op)" "account_exists db (hc_to op)"
    "open_htlc_count db (hc_from op) < HTLC_MAX_OPEN_PER_ACCOUNT"
    "sint (amount (hc_amount op)) \<le> bal db (symbol (hc_amount op)) (hc_from op)"
    "moved db (hc_from op) (symbol (hc_amount op)) (- sint (amount (hc_amount op))) db'"
    "same_elsewhere db db'"
    "htlcs db' = om_put (htlcs db) (next_htlc_id db) (htlc_of_create db op)"
    "next_htlc_id db' = next_htlc_id db + 1"
    "last_rc_charged db' = cost_htlc_create op"
proof -
  let ?rc = "db\<lparr>last_rc_charged := cost_htlc_create op\<rparr>"
  let ?pay = "\<lambda>m. \<lparr>amount = m, symbol = symbol (hc_amount op)\<rparr> :: asset"
  from assms show guards: "htlc_enabled db" "validate_htlc_create op (head_time db) = Inr ()"
    "account_exists db (hc_from op)" "account_exists db (hc_to op)"
    "open_htlc_count db (hc_from op) < HTLC_MAX_OPEN_PER_ACCOUNT"
    by (auto simp: apply_htlc_create_def attempt_Done checks_Cons_Inr throw_if_Inr
        require_hardfork_Inr require_full_htlc_state_Inr htlc_enabled_def not_le)
  have pos: "0 < sint (amount (hc_amount op))"
    using guards(2) by (simp add: validate_htlc_create_Inr)
  from assms obtain m db1 where m: "i64_neg (amount (hc_amount op)) = Inr m"
    and adj: "adjust_balance ?rc (hc_from op) (?pay m) = Done db1"
    and rest: "htlcs db' = om_put (htlcs db1) (next_htlc_id db1) (htlc_of_create db1 op)"
      "next_htlc_id db' = next_htlc_id db1 + 1" "last_rc_charged db' = last_rc_charged db1"
      "balances db' = balances db1" "same_elsewhere db1 db'"
    by (auto simp: apply_htlc_create_def attempt_Done and_then_Done Let_def htlc_of_create_def
        same_elsewhere_def)
  note sm = sint_i64_neg [OF m]
  from adj sm pos show "sint (amount (hc_amount op)) \<le> bal db (symbol (hc_amount op)) (hc_from op)"
    by (auto simp: bal_def elim!: adjust_balance_Done)
  note mv = adjust_balance_moved [OF adj]
  show "moved db (hc_from op) (symbol (hc_amount op)) (- sint (amount (hc_amount op))) db'"
    by (rule moved_cong [OF mv(1), unfolded asset.select_convs sm]) (simp_all add: rest)
  show "same_elsewhere db db'"
    using mv(2) rest(5) by (simp add: same_elsewhere_def)
  show "htlcs db' = om_put (htlcs db) (next_htlc_id db) (htlc_of_create db op)"
    "next_htlc_id db' = next_htlc_id db + 1"
    using mv(2-) rest(1,2) by (simp_all add: same_elsewhere_def htlc_of_create_def)
  show "last_rc_charged db' = cost_htlc_create op"
    using adj rest(3) by (auto elim!: adjust_balance_Done)
qed

text \<open>Redeem and refund close an open lock in favour of one account.\<close>

definition closes ::
  "database \<Rightarrow> htlc_id_type \<Rightarrow> htlc_object \<Rightarrow> account_name_type \<Rightarrow> htlc_status \<Rightarrow> database \<Rightarrow> bool" where
  "closes db i h acc st db' \<longleftrightarrow>
     om_find (htlcs db) i = Some h \<and> h_status h = Open \<and>
     moved db acc (symbol (h_amount h)) (sint (amount (h_amount h))) db' \<and>
     same_elsewhere db db' \<and> htlcs db' = om_put (htlcs db) i (h\<lparr>h_status := st\<rparr>) \<and>
     next_htlc_id db' = next_htlc_id db"

definition preimage_matches :: "htlc_object \<Rightarrow> bytes \<Rightarrow> bool" where
  "preimage_matches h p \<longleftrightarrow>
     length p = unat (h_preimage_size h) \<and>
     digest_bytes (digest_of (algo (h_preimage_hash h)) p) = digest_bytes (h_preimage_hash h)"

definition redeem_ok :: "database \<Rightarrow> htlc_redeem_operation \<Rightarrow> htlc_object \<Rightarrow> bool" where
  "redeem_ok db op h \<longleftrightarrow>
     htlc_enabled db \<and> validate_htlc_redeem op = Inr () \<and>
     om_find (htlcs db) (hr_htlc_id op) = Some h \<and> h_status h = Open \<and> h_to h = hr_to op \<and>
     head_time db < h_expiration h \<and> preimage_matches h (hr_preimage op)"

definition refund_ok :: "database \<Rightarrow> htlc_refund_operation \<Rightarrow> htlc_object \<Rightarrow> bool" where
  "refund_ok db op h \<longleftrightarrow>
     htlc_enabled db \<and> validate_htlc_refund op = Inr () \<and>
     om_find (htlcs db) (hf_htlc_id op) = Some h \<and> h_status h = Open \<and> h_from h = hf_from op \<and>
     h_expiration h \<le> head_time db"

lemmas htlc_guard_simps = attempt_Done attempt_Threw checks_Cons_Inr throw_if_Inr
  require_hardfork_Inr require_full_htlc_state_Inr htlc_enabled_def not_le not_less
  constant_time_equal_iff

lemma credit_closes:
  assumes adj: "adjust_balance (db\<lparr>last_rc_charged := r\<rparr>) acc (h_amount h) = Done db1"
    and h: "om_find (htlcs db) i = Some h" "h_status h = Open"
    and db': "db' = push_virtual (db1\<lparr>htlcs := om_put (htlcs db1) i (h\<lparr>h_status := st\<rparr>)\<rparr>) n p"
  shows "closes db i h acc st db'"
proof -
  note mv = adjust_balance_moved [OF adj]
  have "moved db acc (symbol (h_amount h)) (sint (amount (h_amount h))) db'"
    by (rule moved_cong [OF mv(1)]) (simp_all add: db')
  with mv(2-) h show ?thesis
    by (simp add: closes_def db' same_elsewhere_def)
qed

lemma apply_htlc_redeem_eq:
  "apply_htlc_redeem db op = Done db' \<longleftrightarrow>
     (\<exists>h db1. redeem_ok db op h \<and>
        adjust_balance (db\<lparr>last_rc_charged := cost_htlc_redeem op\<rparr>) (h_to h) (h_amount h) = Done db1 \<and>
        db' = push_virtual
          (db1\<lparr>htlcs := om_put (htlcs db1) (hr_htlc_id op) (h\<lparr>h_status := Redeemed\<rparr>)\<rparr>)
          ''htlc_redeemed''
          (''{\"htlc_id\":'' @ dec_u64 (h_id h) @ '',\"to\":\"'' @ h_to h @ ''\"}''))"
  by (auto simp: apply_htlc_redeem_def htlc_guard_simps redeem_ok_def preimage_matches_def
      and_then_Done Let_def split: option.splits)

lemma apply_htlc_refund_eq:
  "apply_htlc_refund db op = Done db' \<longleftrightarrow>
     (\<exists>h db1. refund_ok db op h \<and>
        adjust_balance (db\<lparr>last_rc_charged := cost_htlc_refund op\<rparr>) (h_from h) (h_amount h) = Done db1 \<and>
        db' = push_virtual
          (db1\<lparr>htlcs := om_put (htlcs db1) (hf_htlc_id op) (h\<lparr>h_status := Refunded\<rparr>)\<rparr>)
          ''htlc_refunded''
          (''{\"htlc_id\":'' @ dec_u64 (h_id h) @ '',\"from\":\"'' @ h_from h @ ''\"}''))"
  by (auto simp: apply_htlc_refund_def htlc_guard_simps refund_ok_def
      and_then_Done Let_def split: option.splits)

lemma apply_htlc_redeem_Done:
  assumes "apply_htlc_redeem db op = Done db'"
  obtains h where "redeem_ok db op h" "closes db (hr_htlc_id op) h (hr_to op) Redeemed db'"
proof -
  from assms obtain h db1 where ok: "redeem_ok db op h"
    and adj: "adjust_balance (db\<lparr>last_rc_charged := cost_htlc_redeem op\<rparr>) (h_to h) (h_amount h) = Done db1"
    and db': "\<exists>n p. db' = push_virtual
      (db1\<lparr>htlcs := om_put (htlcs db1) (hr_htlc_id op) (h\<lparr>h_status := Redeemed\<rparr>)\<rparr>) n p"
    unfolding apply_htlc_redeem_eq by blast
  from ok have "om_find (htlcs db) (hr_htlc_id op) = Some h" "h_status h = Open" "h_to h = hr_to op"
    by (simp_all add: redeem_ok_def)
  with adj db' credit_closes that ok show ?thesis by metis
qed

lemma apply_htlc_refund_Done:
  assumes "apply_htlc_refund db op = Done db'"
  obtains h where "refund_ok db op h" "closes db (hf_htlc_id op) h (hf_from op) Refunded db'"
proof -
  from assms obtain h db1 where ok: "refund_ok db op h"
    and adj: "adjust_balance (db\<lparr>last_rc_charged := cost_htlc_refund op\<rparr>) (h_from h) (h_amount h) = Done db1"
    and db': "\<exists>n p. db' = push_virtual
      (db1\<lparr>htlcs := om_put (htlcs db1) (hf_htlc_id op) (h\<lparr>h_status := Refunded\<rparr>)\<rparr>) n p"
    unfolding apply_htlc_refund_eq by blast
  from ok have "om_find (htlcs db) (hf_htlc_id op) = Some h" "h_status h = Open" "h_from h = hf_from op"
    by (simp_all add: refund_ok_def)
  with adj db' credit_closes that ok show ?thesis by metis
qed

section \<open>Rejections\<close>

text \<open>A rejected operation leaves at most its charge behind.\<close>

lemma apply_htlc_Threw:
  "apply_htlc db op = Threw e db' \<Longrightarrow> \<exists>r. db' = db\<lparr>last_rc_charged := r\<rparr>"
proof -
  have same: "\<exists>r. db = db\<lparr>last_rc_charged := r\<rparr>" for db :: database
    by (rule exI [of _ "last_rc_charged db"]) simp
  assume "apply_htlc db op = Threw e db'"
  then show ?thesis
    by (cases op)
      (auto simp: apply_htlc_create_def apply_htlc_redeem_def apply_htlc_refund_def attempt_Threw
        and_then_Threw Let_def same dest!: adjust_balance_Threw split: option.splits)
qed

section \<open>Invariants\<close>

definition htlc_ok :: "database \<Rightarrow> htlc_object \<Rightarrow> bool" where
  "htlc_ok db h \<longleftrightarrow>
     0 < sint (amount (h_amount h)) \<and> account_exists db (h_from h) \<and> account_exists db (h_to h) \<and>
     0 < unat (h_preimage_size h) \<and> unat (h_preimage_size h) \<le> MAX_HTLC_PREIMAGE_LEN \<and>
     length (digest_bytes (h_preimage_hash h)) = digest_size (algo (h_preimage_hash h)) \<and>
     uint (h_created h) + HTLC_MIN_DURATION_SEC \<le> uint (h_expiration h) \<and>
     uint (h_expiration h) \<le> uint (h_created h) + HTLC_MAX_DURATION_SEC"

definition htlc_inv :: "database \<Rightarrow> bool" where
  "htlc_inv db \<longleftrightarrow>
     table_ok h_id (htlcs db) (next_htlc_id db) \<and>
     (\<forall>i h. om_find (htlcs db) i = Some h \<longrightarrow> htlc_ok db h) \<and>
     (\<forall>acc. open_htlcs db acc \<le> uint HTLC_MAX_OPEN_PER_ACCOUNT)"

definition locked_in :: "asset_symbol \<Rightarrow> htlc_object \<Rightarrow> int" where
  "locked_in sy h =
     (if h_status h = Open \<and> symbol (h_amount h) = sy then sint (amount (h_amount h)) else 0)"

definition total_locked :: "asset_symbol \<Rightarrow> database \<Rightarrow> int" where
  "total_locked sy db = om_sum (\<lambda>_. locked_in sy) (htlcs db)"

definition total_supply :: "asset_symbol \<Rightarrow> database \<Rightarrow> int" where
  "total_supply sy db = total_liquid sy db + total_locked sy db"

definition funds_inv :: "database \<Rightarrow> bool" where
  "funds_inv db \<longleftrightarrow> (\<forall>sy acc. 0 \<le> bal db sy acc) \<and> (\<forall>sy. total_supply sy db \<le> INT64_MAX)"

lemma open_htlc_count_exact:
  assumes "\<forall>acc. open_htlcs db acc \<le> uint HTLC_MAX_OPEN_PER_ACCOUNT"
  shows "uint (open_htlc_count db acc) = open_htlcs db acc"
proof -
  let ?n = "length (filter (\<lambda>p. h_from (snd p) = acc \<and> h_status (snd p) = Open) (om_entries (htlcs db)))"
  have n: "open_htlcs db acc = int ?n"
    by (simp add: open_htlcs_def om_count_length)
  have "open_htlcs db acc \<le> 256"
    using assms by (simp add: HTLC_MAX_OPEN_PER_ACCOUNT_def)
  then have "?n < 2 ^ 32"
    by (simp only: n) simp
  then have "unat (open_htlc_count db acc) = ?n"
    by (simp only: open_htlc_count_eq mod_less)
  then show ?thesis
    by (simp only: uint_nat n)
qed

lemma htlc_fresh: "htlc_inv db \<Longrightarrow> om_find (htlcs db) (next_htlc_id db) = None"
  by (rule table_ok_fresh [of h_id]) (simp add: htlc_inv_def)

lemma htlc_ok_frame:
  "htlc_ok db h \<Longrightarrow> (\<And>a. account_exists db a \<Longrightarrow> account_exists db' a) \<Longrightarrow> htlc_ok db' h"
  by (simp add: htlc_ok_def)

lemma htlc_inv_frame:
  "htlc_inv db \<Longrightarrow> htlcs db' = htlcs db \<Longrightarrow> next_htlc_id db' = next_htlc_id db \<Longrightarrow>
     (\<And>a. account_exists db a \<Longrightarrow> account_exists db' a) \<Longrightarrow> htlc_inv db'"
  by (auto simp: htlc_inv_def open_htlcs_def intro: htlc_ok_frame)

lemma htlc_inv_create:
  assumes inv: "htlc_inv db" and room: "next_htlc_id db \<noteq> - 1"
    and ok: "apply_htlc_create db op = Done db'"
  shows "htlc_inv db'"
proof -
  note d = apply_htlc_create_Done [OF ok]
  have acc: "account_exists db' a \<longleftrightarrow> account_exists db a" for a
    using d(7) by (simp add: moved_def)
  have fresh: "om_find (htlcs db) (next_htlc_id db) = None"
    by (rule htlc_fresh [OF inv])
  have "table_ok h_id (htlcs db') (next_htlc_id db')"
    using inv room by (simp add: d(9,10) htlc_inv_def table_ok_alloc htlc_of_create_def)
  moreover have "htlc_ok db' (htlc_of_create db op)"
    using d(2-4) unat_gt_0 [of "hc_preimage_size op"]
    by (simp add: htlc_ok_def htlc_of_create_def validate_htlc_create_Inr acc)
  moreover have "htlc_ok db' h" if "om_find (htlcs db) i = Some h" for i h
    using inv that acc by (auto simp: htlc_inv_def intro: htlc_ok_frame)
  moreover have "open_htlcs db' a \<le> uint HTLC_MAX_OPEN_PER_ACCOUNT" for a
  proof -
    have bnd: "open_htlcs db a \<le> uint HTLC_MAX_OPEN_PER_ACCOUNT" for a
      using inv by (simp add: htlc_inv_def)
    have "open_htlcs db (hc_from op) < uint HTLC_MAX_OPEN_PER_ACCOUNT"
      using d(5) open_htlc_count_exact [of db "hc_from op"] bnd by (simp add: word_less_def)
    then show ?thesis
      using bnd [of a] fresh
      by (auto simp: open_htlcs_def d(9) om_count_put_new htlc_of_create_def)
  qed
  ultimately show ?thesis
    by (auto simp: htlc_inv_def d(9) split: if_splits)
qed

lemma htlc_inv_closes:
  assumes inv: "htlc_inv db" and cl: "closes db i h acc st db'" and st: "st \<noteq> Open"
  shows "htlc_inv db'"
proof -
  from cl have h: "om_find (htlcs db) i = Some h" "h_status h = Open"
    and put: "htlcs db' = om_put (htlcs db) i (h\<lparr>h_status := st\<rparr>)"
    and nxt: "next_htlc_id db' = next_htlc_id db"
    and acc: "\<And>a. account_exists db' a \<longleftrightarrow> account_exists db a"
    by (simp_all add: closes_def moved_def)
  have "htlc_ok db' k" if "om_find (htlcs db') j = Some k" for j k
    using that inv h acc by (auto simp: htlc_inv_def put htlc_ok_def split: if_splits)
  moreover have "table_ok h_id (htlcs db') (next_htlc_id db')"
    using inv h by (auto simp: htlc_inv_def put nxt intro: table_ok_update)
  moreover have "open_htlcs db' a \<le> open_htlcs db a" for a
    using h st by (simp add: open_htlcs_def put om_count_put_old)
  ultimately show ?thesis
    using inv unfolding htlc_inv_def by (meson order_trans)
qed

lemma htlc_inv_apply_htlc:
  assumes "htlc_inv db" and "next_htlc_id db \<noteq> - 1"
  shows "htlc_inv (outcome_state (apply_htlc db op))"
proof (cases "apply_htlc db op")
  case (Done db')
  then show ?thesis
    using assms
    by (cases op) (auto elim!: apply_htlc_redeem_Done apply_htlc_refund_Done
        intro: htlc_inv_create htlc_inv_closes)
next
  case (Threw e db')
  then show ?thesis
    using assms(1) apply_htlc_Threw [OF Threw]
    by (auto intro: htlc_inv_frame simp: account_exists_def)
qed

section \<open>Conservation of funds\<close>

lemma total_supply_cong:
  "balances db' = balances db \<Longrightarrow> htlcs db' = htlcs db \<Longrightarrow> total_supply sy db' = total_supply sy db"
  by (simp add: total_supply_def total_liquid_def total_locked_def)

lemma total_supply_create:
  assumes inv: "htlc_inv db" and ok: "apply_htlc_create db op = Done db'"
  shows "total_supply sy db' = total_supply sy db"
proof -
  note d = apply_htlc_create_Done [OF ok]
  have "om_find (htlcs db) (next_htlc_id db) = None"
    by (rule htlc_fresh [OF inv])
  with d(7) show ?thesis
    by (auto simp: total_supply_def total_locked_def d(9) om_sum_put moved_def locked_in_def
        htlc_of_create_def)
qed

lemma total_supply_closes:
  "closes db i h acc st db' \<Longrightarrow> st \<noteq> Open \<Longrightarrow> total_supply sy db' = total_supply sy db"
  by (auto simp: closes_def total_supply_def total_locked_def om_sum_put moved_def locked_in_def)

lemma total_supply_apply_htlc:
  assumes "htlc_inv db"
  shows "total_supply sy (outcome_state (apply_htlc db op)) = total_supply sy db"
proof (cases "apply_htlc db op")
  case (Done db')
  then show ?thesis
    using assms
    by (cases op) (auto elim!: apply_htlc_redeem_Done apply_htlc_refund_Done
        simp: total_supply_create total_supply_closes)
next
  case (Threw e db')
  then show ?thesis
    using apply_htlc_Threw [OF Threw] by (auto intro!: total_supply_cong)
qed

lemma bal_apply_htlc_nonneg:
  assumes "htlc_inv db" and "\<forall>sy acc. 0 \<le> bal db sy acc"
  shows "0 \<le> bal (outcome_state (apply_htlc db op)) sy acc"
proof (cases "apply_htlc db op")
  case (Done db')
  have closed: "0 \<le> bal db' sy acc" if "closes db i h a st db'" for i h a st
  proof -
    have "0 < sint (amount (h_amount h))"
      using assms(1) that by (auto simp: closes_def htlc_inv_def htlc_ok_def)
    then show ?thesis
      using that assms(2) by (simp add: closes_def moved_def)
  qed
  show ?thesis
  proof (cases op)
    case (Htlc_create x)
    then show ?thesis
      using Done assms(2) apply_htlc_create_Done(6,7) [of db x db'] by (simp add: moved_def)
  qed (use Done closed in \<open>auto elim!: apply_htlc_redeem_Done apply_htlc_refund_Done\<close>)
next
  case (Threw e db')
  then show ?thesis
    using assms(2) apply_htlc_Threw [OF Threw] by (auto simp: bal_def)
qed

lemma funds_inv_apply_htlc:
  "htlc_inv db \<Longrightarrow> funds_inv db \<Longrightarrow> funds_inv (outcome_state (apply_htlc db op))"
  by (simp add: funds_inv_def bal_apply_htlc_nonneg total_supply_apply_htlc)

section \<open>No overflow, and exactly when an operation is accepted\<close>

lemma bal_le_total_liquid:
  assumes "\<forall>sy acc. 0 \<le> bal db sy acc"
  shows "bal db sy acc \<le> total_liquid sy db"
proof -
  have nonneg: "0 \<le> sint (balance_field sy b)" if "om_find (balances db) a = Some b" for a b
    using assms [rule_format, of sy a] that by (simp add: bal_def)
  show ?thesis
  proof (cases "om_find (balances db) acc")
    case None
    then show ?thesis
      using nonneg by (auto simp: bal_def total_liquid_def intro!: om_sum_nonneg)
  next
    case (Some b)
    then show ?thesis
      using nonneg om_sum_ge [of "balances db" "\<lambda>_ b. sint (balance_field sy b)" acc b]
      by (simp add: bal_def total_liquid_def)
  qed
qed

lemma locked_le_total_locked:
  assumes "htlc_inv db" and "om_find (htlcs db) i = Some h"
  shows "locked_in sy h \<le> total_locked sy db"
  unfolding total_locked_def using assms
  by (intro om_sum_ge) (force simp: htlc_inv_def htlc_ok_def locked_in_def)+

lemma credit_ok:
  assumes inv: "htlc_inv db" and funds: "funds_inv db"
    and h: "om_find (htlcs db) i = Some h" "h_status h = Open" and acc: "account_exists db acc"
  shows "adjust_ok (db\<lparr>last_rc_charged := r\<rparr>) acc (h_amount h)"
proof -
  let ?sy = "symbol (h_amount h)" and ?amt = "sint (amount (h_amount h))"
  have "bal db ?sy acc + ?amt \<le> total_supply ?sy db"
    using bal_le_total_liquid [of db ?sy acc] locked_le_total_locked [OF inv h(1), of ?sy] funds h(2)
    by (simp add: total_supply_def locked_in_def funds_inv_def)
  also have "\<dots> \<le> INT64_MAX"
    using funds by (simp add: funds_inv_def)
  finally have "bal db ?sy acc + ?amt \<le> INT64_MAX" .
  moreover have "0 < ?amt"
    using inv h by (auto simp: htlc_inv_def htlc_ok_def)
  ultimately show ?thesis
    using acc by (simp add: adjust_ok_def bal_def account_exists_def INT64_MIN_def)
qed

lemma adjust_ok_Done:
  assumes "adjust_ok db name delta"
  obtains db' where "adjust_balance db name delta = Done db'"
  using assms adjust_balance_ok [OF assms] by (auto simp: adjust_ok_def account_exists_def)

lemma debit_ok:
  assumes "account_exists db acc" and "0 < sint a" and "sint a \<le> bal db sy acc"
    and "i64_neg a = Inr m"
  shows "adjust_ok (db\<lparr>last_rc_charged := r\<rparr>) acc \<lparr>amount = m, symbol = sy\<rparr>"
proof -
  have "bal db sy acc \<le> INT64_MAX"
    using sint_i64_range by (auto simp: bal_def INT64_MAX_def split: option.splits)
  then show ?thesis
    using assms sint_i64_neg [OF assms(4)] sint_i64_range [of a]
    by (simp add: adjust_ok_def bal_def account_exists_def INT64_MIN_def INT64_MAX_def)
qed

lemma adjust_balance_not_ok:
  assumes "0 < sint a" and "bal db sy acc < sint a" and "0 \<le> bal db sy acc"
    and "account_exists db acc" and "i64_neg a = Inr m"
  shows "adjust_balance db acc \<lparr>amount = m, symbol = sy\<rparr> =
    Threw (Protocol_error ''insufficient balance'') db"
proof -
  have m: "sint m = - sint a"
    by (rule sint_i64_neg [OF assms(5)])
  then have "sint (- m) = sint a" "i64_neg m = Inr (- m)"
    using assms(1) sint_i64_range [of a]
    by (simp_all add: neg_i64_eq i64_neg_def INT64_MIN_def INT64_MAX_def)
  with m assms(1,2,4) show ?thesis
    by (auto simp: adjust_balance_def bal_def account_exists_def Let_def)
qed

lemma protocol_outcome_credit:
  assumes "htlc_inv db" "funds_inv db" "om_find (htlcs db) i = Some h" "h_status h = Open"
    and "acc = h_from h \<or> acc = h_to h"
  shows "protocol_outcome (adjust_balance (db\<lparr>last_rc_charged := r\<rparr>) acc (h_amount h))"
proof -
  have "account_exists db acc"
    using assms(1,3,5) by (auto simp: htlc_inv_def htlc_ok_def)
  from credit_ok [OF assms(1-4) this, of r] show ?thesis
    by (rule adjust_ok_Done) (simp add: protocol_intros)
qed

lemma protocol_outcome_debit:
  assumes "funds_inv db" "account_exists db acc" "0 < sint a" "i64_neg a = Inr m"
  shows "protocol_outcome (adjust_balance (db\<lparr>last_rc_charged := r\<rparr>) acc \<lparr>amount = m, symbol = sy\<rparr>)"
proof (cases "sint a \<le> bal db sy acc")
  case True
  from debit_ok [OF assms(2,3) True assms(4), of r] show ?thesis
    by (rule adjust_ok_Done) (simp add: protocol_intros)
next
  case False
  then show ?thesis
    using assms adjust_balance_not_ok [of a "db\<lparr>last_rc_charged := r\<rparr>" sy acc m]
    by (simp add: funds_inv_def bal_def account_exists_def protocol_intros)
qed

lemma apply_htlc_protocol_outcome:
  assumes inv: "htlc_inv db" and funds: "funds_inv db"
  shows "protocol_outcome (apply_htlc db op)"
proof (cases op)
  case (Htlc_create x)
  have neg: "protocol_only (i64_neg (amount (hc_amount x)))"
    if "0 < sint (amount (hc_amount x))"
    using that by (simp add: i64_neg_total protocol_intros)
  show ?thesis
    unfolding Htlc_create apply_htlc.simps apply_htlc_create_def Let_def
    by (intro protocol_intros neg protocol_outcome_debit funds)
      (simp_all add: checks_Cons_Inr throw_if_Inr validate_htlc_create_Inr)
next
  case (Htlc_redeem x)
  show ?thesis
    unfolding Htlc_redeem apply_htlc.simps apply_htlc_redeem_def Let_def
    by (intro protocol_intros protocol_outcome_credit inv funds)
      (auto simp: checks_Cons_Inr throw_if_Inr)
next
  case (Htlc_refund x)
  show ?thesis
    unfolding Htlc_refund apply_htlc.simps apply_htlc_refund_def Let_def
    by (intro protocol_intros protocol_outcome_credit inv funds)
      (auto simp: checks_Cons_Inr throw_if_Inr)
qed

lemma apply_htlc_redeem_succeeds:
  assumes "htlc_inv db" "funds_inv db" and ok: "redeem_ok db op h"
  shows "\<exists>db'. apply_htlc_redeem db op = Done db'"
proof -
  have h: "om_find (htlcs db) (hr_htlc_id op) = Some h" "h_status h = Open"
    using ok by (simp_all add: redeem_ok_def)
  then have "account_exists db (h_to h)"
    using assms(1) by (auto simp: htlc_inv_def htlc_ok_def)
  from credit_ok [OF assms(1,2) h this] obtain db1 where
    "adjust_balance (db\<lparr>last_rc_charged := cost_htlc_redeem op\<rparr>) (h_to h) (h_amount h) = Done db1"
    by (rule adjust_ok_Done)
  with ok show ?thesis unfolding apply_htlc_redeem_eq by blast
qed

lemma apply_htlc_refund_succeeds:
  assumes "htlc_inv db" "funds_inv db" and ok: "refund_ok db op h"
  shows "\<exists>db'. apply_htlc_refund db op = Done db'"
proof -
  have h: "om_find (htlcs db) (hf_htlc_id op) = Some h" "h_status h = Open"
    using ok by (simp_all add: refund_ok_def)
  then have "account_exists db (h_from h)"
    using assms(1) by (auto simp: htlc_inv_def htlc_ok_def)
  from credit_ok [OF assms(1,2) h this] obtain db1 where
    "adjust_balance (db\<lparr>last_rc_charged := cost_htlc_refund op\<rparr>) (h_from h) (h_amount h) = Done db1"
    by (rule adjust_ok_Done)
  with ok show ?thesis unfolding apply_htlc_refund_eq by blast
qed

definition create_ok :: "database \<Rightarrow> htlc_create_operation \<Rightarrow> bool" where
  "create_ok db op \<longleftrightarrow>
     htlc_enabled db \<and> validate_htlc_create op (head_time db) = Inr () \<and>
     account_exists db (hc_from op) \<and> account_exists db (hc_to op) \<and>
     open_htlcs db (hc_from op) < 256 \<and>
     sint (amount (hc_amount op)) \<le> bal db (symbol (hc_amount op)) (hc_from op)"

lemma open_count_below_limit:
  assumes "htlc_inv db"
  shows "open_htlc_count db acc < HTLC_MAX_OPEN_PER_ACCOUNT \<longleftrightarrow> open_htlcs db acc < 256"
  using assms open_htlc_count_exact [of db acc]
  by (simp add: htlc_inv_def word_less_def HTLC_MAX_OPEN_PER_ACCOUNT_def)

lemma apply_htlc_create_succeeds:
  assumes inv: "htlc_inv db" and ok: "create_ok db op"
  shows "\<exists>db'. apply_htlc_create db op = Done db'"
proof -
  let ?a = "amount (hc_amount op)"
  have pos: "0 < sint ?a" using ok by (simp add: create_ok_def validate_htlc_create_Inr)
  note m = i64_neg_total [OF pos]
  from debit_ok [OF _ pos _ m, of db "hc_from op" "symbol (hc_amount op)" "cost_htlc_create op"] ok
  obtain db1 where "adjust_balance (db\<lparr>last_rc_charged := cost_htlc_create op\<rparr>) (hc_from op)
      \<lparr>amount = - ?a, symbol = symbol (hc_amount op)\<rparr> = Done db1"
    by (auto simp: create_ok_def elim: adjust_ok_Done)
  with ok m show ?thesis
    by (simp add: apply_htlc_create_def create_ok_def htlc_guard_simps and_then_Done Let_def
        open_count_below_limit [OF inv])
qed

lemma apply_htlc_create_ok:
  assumes "htlc_inv db" "apply_htlc_create db op = Done db'"
  shows "create_ok db op"
  using apply_htlc_create_Done(1-6) [OF assms(2)] by (simp add: create_ok_def open_count_below_limit [OF assms(1)])

section \<open>The escrow specification\<close>

text \<open>
  The abstract machine: integer balances and a table of locks. An account locks its own
  funds, the receiver of a lock claims it with the preimage before the expiration, the
  sender takes it back from the expiration on.
\<close>

record escrow =
  e_bal :: "asset_symbol \<Rightarrow> account_name_type \<Rightarrow> int"
  e_lock :: "htlc_id_type \<Rightarrow> htlc_object option"

definition escrow_of :: "database \<Rightarrow> escrow" where
  "escrow_of db = \<lparr>e_bal = bal db, e_lock = om_find (htlcs db)\<rparr>"

definition pay :: "asset_symbol \<Rightarrow> account_name_type \<Rightarrow> int \<Rightarrow> escrow \<Rightarrow> escrow" where
  "pay sy a d E = E\<lparr>e_bal := (e_bal E)(sy := (e_bal E sy)(a := e_bal E sy a + d))\<rparr>"

abbreviation lock_symbol :: "htlc_object \<Rightarrow> asset_symbol" where
  "lock_symbol h \<equiv> symbol (h_amount h)"

abbreviation lock_value :: "htlc_object \<Rightarrow> int" where
  "lock_value h \<equiv> sint (amount (h_amount h))"

inductive escrow_step :: "time_point_sec \<Rightarrow> escrow \<Rightarrow> account_name_type \<Rightarrow> escrow \<Rightarrow> bool" where
  escrow_lock: "e_lock E i = None \<Longrightarrow> h_status h = Open \<Longrightarrow> h_from h = a \<Longrightarrow> 0 < lock_value h \<Longrightarrow>
    lock_value h \<le> e_bal E (lock_symbol h) a \<Longrightarrow> now < h_expiration h \<Longrightarrow>
    escrow_step now E a
      ((pay (lock_symbol h) a (- lock_value h) E)\<lparr>e_lock := (e_lock E)(i \<mapsto> h)\<rparr>)"
| escrow_claim: "e_lock E i = Some h \<Longrightarrow> h_status h = Open \<Longrightarrow> h_to h = a \<Longrightarrow>
    now < h_expiration h \<Longrightarrow> preimage_matches h p \<Longrightarrow>
    escrow_step now E a ((pay (lock_symbol h) a (lock_value h) E)
      \<lparr>e_lock := (e_lock E)(i \<mapsto> h\<lparr>h_status := Redeemed\<rparr>)\<rparr>)"
| escrow_refund: "e_lock E i = Some h \<Longrightarrow> h_status h = Open \<Longrightarrow> h_from h = a \<Longrightarrow>
    h_expiration h \<le> now \<Longrightarrow>
    escrow_step now E a ((pay (lock_symbol h) a (lock_value h) E)
      \<lparr>e_lock := (e_lock E)(i \<mapsto> h\<lparr>h_status := Refunded\<rparr>)\<rparr>)"

lemma escrow_of_moved:
  assumes "moved db a sy d db'" and "htlcs db' = om_put (htlcs db) i h"
  shows "escrow_of db' = (pay sy a d (escrow_of db))\<lparr>e_lock := (e_lock (escrow_of db))(i \<mapsto> h)\<rparr>"
proof -
  have "bal db' = (bal db)(sy := (bal db sy)(a := bal db sy a + d))"
    using assms(1) by (auto simp: moved_def fun_eq_iff)
  moreover have "om_find (htlcs db') = (om_find (htlcs db))(i \<mapsto> h)"
    by (auto simp: assms(2))
  ultimately show ?thesis
    by (simp add: escrow_of_def pay_def)
qed

lemma create_refines_escrow:
  assumes inv: "htlc_inv db" and ok: "apply_htlc_create db op = Done db'"
  shows "escrow_step (head_time db) (escrow_of db) (hc_from op) (escrow_of db')"
proof -
  note d = apply_htlc_create_Done [OF ok]
  let ?h = "htlc_of_create db op"
  have "0 < lock_value ?h" and "uint (head_time db) + HTLC_MIN_DURATION_SEC \<le> uint (h_expiration ?h)"
    using d(2) by (simp_all add: validate_htlc_create_Inr htlc_of_create_def)
  moreover from this(2) have "head_time db < h_expiration ?h"
    by (simp add: word_less_def HTLC_MIN_DURATION_SEC_def)
  moreover have "moved db (hc_from op) (lock_symbol ?h) (- lock_value ?h) db'"
    using d(7) by (simp add: htlc_of_create_def)
  note escrow_of_moved [OF this d(9)]
  ultimately show ?thesis
    using escrow_lock [of "escrow_of db" "next_htlc_id db" ?h "hc_from op" "head_time db"]
      d(6) htlc_fresh [OF inv]
    by (simp add: escrow_of_def htlc_of_create_def)
qed

lemma closes_escrow:
  assumes "closes db i h a st db'"
  shows "escrow_of db' = (pay (lock_symbol h) a (lock_value h) (escrow_of db))
      \<lparr>e_lock := (e_lock (escrow_of db))(i \<mapsto> h\<lparr>h_status := st\<rparr>)\<rparr>"
    and "e_lock (escrow_of db) i = Some h" "h_status h = Open"
  using assms escrow_of_moved by (auto simp: closes_def escrow_of_def)

lemma apply_htlc_refines_escrow:
  assumes inv: "htlc_inv db" and ok: "apply_htlc db op = Done db'"
  shows "escrow_step (head_time db) (escrow_of db) (hd (htlc_required_authorities op)) (escrow_of db')"
proof (cases op)
  case (Htlc_create x)
  then show ?thesis using create_refines_escrow [OF inv] ok by simp
next
  case (Htlc_redeem x)
  with ok obtain h where "redeem_ok db x h" "closes db (hr_htlc_id x) h (hr_to x) Redeemed db'"
    by (auto elim: apply_htlc_redeem_Done)
  with closes_escrow [OF this(2)] show ?thesis
    by (auto simp: Htlc_redeem redeem_ok_def intro!: escrow_claim)
next
  case (Htlc_refund x)
  with ok obtain h where "refund_ok db x h" "closes db (hf_htlc_id x) h (hf_from x) Refunded db'"
    by (auto elim: apply_htlc_refund_Done)
  with closes_escrow [OF this(2)] show ?thesis
    by (auto simp: Htlc_refund refund_ok_def intro!: escrow_refund)
qed

text \<open>A lock never disappears, and only an open one changes, by being closed.\<close>

lemma escrow_step_lock:
  assumes "escrow_step now E a E'" and "e_lock E i = Some h"
  shows "e_lock E' i = Some h \<or>
    (h_status h = Open \<and> now < h_expiration h \<and> h_to h = a \<and> (\<exists>p. preimage_matches h p) \<and>
     e_lock E' i = Some (h\<lparr>h_status := Redeemed\<rparr>)) \<or>
    (h_status h = Open \<and> h_expiration h \<le> now \<and> h_from h = a \<and>
     e_lock E' i = Some (h\<lparr>h_status := Refunded\<rparr>))"
  using assms by (cases rule: escrow_step.cases) auto

section \<open>A concrete lock\<close>

definition demo_htlc :: htlc_object where
  "demo_htlc =
     \<lparr>h_id = 1, h_from = ''alice'', h_to = ''bob'', h_amount = \<lparr>amount = 1000, symbol = HIVE\<rparr>,
      h_preimage_hash = digest_of SHA256 [1, 2, 3], h_preimage_size = 3,
      h_expiration = 1700003600, h_created = 1700000000, h_memo = [], h_status = Open\<rparr>"

definition demo_htlc_db :: database where
  "demo_htlc_db = demo_db\<lparr>next_htlc_id := 2, htlcs := om_put om_empty 1 demo_htlc\<rparr>"

definition demo_redeem :: htlc_redeem_operation where
  "demo_redeem = \<lparr>hr_to = ''bob'', hr_htlc_id = 1, hr_preimage = [1, 2, 3]\<rparr>"

definition demo_refund :: htlc_refund_operation where
  "demo_refund = \<lparr>hf_from = ''alice'', hf_htlc_id = 1\<rparr>"

lemmas demo_htlc_simps = demo_htlc_db_def demo_htlc_def demo_simps

lemma htlc_inv_demo: "htlc_inv demo_htlc_db"
  by (simp add: htlc_inv_def htlc_ok_def open_htlcs_def table_ok_def om_count_put_new demo_htlc_simps
      digest_size_def)

lemma funds_inv_demo: "funds_inv demo_htlc_db"
proof -
  have "total_supply sy demo_htlc_db \<le> INT64_MAX" for sy
    by (cases sy)
      (simp_all add: total_supply_def total_liquid_def total_locked_def om_sum_put locked_in_def
        balance_field_def demo_htlc_simps INT64_MAX_def)
  moreover have "0 \<le> bal demo_htlc_db sy acc" for sy acc
    by (simp add: bal_def balance_field_def demo_htlc_simps)
  ultimately show ?thesis by (simp add: funds_inv_def)
qed

lemma redeem_ok_demo: "redeem_ok demo_htlc_db demo_redeem demo_htlc"
  by (simp add: redeem_ok_def htlc_enabled_def validate_htlc_redeem_Inr preimage_matches_def
      demo_redeem_def demo_htlc_simps)

lemma demo_expired:
  "htlc_inv (demo_htlc_db\<lparr>head_time := 1700003600\<rparr>)" "funds_inv (demo_htlc_db\<lparr>head_time := 1700003600\<rparr>)"
  "refund_ok (demo_htlc_db\<lparr>head_time := 1700003600\<rparr>) demo_refund demo_htlc"
proof -
  show "htlc_inv (demo_htlc_db\<lparr>head_time := 1700003600\<rparr>)"
    by (rule htlc_inv_frame [OF htlc_inv_demo]) (simp_all add: account_exists_def)
  show "funds_inv (demo_htlc_db\<lparr>head_time := 1700003600\<rparr>)"
    using funds_inv_demo
    by (simp add: funds_inv_def bal_def total_supply_def total_liquid_def total_locked_def)
  show "refund_ok (demo_htlc_db\<lparr>head_time := 1700003600\<rparr>) demo_refund demo_htlc"
    by (simp add: refund_ok_def htlc_enabled_def validate_htlc_refund_Inr demo_refund_def
        demo_htlc_simps)
qed

section \<open>Properties\<close>

text \<open>C15: every HTLC operation, applied or rejected, keeps the invariants and conserves funds.
  Locks have unique ids below the counter, positive amounts, existing accounts, digests of the
  right length and a duration within the limits; no account has more than 256 open locks; no
  balance is negative and the supply of each asset stays within \<open>int64_t\<close>. For each asset the
  sum of all balances plus the amounts held in open locks is the same before and after.\<close>

theorem htlc_operations_keep_invariants:
  assumes "htlc_inv db" and "funds_inv db" and "next_htlc_id db \<noteq> - 1"
  shows "htlc_inv (outcome_state (apply_htlc db op)) \<and> funds_inv (outcome_state (apply_htlc db op)) \<and>
    (\<forall>sy. total_supply sy (outcome_state (apply_htlc db op)) = total_supply sy db)"
  using assms by (simp add: htlc_inv_apply_htlc funds_inv_apply_htlc total_supply_apply_htlc)

theorem htlc_operations_keep_invariants_witness:
  "htlc_inv (outcome_state (apply_htlc demo_htlc_db (Htlc_redeem demo_redeem))) \<and>
   funds_inv (outcome_state (apply_htlc demo_htlc_db (Htlc_redeem demo_redeem))) \<and>
   total_supply HIVE (outcome_state (apply_htlc demo_htlc_db (Htlc_redeem demo_redeem))) = 2001000"
proof -
  have "next_htlc_id demo_htlc_db \<noteq> - 1" "total_supply HIVE demo_htlc_db = 2001000"
    by (simp_all add: total_supply_def total_liquid_def total_locked_def om_sum_put locked_in_def
        balance_field_def demo_htlc_simps)
  with htlc_operations_keep_invariants [OF htlc_inv_demo funds_inv_demo, of "Htlc_redeem demo_redeem"]
  show ?thesis by simp
qed

text \<open>C14: which HTLC operations succeed. With the HTLC hardfork active, the node keeping HTLC state
  and the operation valid: a create succeeds exactly when both accounts exist, the sender has
  fewer than 256 open locks and can pay; a redeem exactly when the lock is open, names the
  redeemer as receiver, has not expired, and the preimage has the declared size and the stored
  digest; a refund exactly when the lock is open, was made by the refunding account and has
  reached its expiration.\<close>

theorem htlc_operations_succeed_iff:
  assumes "htlc_inv db" and "funds_inv db"
  shows "(\<exists>db'. apply_htlc db op = Done db') \<longleftrightarrow>
    (case op of
       Htlc_create x \<Rightarrow> create_ok db x
     | Htlc_redeem x \<Rightarrow> (\<exists>h. redeem_ok db x h)
     | Htlc_refund x \<Rightarrow> (\<exists>h. refund_ok db x h))"
  using apply_htlc_create_succeeds [OF assms(1)] apply_htlc_create_ok [OF assms(1)]
    apply_htlc_redeem_succeeds [OF assms] apply_htlc_refund_succeeds [OF assms]
  by (cases op) (auto elim: apply_htlc_redeem_Done apply_htlc_refund_Done)

theorem htlc_operations_succeed_iff_witness:
  "(\<exists>db'. apply_htlc demo_htlc_db (Htlc_redeem demo_redeem) = Done db') \<and>
   (\<exists>db'. apply_htlc (demo_htlc_db\<lparr>head_time := 1700003600\<rparr>) (Htlc_refund demo_refund) = Done db')"
  using htlc_operations_succeed_iff [OF htlc_inv_demo funds_inv_demo, of "Htlc_redeem demo_redeem"] redeem_ok_demo
    htlc_operations_succeed_iff [OF demo_expired(1,2), of "Htlc_refund demo_refund"] demo_expired(3) by auto

text \<open>C13: refinement. Every applied HTLC operation is one step of the escrow machine, taken
  at the head time by the account whose authority the operation requires: the amount moves
  between exactly one account and exactly one lock, to the receiver only with the preimage and
  before the expiration, back to the sender only from the expiration on, and only from an
  open lock.\<close>

theorem htlc_operations_refine_escrow:
  assumes "htlc_inv db" and "apply_htlc db op = Done db'"
  shows "escrow_step (head_time db) (escrow_of db) (hd (htlc_required_authorities op)) (escrow_of db')"
  by (rule apply_htlc_refines_escrow [OF assms])

theorem htlc_operations_refine_escrow_witness:
  "\<exists>db'. apply_htlc demo_htlc_db (Htlc_redeem demo_redeem) = Done db' \<and>
     escrow_step 1700000000 (escrow_of demo_htlc_db) ''bob'' (escrow_of db')"
proof -
  obtain db' where *: "apply_htlc demo_htlc_db (Htlc_redeem demo_redeem) = Done db'"
    using apply_htlc_redeem_succeeds [OF htlc_inv_demo funds_inv_demo redeem_ok_demo] by auto
  from htlc_operations_refine_escrow [OF htlc_inv_demo *] * show ?thesis
    by (simp add: demo_redeem_def demo_htlc_simps)
qed

end
