(* ===== verification/Contracts.thy ===== *)
theory Contracts
  imports Engine Htlc
begin

text \<open>
  \<open>src/chain/evaluators_contracts.cpp\<close>: contract deployment and calls. The evaluators reach
  the engine through its virtual functions, so the model takes the engine as an argument and
  the two \<open>apply\<close> overloads are its instances at \<open>default_engine\<close>. The locale
  \<open>contract_host\<close> proves what the chain gets from any engine that keeps the engine contract; it
  is interpreted on \<open>default_engine\<close>.

  A failed call is charged and announced before the exception is thrown, and
  \<open>contract_storage[id]\<close> creates a missing entry; the model keeps both.
\<close>

section \<open>Evaluators\<close>

definition apply_contract_deploy_on ::
  "engine \<Rightarrow> database \<Rightarrow> contract_deploy_operation \<Rightarrow> database outcome" where
  "apply_contract_deploy_on eng db op =
     attempt db (checks [
         require_hardfork db HIVE_HARDFORK_CONTRACTS,
         throw_if (contracts_skip (config db) \<and> \<not> is_consensus_node (config db)) ''contracts skipped'',
         validate_contract_deploy op,
         throw_if (\<not> account_exists db (cd_owner op)) ''account missing'']) (\<lambda>_.
     let lim = default_host_limits\<lparr>l_fuel := cd_fuel_limit op\<rparr> in
     attempt db (eng_deploy_and_init eng (cd_code op) (cd_init_args op) lim) (\<lambda>res.
     attempt db (throw_if (\<not> r_success res)
         (if r_error res = [] then ''deploy failed'' else r_error res)) (\<lambda>_.
       let db = db\<lparr>last_rc_charged := cost_contract_deploy op\<rparr>;
           c = \<lparr>k_id = next_contract_id db, k_owner = cd_owner op,
                k_code_hash = sha256 (cd_code op), k_code = cd_code op, k_created = head_time db\<rparr>;
           db = db\<lparr>next_contract_id := next_contract_id db + 1\<rparr>;
           db = db\<lparr>contracts := om_put (contracts db) (k_id c) c\<rparr>;
           db = db\<lparr>contract_storage := om_put (contract_storage db) (k_id c) om_empty\<rparr>
       in Done (push_virtual db ''contract_deployed''
            (''{\"contract_id\":'' @ dec_u64 (k_id c) @ '',\"owner\":\"'' @ k_owner c @ ''\"}'')))))"

text \<open>\<open>for(const auto& [k, v] : res.storage_writes) storage[k] = v;\<close>\<close>

definition commit_writes :: "storage \<Rightarrow> storage \<Rightarrow> storage" where
  "commit_writes st ws = foldl (\<lambda>s p. om_put s (fst p) (snd p)) st (om_entries ws)"

definition apply_contract_call_on ::
  "engine \<Rightarrow> database \<Rightarrow> contract_call_operation \<Rightarrow> database outcome" where
  "apply_contract_call_on eng db op =
     attempt db (checks [
         require_hardfork db HIVE_HARDFORK_CONTRACTS,
         throw_if (contracts_skip (config db) \<and> \<not> is_consensus_node (config db)) ''contracts skipped'',
         validate_contract_call op,
         throw_if (\<not> account_exists db (cc_caller op)) ''account missing'']) (\<lambda>_.
     case om_find (contracts db) (cc_contract_id op) of
       None \<Rightarrow> Threw (Protocol_error ''unknown contract'') db
     | Some c \<Rightarrow>
     let lim = default_host_limits\<lparr>l_fuel := cc_fuel_limit op\<rparr>;
         storage = (case om_find (contract_storage db) (cc_contract_id op) of
                      None \<Rightarrow> om_empty | Some s \<Rightarrow> s);
         db = db\<lparr>contract_storage := om_put (contract_storage db) (cc_contract_id op) storage\<rparr>
     in attempt db (eng_call eng (k_code c) (cc_export_name op) (cc_args op) storage lim
          (cc_caller op)) (\<lambda>res.
       let db = db\<lparr>last_rc_charged := cost_contract_call op (r_fuel_used res)\<rparr> in
       if \<not> r_success res
       then Threw (Protocol_error (if r_error res = [] then ''call failed'' else r_error res))
              (push_virtual db ''contract_called''
                (''{\"contract_id\":'' @ dec_u64 (cc_contract_id op) @ '',\"success\":false,\"fuel\":''
                  @ dec_u64 (r_fuel_used res) @ ''}''))
       else
         let db = db\<lparr>contract_storage := om_put (contract_storage db) (cc_contract_id op)
                       (commit_writes storage (r_storage_writes res))\<rparr>
         in Done (push_virtual db ''contract_called''
              (''{\"contract_id\":'' @ dec_u64 (cc_contract_id op) @ '',\"success\":true,\"fuel\":''
                @ dec_u64 (r_fuel_used res) @ ''}''))))"

definition apply_contract_deploy :: "database \<Rightarrow> contract_deploy_operation \<Rightarrow> database outcome" where
  "apply_contract_deploy = apply_contract_deploy_on default_engine"

definition apply_contract_call :: "database \<Rightarrow> contract_call_operation \<Rightarrow> database outcome" where
  "apply_contract_call = apply_contract_call_on default_engine"

datatype contract_operation =
    Contract_deploy contract_deploy_operation
  | Contract_call contract_call_operation

fun apply_contract :: "database \<Rightarrow> contract_operation \<Rightarrow> database outcome" where
  "apply_contract db (Contract_deploy op) = apply_contract_deploy db op"
| "apply_contract db (Contract_call op) = apply_contract_call db op"

fun contract_required_authorities :: "contract_operation \<Rightarrow> account_name_type list" where
  "contract_required_authorities (Contract_deploy op) = [cd_owner op]"
| "contract_required_authorities (Contract_call op) = [cc_caller op]"

section \<open>Committing writes\<close>

lemma foldl_put_find:
  "distinct (map fst ps) \<Longrightarrow>
     om_find (foldl (\<lambda>s p. om_put s (fst p) (snd p)) st ps) k =
     (case map_of ps k of None \<Rightarrow> om_find st k | Some v \<Rightarrow> Some v)"
proof (induction ps arbitrary: st)
  case (Cons p ps)
  have fresh: "map_of ps (fst p) = None"
    using Cons.prems by (auto simp: map_of_eq_None_iff)
  have IH: "om_find (foldl (\<lambda>s p. om_put s (fst p) (snd p)) (om_put st (fst p) (snd p)) ps) k =
      (case map_of ps k of None \<Rightarrow> om_find (om_put st (fst p) (snd p)) k | Some v \<Rightarrow> Some v)"
    using Cons by simp
  then show ?case
    using fresh by (cases "k = fst p") (auto split: option.split)
qed simp

lemma om_find_commit_writes:
  "om_find (commit_writes st ws) k =
     (case om_find ws k of None \<Rightarrow> om_find st k | Some v \<Rightarrow> Some v)"
  unfolding commit_writes_def
  by (subst foldl_put_find) (simp_all add: ascending_distinct om_find_def)

lemma commit_writes_empty [simp]: "commit_writes st om_empty = st"
  by (simp add: commit_writes_def)

section \<open>Invariant\<close>

definition contract_ok :: "database \<Rightarrow> contract_object \<Rightarrow> bool" where
  "contract_ok db c \<longleftrightarrow>
     k_code c \<noteq> [] \<and> length (k_code c) \<le> MAX_CODE_BYTES \<and> k_code_hash c = sha256 (k_code c) \<and>
     account_exists db (k_owner c)"

definition storage_ok :: "storage \<Rightarrow> bool" where
  "storage_ok st \<longleftrightarrow> (\<forall>k v. om_find st k = Some v \<longrightarrow> length k \<le> 256 \<and> length v \<le> 4096)"

definition contract_inv :: "database \<Rightarrow> bool" where
  "contract_inv db \<longleftrightarrow>
     table_ok k_id (contracts db) (next_contract_id db) \<and>
     (\<forall>i c. om_find (contracts db) i = Some c \<longrightarrow> contract_ok db c) \<and>
     (\<forall>i. om_find (contracts db) i = None \<longleftrightarrow> om_find (contract_storage db) i = None) \<and>
     (\<forall>i st. om_find (contract_storage db) i = Some st \<longrightarrow> storage_ok st)"

lemma contract_inv_empty: "contract_inv empty_database"
  by (simp add: contract_inv_def empty_database_def table_ok_empty)

lemma contract_inv_frame:
  assumes "contract_inv db"
    and "contracts db' = contracts db" "contract_storage db' = contract_storage db"
    and "next_contract_id db' = next_contract_id db"
    and "\<And>a. account_exists db a \<Longrightarrow> account_exists db' a"
  shows "contract_inv db'"
  using assms by (simp add: contract_inv_def contract_ok_def)

lemma contract_fresh: "contract_inv db \<Longrightarrow> om_find (contracts db) (next_contract_id db) = None"
  by (rule table_ok_fresh [of k_id]) (simp add: contract_inv_def)

lemma storage_ok_commit:
  "storage_ok st \<Longrightarrow> storage_ok ws \<Longrightarrow> storage_ok (commit_writes st ws)"
  by (auto simp: storage_ok_def om_find_commit_writes split: option.splits)

lemma result_ok_storage:
  "result_ok (default_host_limits\<lparr>l_fuel := f\<rparr>) r \<Longrightarrow> storage_ok (r_storage_writes r)"
  by (simp add: result_ok_def storage_ok_def default_host_limits_def)

text \<open>The tables of the other components.\<close>

definition other_tables_same :: "database \<Rightarrow> database \<Rightarrow> bool" where
  "other_tables_same db db' \<longleftrightarrow>
     head_time db' = head_time db \<and> config db' = config db \<and> balances db' = balances db \<and>
     collections db' = collections db \<and> collection_by_symbol db' = collection_by_symbol db \<and>
     nfts db' = nfts db \<and> operators db' = operators db \<and> htlcs db' = htlcs db \<and>
     next_collection_id db' = next_collection_id db \<and> next_nft_id db' = next_nft_id db \<and>
     next_htlc_id db' = next_htlc_id db"

section \<open>The chain as a client of the engine contract\<close>

locale contract_host = contract_engine "eng_deploy_and_init eng" "eng_call eng"
  for eng :: engine
begin

lemma deploy_Done:
  assumes "apply_contract_deploy_on eng db op = Done db'"
  shows "validate_contract_deploy op = Inr ()" "account_exists db (cd_owner op)"
    "contracts db' = om_put (contracts db) (next_contract_id db)
       \<lparr>k_id = next_contract_id db, k_owner = cd_owner op, k_code_hash = sha256 (cd_code op),
        k_code = cd_code op, k_created = head_time db\<rparr>"
    "contract_storage db' = om_put (contract_storage db) (next_contract_id db) om_empty"
    "next_contract_id db' = next_contract_id db + 1" "other_tables_same db db'"
  using assms
  by (auto simp: apply_contract_deploy_on_def Let_def attempt_Done checks_Cons_Inr throw_if_Inr
      other_tables_same_def)

lemma deploy_Threw:
  "apply_contract_deploy_on eng db op = Threw e db' \<Longrightarrow> db' = db"
  by (auto simp: apply_contract_deploy_on_def Let_def attempt_Threw)

lemma deploy_inv:
  assumes inv: "contract_inv db" and room: "next_contract_id db \<noteq> - 1"
    and ok: "apply_contract_deploy_on eng db op = Done db'"
  shows "contract_inv db'"
proof -
  note d = deploy_Done [OF ok]
  have acc: "account_exists db' a \<longleftrightarrow> account_exists db a" for a
    using d(6) by (simp add: other_tables_same_def account_exists_def)
  have "table_ok k_id (contracts db') (next_contract_id db')"
    using inv room by (simp add: d(3,5) contract_inv_def table_ok_alloc)
  with inv d(1,2) acc show ?thesis
    by (auto simp: contract_inv_def contract_ok_def d(3,4) validate_contract_deploy_Inr
        storage_ok_def split: if_splits)
qed

text \<open>The storage a call runs on: the stored map, or an empty one.\<close>

lemma call_Done:
  assumes "apply_contract_call_on eng db op = Done db'"
  obtains c st res where "om_find (contracts db) (cc_contract_id op) = Some c"
    "st = (case om_find (contract_storage db) (cc_contract_id op) of None \<Rightarrow> om_empty | Some s \<Rightarrow> s)"
    "eng_call eng (k_code c) (cc_export_name op) (cc_args op) st
       (default_host_limits\<lparr>l_fuel := cc_fuel_limit op\<rparr>) (cc_caller op) = Inr res"
    "r_success res" "r_fuel_used res \<le> cc_fuel_limit op" "storage_ok (r_storage_writes res)"
    "contract_storage db' =
       om_put (contract_storage db) (cc_contract_id op) (commit_writes st (r_storage_writes res))"
    "last_rc_charged db' = cost_contract_call op (r_fuel_used res)"
    "contracts db' = contracts db" "next_contract_id db' = next_contract_id db"
    "other_tables_same db db'"
proof -
  from assms obtain c st res where r:
    "om_find (contracts db) (cc_contract_id op) = Some c"
    "st = (case om_find (contract_storage db) (cc_contract_id op) of None \<Rightarrow> om_empty | Some s \<Rightarrow> s)"
    "eng_call eng (k_code c) (cc_export_name op) (cc_args op) st
       (default_host_limits\<lparr>l_fuel := cc_fuel_limit op\<rparr>) (cc_caller op) = Inr res"
    "r_success res"
    "contract_storage db' =
       om_put (contract_storage db) (cc_contract_id op) (commit_writes st (r_storage_writes res))"
    "last_rc_charged db' = cost_contract_call op (r_fuel_used res)"
    "contracts db' = contracts db" "next_contract_id db' = next_contract_id db"
    "other_tables_same db db'"
    by (auto simp: apply_contract_call_on_def Let_def attempt_Done other_tables_same_def
        split: option.splits if_splits)
  from call_ok [OF r(3)] have "r_fuel_used res \<le> cc_fuel_limit op" "storage_ok (r_storage_writes res)"
    by (auto simp: result_ok_def storage_ok_def default_host_limits_def)
  with r show ?thesis by (intro that)
qed

lemma call_other_tables: "apply_contract_call_on eng db op = Done db' \<Longrightarrow> other_tables_same db db'"
  by (erule call_Done)

lemma call_Threw:
  assumes "apply_contract_call_on eng db op = Threw e db'"
  shows "db' = db \<or>
    om_find (contracts db) (cc_contract_id op) \<noteq> None \<and>
    contract_storage db' = om_put (contract_storage db) (cc_contract_id op)
      (case om_find (contract_storage db) (cc_contract_id op) of None \<Rightarrow> om_empty | Some s \<Rightarrow> s) \<and>
    contracts db' = contracts db \<and> next_contract_id db' = next_contract_id db \<and>
    other_tables_same db db'"
proof (cases "om_find (contracts db) (cc_contract_id op)")
  case None
  with assms show ?thesis
    by (simp add: apply_contract_call_on_def attempt_Threw) blast
next
  case (Some c)
  let ?st = "case om_find (contract_storage db) (cc_contract_id op) of None \<Rightarrow> om_empty | Some s \<Rightarrow> s"
  let ?db = "db\<lparr>contract_storage := om_put (contract_storage db) (cc_contract_id op) ?st\<rparr>"
  from assms have "db' = db \<or> db' = ?db \<or> (\<exists>r n p. db' = push_virtual (?db\<lparr>last_rc_charged := r\<rparr>) n p)"
    unfolding apply_contract_call_on_def Some Let_def attempt_Threw option.case
    by (auto split: if_split_asm)
  with Some show ?thesis
    by (elim disjE exE) (simp_all add: other_tables_same_def)
qed

lemma call_Threw_storage:
  assumes inv: "contract_inv db" and "apply_contract_call_on eng db op = Threw e db'"
  shows "om_find (contract_storage db') i = om_find (contract_storage db) i"
    and "contracts db' = contracts db" "next_contract_id db' = next_contract_id db"
    and "other_tables_same db db'"
proof -
  have *: "om_find (contracts db) k = None \<longleftrightarrow> om_find (contract_storage db) k = None" for k
    using inv by (simp add: contract_inv_def)
  from call_Threw [OF assms(2)]
  show "om_find (contract_storage db') i = om_find (contract_storage db) i"
    by (cases "om_find (contract_storage db) (cc_contract_id op)") (auto simp: *)
  from call_Threw [OF assms(2)]
  show "contracts db' = contracts db" "next_contract_id db' = next_contract_id db"
    "other_tables_same db db'"
    by (auto simp: other_tables_same_def)
qed

lemma call_inv:
  assumes inv: "contract_inv db" and ok: "apply_contract_call_on eng db op = Done db'"
  shows "contract_inv db'"
  using ok
proof (rule call_Done)
  fix c st res
  assume c: "om_find (contracts db) (cc_contract_id op) = Some c"
    and st: "st = (case om_find (contract_storage db) (cc_contract_id op) of
      None \<Rightarrow> om_empty | Some s \<Rightarrow> s)"
    and ws: "storage_ok (r_storage_writes res)"
    and upd: "contract_storage db' =
       om_put (contract_storage db) (cc_contract_id op) (commit_writes st (r_storage_writes res))"
      "contracts db' = contracts db" "next_contract_id db' = next_contract_id db"
      "other_tables_same db db'"
  have "storage_ok st"
    using inv by (auto simp: st contract_inv_def storage_ok_def split: option.splits)
  with ws have "storage_ok (commit_writes st (r_storage_writes res))"
    by (intro storage_ok_commit)
  moreover have "om_find (contract_storage db) (cc_contract_id op) \<noteq> None"
    using inv c by (metis contract_inv_def option.distinct(1))
  ultimately show ?thesis
    using inv upd
    by (auto simp: contract_inv_def contract_ok_def account_exists_def other_tables_same_def
        split: if_splits)
qed

lemma call_Threw_inv:
  assumes inv: "contract_inv db" and "apply_contract_call_on eng db op = Threw e db'"
  shows "contract_inv db'"
proof -
  note t = call_Threw_storage [OF assms]
  have "account_exists db' a \<longleftrightarrow> account_exists db a" for a
    using t(4) by (simp add: account_exists_def other_tables_same_def)
  with inv t(1-3) show ?thesis
    by (simp add: contract_inv_def contract_ok_def)
qed

end

interpretation dh: contract_host default_engine
  using ne.contract_engine_axioms
  by (simp add: contract_host_def default_engine_def null_engine_def)

lemma apply_contract_deploy_Done_iff:
  "(\<exists>db'. apply_contract_deploy db op = Done db') \<longleftrightarrow>
     HIVE_HARDFORK_CONTRACTS \<le> hardfork (config db) \<and>
     (contracts_skip (config db) \<longrightarrow> is_consensus_node (config db)) \<and>
     validate_contract_deploy op = Inr () \<and> account_exists db (cd_owner op) \<and>
     100 + of_nat (length (cd_code op)) div 64 \<le> cd_fuel_limit op"
  by (auto simp: apply_contract_deploy_def apply_contract_deploy_on_def Let_def attempt_Done
      checks_Cons_Inr throw_if_Inr require_hardfork_Inr default_engine_def null_engine_def
      null_deploy_and_init_def burn_or_return_def burn_def empty_result_def default_host_limits_def
      not_less validate_contract_deploy_Inr split: if_splits)

lemma contract_inv_apply_contract:
  assumes "contract_inv db" and "next_contract_id db \<noteq> - 1"
  shows "contract_inv (outcome_state (apply_contract db op))"
proof (cases op)
  case (Contract_deploy x)
  then show ?thesis
    using assms dh.deploy_inv [of db x] dh.deploy_Threw [of db x]
    by (cases "apply_contract_deploy db x") (auto simp: apply_contract_deploy_def)
next
  case (Contract_call x)
  have "contract_inv (outcome_state (apply_contract_call db x))"
  proof (cases "apply_contract_call db x")
    case (Done db')
    then show ?thesis
      using dh.call_inv [OF assms(1), of x db'] by (simp add: apply_contract_call_def)
  next
    case (Threw e db')
    then show ?thesis
      using dh.call_Threw_inv [OF assms(1), of x e db'] by (simp add: apply_contract_call_def)
  qed
  with Contract_call show ?thesis by simp
qed

lemma contract_has_storage:
  assumes "contract_inv db" and "om_find (contracts db) i = Some c"
  shows "\<exists>st. om_find (contract_storage db) i = Some st"
  using assms unfolding contract_inv_def by (metis not_None_eq)

lemma apply_contract_other_tables:
  assumes "contract_inv db"
  shows "other_tables_same db (outcome_state (apply_contract db op))"
proof (cases op)
  case (Contract_deploy x)
  then show ?thesis
    using dh.deploy_Done(6) [of db x] dh.deploy_Threw [of db x]
    by (cases "apply_contract_deploy db x")
      (auto simp: apply_contract_deploy_def other_tables_same_def)
next
  case (Contract_call x)
  show ?thesis
  proof (cases "apply_contract_call db x")
    case (Done db')
    then show ?thesis
      using dh.call_other_tables [of db x db'] Contract_call by (simp add: apply_contract_call_def)
  next
    case (Threw e db')
    then show ?thesis
      using dh.call_Threw_storage(4) [OF assms, of x e db'] Contract_call
      by (simp add: apply_contract_call_def)
  qed
qed

section \<open>A concrete contract\<close>

definition demo_contract :: contract_object where
  "demo_contract =
     \<lparr>k_id = 1, k_owner = ''alice'', k_code_hash = sha256 [0, 97], k_code = [0, 97],
      k_created = 1700000000\<rparr>"

definition demo_contract_db :: database where
  "demo_contract_db = demo_db
     \<lparr>next_contract_id := 2, contracts := om_put om_empty 1 demo_contract,
      contract_storage := om_put om_empty 1 om_empty\<rparr>"

definition demo_call :: "string \<Rightarrow> contract_call_operation" where
  "demo_call a =
     \<lparr>cc_caller = ''bob'', cc_contract_id = 1, cc_export_name = ''run'',
      cc_args = bytes_of_string a, cc_fuel_limit = 1000\<rparr>"

lemmas demo_contract_simps = demo_contract_db_def demo_contract_def demo_simps

lemma contract_inv_demo: "contract_inv demo_contract_db"
  by (auto simp: contract_inv_def contract_ok_def storage_ok_def table_ok_def demo_contract_simps)

lemmas demo_call_eval = apply_contract_call_def apply_contract_call_on_def Let_def
  default_engine_def null_engine_def null_call_def burn_or_return_def burn_def starts_with_def
  find_char_def host_fuel_weight_def host_allowed_def empty_result_def default_host_limits_def
  require_hardfork_def demo_call_def demo_contract_simps validate_contract_call_def assert_len_def

lemma demo_write_Done: "\<exists>db'. apply_contract_call demo_contract_db (demo_call ''WRITE:k:v'') = Done db'"
  by (simp add: demo_call_eval)

lemma demo_deny_Threw:
  "\<exists>db'. apply_contract_call demo_contract_db (demo_call ''DENY:transfer'') =
     Threw (Protocol_error ''host function denied: transfer'') db'"
  by (simp add: demo_call_eval)

lemma failed_call_effect:
  assumes "contract_inv db" and "apply_contract_call db op = Threw e db'"
  shows "om_find (contract_storage db') i = om_find (contract_storage db) i \<and>
    contracts db' = contracts db \<and> other_tables_same db db'"
  using dh.call_Threw_storage [OF assms(1) assms(2) [unfolded apply_contract_call_def]] by simp

lemma successful_call_effect:
  assumes "contract_inv db" and "apply_contract_call db op = Done db'"
  shows "\<exists>c st res.
    om_find (contracts db) (cc_contract_id op) = Some c \<and>
    om_find (contract_storage db) (cc_contract_id op) = Some st \<and>
    eng_call default_engine (k_code c) (cc_export_name op) (cc_args op) st
      (default_host_limits\<lparr>l_fuel := cc_fuel_limit op\<rparr>) (cc_caller op) = Inr res \<and>
    r_success res \<and> r_fuel_used res \<le> cc_fuel_limit op \<and>
    last_rc_charged db' = cost_contract_call op (r_fuel_used res) \<and>
    (\<forall>i. om_find (contract_storage db') i =
       (if i = cc_contract_id op then Some (commit_writes st (r_storage_writes res))
        else om_find (contract_storage db) i))"
  using assms(2) unfolding apply_contract_call_def
proof (rule dh.call_Done)
  fix c st res
  assume *: "om_find (contracts db) (cc_contract_id op) = Some c"
    "st = (case om_find (contract_storage db) (cc_contract_id op) of None \<Rightarrow> om_empty | Some s \<Rightarrow> s)"
    "eng_call default_engine (k_code c) (cc_export_name op) (cc_args op) st
       (default_host_limits\<lparr>l_fuel := cc_fuel_limit op\<rparr>) (cc_caller op) = Inr res"
    "r_success res" "r_fuel_used res \<le> cc_fuel_limit op"
    "contract_storage db' =
       om_put (contract_storage db) (cc_contract_id op) (commit_writes st (r_storage_writes res))"
    "last_rc_charged db' = cost_contract_call op (r_fuel_used res)"
  moreover from *(1) assms(1) have "om_find (contract_storage db) (cc_contract_id op) = Some st"
    using contract_has_storage [OF assms(1) *(1)] by (auto simp: *(2))
  ultimately show ?thesis by (intro exI conjI) auto
qed

section \<open>Properties\<close>

text \<open>C18: calls are all or nothing. A call that throws, for whatever reason, leaves every
  contract's storage as it was, along with code, balances, tokens and locks; only the charge
  and the announced virtual operation remain. A successful call runs the stored code on the
  stored storage, writes exactly the engine's staged writes into the storage of the called
  contract and into no other, and is charged for the fuel it used, which is at most the limit
  of the operation.\<close>

theorem calls_are_all_or_nothing:
  assumes "contract_inv db"
  shows "case apply_contract_call db op of
      Threw e db' \<Rightarrow>
        (\<forall>i. om_find (contract_storage db') i = om_find (contract_storage db) i) \<and>
        contracts db' = contracts db \<and> other_tables_same db db'
    | Done db' \<Rightarrow> \<exists>c st res.
        om_find (contracts db) (cc_contract_id op) = Some c \<and>
        om_find (contract_storage db) (cc_contract_id op) = Some st \<and>
        eng_call default_engine (k_code c) (cc_export_name op) (cc_args op) st
          (default_host_limits\<lparr>l_fuel := cc_fuel_limit op\<rparr>) (cc_caller op) = Inr res \<and>
        r_success res \<and> r_fuel_used res \<le> cc_fuel_limit op \<and>
        last_rc_charged db' = cost_contract_call op (r_fuel_used res) \<and>
        (\<forall>i. om_find (contract_storage db') i =
           (if i = cc_contract_id op then Some (commit_writes st (r_storage_writes res))
            else om_find (contract_storage db) i))"
proof (cases "apply_contract_call db op")
  case (Done db')
  from successful_call_effect [OF assms Done] show ?thesis by (simp only: Done outcome.case)
next
  case (Threw e db')
  from failed_call_effect [OF assms Threw] show ?thesis by (simp add: Threw)
qed

theorem calls_are_all_or_nothing_witness:
  "(\<exists>e db'. apply_contract_call demo_contract_db (demo_call ''DENY:transfer'') = Threw e db' \<and>
     om_find (contract_storage db') 1 = Some om_empty) \<and>
   (\<exists>db' (res :: call_result).
     apply_contract_call demo_contract_db (demo_call ''WRITE:k:v'') = Done db' \<and>
     r_fuel_used res \<le> 1000 \<and>
     om_find (contract_storage db') 1 = Some (commit_writes om_empty (r_storage_writes res)))"
proof
  obtain db' where *: "apply_contract_call demo_contract_db (demo_call ''DENY:transfer'') =
      Threw (Protocol_error ''host function denied: transfer'') db'"
    using demo_deny_Threw by blast
  from calls_are_all_or_nothing [OF contract_inv_demo, of "demo_call ''DENY:transfer''"] *
  show "\<exists>e db'. apply_contract_call demo_contract_db (demo_call ''DENY:transfer'') = Threw e db' \<and>
      om_find (contract_storage db') 1 = Some om_empty" by (simp add: demo_contract_simps)
next
  have st: "om_find (contract_storage demo_contract_db) 1 = Some om_empty" "cc_contract_id (demo_call w) = 1"
    "cc_fuel_limit (demo_call w) = 1000" for w
    by (simp_all add: demo_contract_db_def demo_call_def)
  obtain db' where *: "apply_contract_call demo_contract_db (demo_call ''WRITE:k:v'') = Done db'"
    using demo_write_Done by blast
  from calls_are_all_or_nothing [OF contract_inv_demo, of "demo_call ''WRITE:k:v''", unfolded * outcome.case st]
  show "\<exists>db' (res :: call_result).
      apply_contract_call demo_contract_db (demo_call ''WRITE:k:v'') = Done db' \<and> r_fuel_used res \<le> 1000 \<and>
      om_find (contract_storage db') 1 = Some (commit_writes om_empty (r_storage_writes res))"
    using * by auto
qed

end
