(* ===== verification/Chain_System.thy ===== *)
theory Chain_System
  imports Contracts
begin

text \<open>
  The chain as a whole: every \<open>apply\<close> overload of \<open>include/hive_native/chain/evaluators.hpp\<close> as
  one function, and the runs of a node: operations applied in some order (rejected ones
  included), the head time moving forward, pending virtual operations being cleared.
  \<open>chain_inv\<close> joins the invariants of the three evaluator groups.

  The locale \<open>run_relation\<close> lifts a reflexive and transitive relation that every step
  establishes to whole runs; it is interpreted for the supply, for the life of a lock and for
  the life of a token. The 64-bit id counters are the only resource a run can exhaust:
  \<open>ids_below\<close> bounds them by the number of steps.
\<close>

section \<open>Operations and runs\<close>

datatype operation =
    Nft_op nft_operation
  | Htlc_op htlc_operation
  | Contract_op contract_operation

fun apply_op :: "database \<Rightarrow> operation \<Rightarrow> database outcome" where
  "apply_op db (Nft_op op) = apply_nft db op"
| "apply_op db (Htlc_op op) = apply_htlc db op"
| "apply_op db (Contract_op op) = apply_contract db op"

inductive chain_step :: "database \<Rightarrow> database \<Rightarrow> bool" where
  step_op: "chain_step db (outcome_state (apply_op db op))"
| step_time: "head_time db \<le> t \<Longrightarrow> chain_step db (db\<lparr>head_time := t\<rparr>)"
| step_clear: "chain_step db (clear_virtual db)"

inductive chain_run :: "nat \<Rightarrow> database \<Rightarrow> database \<Rightarrow> bool" where
  run_start: "chain_run 0 db db"
| run_step: "chain_run n db db' \<Longrightarrow> chain_step db' db'' \<Longrightarrow> chain_run (Suc n) db db''"

inductive_cases chain_step_cases: "chain_step db db'"

definition chain_inv :: "database \<Rightarrow> bool" where
  "chain_inv db \<longleftrightarrow> nft_inv db \<and> htlc_inv db \<and> funds_inv db \<and> contract_inv db"

definition ids_below :: "nat \<Rightarrow> database \<Rightarrow> bool" where
  "ids_below k db \<longleftrightarrow>
     unat (next_collection_id db) \<le> k \<and> unat (next_nft_id db) \<le> k \<and>
     unat (next_htlc_id db) \<le> k \<and> unat (next_contract_id db) \<le> k"

section \<open>Frames\<close>

text \<open>What the NFT evaluators leave alone.\<close>

lemma apply_nft_frame:
  assumes "apply_nft db op = Done db'"
  shows "balances db' = balances db \<and> htlcs db' = htlcs db \<and> contracts db' = contracts db \<and>
    contract_storage db' = contract_storage db \<and> next_htlc_id db' = next_htlc_id db \<and>
    next_contract_id db' = next_contract_id db \<and> head_time db' = head_time db"
  using assms
  by (cases op) (auto simp: apply_nft_create_collection_Done apply_nft_mint_Done
      apply_nft_transfer_Done apply_nft_approve_Done apply_nft_set_approval_for_all_Done
      apply_nft_burn_Done)

lemma apply_nft_outcome_frame:
  fixes db op
  defines "db' \<equiv> outcome_state (apply_nft db op)"
  shows "balances db' = balances db" "htlcs db' = htlcs db" "head_time db' = head_time db"
proof -
  have "balances db' = balances db \<and> htlcs db' = htlcs db \<and> head_time db' = head_time db"
  proof (cases "apply_nft db op")
    case (Done d)
    with apply_nft_frame [OF Done] show ?thesis by (simp add: db'_def)
  next
    case (Threw e d)
    with apply_nft_Threw_same [OF Threw] show ?thesis by (simp add: db'_def)
  qed
  then show "balances db' = balances db" "htlcs db' = htlcs db" "head_time db' = head_time db"
    by simp_all
qed

lemma nft_inv_same_elsewhere:
  assumes "nft_inv db" "same_elsewhere db db'" "\<And>a. account_exists db a \<Longrightarrow> account_exists db' a"
  shows "nft_inv db'"
  by (rule nft_inv_frame [OF assms(1)]) (use assms(2,3) in \<open>simp_all add: same_elsewhere_def\<close>)

lemma apply_htlc_frame:
  assumes "apply_htlc db op = Done db'"
  shows "same_elsewhere db db'" "account_exists db' a \<longleftrightarrow> account_exists db a"
proof -
  have "same_elsewhere db db' \<and> (\<forall>a. account_exists db' a \<longleftrightarrow> account_exists db a)"
  proof (cases op)
    case (Htlc_create x)
    with assms apply_htlc_create_Done(7,8) [of db x db'] show ?thesis by (simp add: moved_def)
  next
    case (Htlc_redeem x)
    with assms show ?thesis
      by (auto simp: closes_def moved_def elim!: apply_htlc_redeem_Done)
  next
    case (Htlc_refund x)
    with assms show ?thesis
      by (auto simp: closes_def moved_def elim!: apply_htlc_refund_Done)
  qed
  then show "same_elsewhere db db'" "account_exists db' a \<longleftrightarrow> account_exists db a" by simp_all
qed

lemma funds_inv_frame:
  "funds_inv db \<Longrightarrow> balances db' = balances db \<Longrightarrow> htlcs db' = htlcs db \<Longrightarrow> funds_inv db'"
  by (simp add: funds_inv_def bal_def total_supply_def total_liquid_def total_locked_def)

lemma chain_inv_frame:
  assumes "chain_inv db" and "other_tables_same (db\<lparr>head_time := head_time db'\<rparr>) db'"
    and "contracts db' = contracts db" "contract_storage db' = contract_storage db"
    and "next_contract_id db' = next_contract_id db"
  shows "chain_inv db'"
proof -
  have acc: "account_exists db' a \<longleftrightarrow> account_exists db a" for a
    using assms(2) by (simp add: account_exists_def other_tables_same_def)
  show ?thesis
    using assms acc
    by (auto simp: chain_inv_def other_tables_same_def intro: nft_inv_frame htlc_inv_frame
        funds_inv_frame contract_inv_frame)
qed

section \<open>The invariant along a run\<close>

lemma chain_inv_apply_nft:
  assumes inv: "chain_inv db" and ids: "nft_ids_left db" and ok: "apply_nft db op = Done db'"
  shows "chain_inv db'"
proof -
  note f = apply_nft_frame [OF ok]
  then have acc: "account_exists db' a \<longleftrightarrow> account_exists db a" for a
    by (simp add: account_exists_def)
  have "nft_inv db'"
    using inv ids ok by (auto simp: chain_inv_def intro: nft_inv_apply_nft)
  then show ?thesis
    using inv f acc
    by (auto simp: chain_inv_def intro: htlc_inv_frame funds_inv_frame contract_inv_frame)
qed

lemma chain_inv_apply_htlc:
  assumes inv: "chain_inv db" and ids: "next_htlc_id db \<noteq> - 1"
  shows "chain_inv (outcome_state (apply_htlc db op))"
proof (cases "apply_htlc db op")
  case (Done db')
  note f = apply_htlc_frame [OF Done]
  have "htlc_inv db'" "funds_inv db'"
    using htlc_inv_apply_htlc [of db op] funds_inv_apply_htlc [of db op] inv ids Done
    by (simp_all add: chain_inv_def)
  moreover have "nft_inv db'" "contract_inv db'"
    using inv f
    by (auto simp: chain_inv_def same_elsewhere_def intro: nft_inv_same_elsewhere contract_inv_frame)
  ultimately show ?thesis
    by (simp add: Done chain_inv_def)
next
  case (Threw e db')
  with apply_htlc_Threw [OF Threw] inv show ?thesis
    by (auto simp: other_tables_same_def intro!: chain_inv_frame [of db])
qed

lemma chain_inv_apply_contract:
  assumes inv: "chain_inv db" and ids: "next_contract_id db \<noteq> - 1"
  shows "chain_inv (outcome_state (apply_contract db op))"
proof -
  let ?db' = "outcome_state (apply_contract db op)"
  have k: "contract_inv ?db'"
    using inv ids by (simp add: chain_inv_def contract_inv_apply_contract)
  have o: "other_tables_same db ?db'"
    using inv by (simp add: chain_inv_def apply_contract_other_tables)
  then have acc: "account_exists ?db' a \<longleftrightarrow> account_exists db a" for a
    by (simp add: account_exists_def other_tables_same_def)
  show ?thesis
    using inv k o acc
    by (auto simp: chain_inv_def other_tables_same_def intro: nft_inv_frame htlc_inv_frame
        funds_inv_frame)
qed

lemma ids_below_left:
  assumes "ids_below k db" and "k < 2 ^ 64 - 1"
  shows "nft_ids_left db" "next_htlc_id db \<noteq> - 1" "next_contract_id db \<noteq> - 1"
proof -
  have top: "unat (- 1 :: u64) = 2 ^ 64 - 1"
    by (simp add: unsigned_minus_1_eq_mask mask_eq_exp_minus_1)
  show "nft_ids_left db" "next_htlc_id db \<noteq> - 1" "next_contract_id db \<noteq> - 1"
    using assms top by (auto simp: nft_ids_left_def ids_below_def)
qed

lemma chain_inv_apply_op:
  assumes inv: "chain_inv db" and ids: "ids_below k db" "k < 2 ^ 64 - 1"
  shows "chain_inv (outcome_state (apply_op db op))"
proof (cases op)
  case (Nft_op x)
  then show ?thesis
    using inv chain_inv_apply_nft [OF inv ids_below_left(1) [OF ids]] apply_nft_Threw_same [of db x]
    by (cases "apply_nft db x") auto
qed (simp_all add: chain_inv_apply_htlc [OF inv] chain_inv_apply_contract [OF inv]
    ids_below_left [OF ids])

lemma unat_inc_le: "unat (x + 1 :: u64) \<le> Suc (unat x)"
  by (cases "x = - 1") (simp_all add: unat_plus_1)

definition ids_step :: "database \<Rightarrow> database \<Rightarrow> bool" where
  "ids_step db db' \<longleftrightarrow>
     (next_collection_id db' = next_collection_id db \<or> next_collection_id db' = next_collection_id db + 1) \<and>
     (next_nft_id db' = next_nft_id db \<or> next_nft_id db' = next_nft_id db + 1) \<and>
     (next_htlc_id db' = next_htlc_id db \<or> next_htlc_id db' = next_htlc_id db + 1) \<and>
     (next_contract_id db' = next_contract_id db \<or> next_contract_id db' = next_contract_id db + 1)"

lemma ids_below_step: "ids_below k db \<Longrightarrow> ids_step db db' \<Longrightarrow> ids_below (Suc k) db'"
  using unat_inc_le [of "next_collection_id db"] unat_inc_le [of "next_nft_id db"]
    unat_inc_le [of "next_htlc_id db"] unat_inc_le [of "next_contract_id db"]
  by (auto simp: ids_below_def ids_step_def)

lemma ids_step_nft: "apply_nft db op = Done db' \<Longrightarrow> ids_step db db'"
  by (cases op) (auto simp: ids_step_def apply_nft_create_collection_Done apply_nft_mint_Done
      apply_nft_transfer_Done apply_nft_approve_Done apply_nft_set_approval_for_all_Done
      apply_nft_burn_Done)

lemma ids_step_htlc:
  assumes "apply_htlc db op = Done db'"
  shows "ids_step db db'"
proof -
  have "next_htlc_id db' = next_htlc_id db \<or> next_htlc_id db' = next_htlc_id db + 1"
    using assms apply_htlc_create_Done(10)
    by (cases op) (auto simp: closes_def elim!: apply_htlc_redeem_Done apply_htlc_refund_Done)
  with apply_htlc_frame(1) [OF assms] show ?thesis
    by (simp add: ids_step_def same_elsewhere_def)
qed

lemma ids_step_contract:
  assumes inv: "contract_inv db"
  shows "ids_step db (outcome_state (apply_contract db op))"
proof -
  let ?db' = "outcome_state (apply_contract db op)"
  have "next_contract_id ?db' = next_contract_id db \<or> next_contract_id ?db' = next_contract_id db + 1"
  proof (cases op)
    case (Contract_deploy x)
    then show ?thesis
      using dh.deploy_Done(5) [of db x] dh.deploy_Threw [of db x]
      by (cases "apply_contract_deploy db x") (auto simp: apply_contract_deploy_def)
  next
    case (Contract_call x)
    have "next_contract_id (outcome_state (apply_contract_call db x)) = next_contract_id db"
    proof (cases "apply_contract_call db x")
      case (Done db')
      then show ?thesis
        by (simp add: apply_contract_call_def) (erule dh.call_Done)
    next
      case (Threw e db')
      then show ?thesis
        using dh.call_Threw_storage(3) [OF inv, of x e db'] by (simp add: apply_contract_call_def)
    qed
    with Contract_call show ?thesis by simp
  qed
  with apply_contract_other_tables [OF inv, of op] show ?thesis
    by (simp add: ids_step_def other_tables_same_def)
qed

lemma ids_step_apply_op:
  assumes inv: "chain_inv db"
  shows "ids_step db (outcome_state (apply_op db op))"
proof (cases op)
  case (Nft_op x)
  then show ?thesis
    using ids_step_nft [of db x] apply_nft_Threw_same [of db x]
    by (cases "apply_nft db x") (auto simp: ids_step_def)
next
  case (Htlc_op x)
  then show ?thesis
    using ids_step_htlc [of db x] apply_htlc_Threw [of db x]
    by (cases "apply_htlc db x") (auto simp: ids_step_def)
next
  case (Contract_op x)
  then show ?thesis
    using inv ids_step_contract [of db x] by (simp add: chain_inv_def)
qed

lemma chain_step_ids: "chain_step db db' \<Longrightarrow> chain_inv db \<Longrightarrow> ids_step db db'"
  by (elim chain_step_cases) (auto simp: ids_step_apply_op, auto simp: ids_step_def clear_virtual_def)

lemma chain_inv_step:
  assumes "chain_step db db'" and inv: "chain_inv db" and ids: "ids_below k db" "k < 2 ^ 64 - 1"
  shows "chain_inv db'"
  using assms(1)
proof (cases rule: chain_step.cases)
  case (step_op op)
  then show ?thesis using chain_inv_apply_op [OF inv ids] by simp
next
  case (step_time t)
  then show ?thesis using inv by (auto simp: other_tables_same_def intro!: chain_inv_frame [of db])
next
  case step_clear
  then show ?thesis
    using inv by (auto simp: other_tables_same_def clear_virtual_def intro!: chain_inv_frame [of db])
qed

lemma chain_run_inv:
  assumes "chain_run n db db'" and "chain_inv db" and "ids_below k db" and "k + n < 2 ^ 64"
  shows "chain_inv db' \<and> ids_below (k + n) db'"
  using assms
proof (induction rule: chain_run.induct)
  case (run_step n db db' db'')
  then have IH: "chain_inv db'" "ids_below (k + n) db'" and room: "k + n < 2 ^ 64 - 1"
    by simp_all
  from chain_inv_step [OF run_step.hyps(2) IH room]
    ids_below_step [OF IH(2) chain_step_ids [OF run_step.hyps(2) IH(1)]]
  show ?case by simp
qed simp

section \<open>Relations along a run\<close>

locale run_relation =
  fixes R :: "database \<Rightarrow> database \<Rightarrow> bool"
  assumes R_refl: "R db db"
    and R_trans: "R db db' \<Longrightarrow> R db' db'' \<Longrightarrow> R db db''"
    and R_step: "chain_inv db \<Longrightarrow> nft_ids_left db \<Longrightarrow> chain_step db db' \<Longrightarrow> R db db'"
begin

lemma run:
  assumes "chain_run n db db'" and "chain_inv db" and "ids_below k db" and "k + n < 2 ^ 64"
  shows "R db db'"
  using assms
proof (induction rule: chain_run.induct)
  case (run_start db)
  show ?case by (rule R_refl)
next
  case (run_step n db db' db'')
  have room: "k + n < 2 ^ 64 - 1" "k + n < 2 ^ 64"
    using run_step.prems(3) by simp_all
  from chain_run_inv [OF run_step.hyps(1) run_step.prems(1,2) room(2)]
  have "chain_inv db'" "nft_ids_left db'"
    using ids_below_left(1) room(1) by auto
  from R_step [OF this run_step.hyps(2)] run_step.IH [OF run_step.prems(1,2) room(2)]
  show ?case by (blast intro: R_trans)
qed

end

text \<open>The supply of each asset.\<close>

definition same_supply :: "database \<Rightarrow> database \<Rightarrow> bool" where
  "same_supply db db' \<longleftrightarrow> (\<forall>sy. total_supply sy db' = total_supply sy db)"

lemma same_supply_op:
  assumes inv: "chain_inv db"
  shows "same_supply db (outcome_state (apply_op db op))"
proof (cases op)
  case (Nft_op x)
  then show ?thesis
    by (auto simp: same_supply_def apply_nft_outcome_frame intro!: total_supply_cong)
next
  case (Htlc_op x)
  with inv show ?thesis
    by (simp add: same_supply_def chain_inv_def total_supply_apply_htlc)
next
  case (Contract_op x)
  with inv apply_contract_other_tables [of db x] show ?thesis
    by (auto simp: same_supply_def chain_inv_def other_tables_same_def intro!: total_supply_cong)
qed

interpretation funds: run_relation same_supply
proof
  fix db db' db''
  show "same_supply db db" by (simp add: same_supply_def)
  show "same_supply db db' \<Longrightarrow> same_supply db' db'' \<Longrightarrow> same_supply db db''"
    by (simp add: same_supply_def)
  show "same_supply db db'" if "chain_inv db" "chain_step db db'"
    using that(2)
  proof (cases rule: chain_step.cases)
    case (step_op op)
    then show ?thesis using same_supply_op [OF that(1)] by simp
  qed (auto simp: same_supply_def clear_virtual_def intro!: total_supply_cong)
qed

text \<open>The life of a lock: it keeps all its terms; once closed it stays as it is; it is
  redeemed only before and refunded only after its expiration. The head time never moves
  back.\<close>

definition lock_after :: "database \<Rightarrow> database \<Rightarrow> htlc_object \<Rightarrow> htlc_object \<Rightarrow> bool" where
  "lock_after db db' h h' \<longleftrightarrow>
     (\<exists>st. h' = h\<lparr>h_status := st\<rparr>) \<and> (h_status h \<noteq> Open \<longrightarrow> h_status h' = h_status h) \<and>
     (h_status h = Open \<and> h_status h' = Redeemed \<longrightarrow> head_time db < h_expiration h) \<and>
     (h_status h = Open \<and> h_status h' = Refunded \<longrightarrow> h_expiration h \<le> head_time db')"

definition locks_progress :: "database \<Rightarrow> database \<Rightarrow> bool" where
  "locks_progress db db' \<longleftrightarrow>
     head_time db \<le> head_time db' \<and>
     (\<forall>i h. om_find (htlcs db) i = Some h \<longrightarrow>
        (\<exists>h'. om_find (htlcs db') i = Some h' \<and> lock_after db db' h h'))"

lemma htlc_same_status: "\<exists>st. h = h\<lparr>h_status := st\<rparr>" for h :: htlc_object
  by (rule exI [of _ "h_status h"]) simp

lemma lock_after_refl: "lock_after db db' h h"
  using htlc_same_status by (auto simp: lock_after_def)

lemma lock_after_trans:
  assumes "lock_after db db' h h'" "lock_after db' db'' h' h''"
    and "head_time db \<le> head_time db'" "head_time db' \<le> head_time db''"
  shows "lock_after db db'' h h''"
proof -
  from assms(1,2) obtain st st' where "h' = h\<lparr>h_status := st\<rparr>" "h'' = h'\<lparr>h_status := st'\<rparr>"
    unfolding lock_after_def by blast
  then have h'': "h'' = h\<lparr>h_status := st'\<rparr>" and
    fields: "h_expiration h' = h_expiration h" "h_status h' = st" "h_status h'' = st'"
    by simp_all
  note steps = assms(1,2) [unfolded lock_after_def fields, THEN conjunct2]
  have "(h_status h \<noteq> Open \<longrightarrow> st' = h_status h) \<and>
      (h_status h = Open \<and> st' = Redeemed \<longrightarrow> head_time db < h_expiration h) \<and>
      (h_status h = Open \<and> st' = Refunded \<longrightarrow> h_expiration h \<le> head_time db'')"
    using steps assms(3,4) by (cases st) auto
  with h'' show ?thesis unfolding lock_after_def fields by blast
qed

lemma locks_progress_same:
  "htlcs db' = htlcs db \<Longrightarrow> head_time db \<le> head_time db' \<Longrightarrow> locks_progress db db'"
  by (auto simp: locks_progress_def lock_after_refl)

lemma locks_progress_htlc:
  assumes inv: "htlc_inv db" and ok: "apply_htlc db op = Done db'"
  shows "locks_progress db db'"
proof -
  have time: "head_time db' = head_time db"
    using apply_htlc_frame(1) [OF ok] by (simp add: same_elsewhere_def)
  have "\<exists>h'. om_find (htlcs db') i = Some h' \<and> lock_after db db' h h'"
    if h: "om_find (htlcs db) i = Some h" for i h
    using escrow_step_lock [OF apply_htlc_refines_escrow [OF inv ok], of i h] h
    by (auto simp: escrow_of_def lock_after_def time htlc_same_status)
  then show ?thesis by (simp add: locks_progress_def time)
qed

interpretation locks: run_relation locks_progress
proof
  fix db db' db''
  show "locks_progress db db" by (rule locks_progress_same) simp_all
  show "locks_progress db db''" if "locks_progress db db'" "locks_progress db' db''"
  proof -
    note t = that [unfolded locks_progress_def]
    have "\<exists>h''. om_find (htlcs db'') i = Some h'' \<and> lock_after db db'' h h''"
      if "om_find (htlcs db) i = Some h" for i h
    proof -
      from t(1) that obtain h' where h': "om_find (htlcs db') i = Some h'" "lock_after db db' h h'"
        by blast
      from t(2) h'(1) obtain h'' where "om_find (htlcs db'') i = Some h''" "lock_after db' db'' h' h''"
        by blast
      with t h' lock_after_trans show ?thesis by blast
    qed
    with t show ?thesis by (auto simp: locks_progress_def intro: order_trans)
  qed
  show "locks_progress db db'" if inv: "chain_inv db" and step: "chain_step db db'"
    using step
  proof (cases rule: chain_step.cases)
    case (step_op op)
    then show ?thesis
    proof (cases op)
      case (Nft_op x)
      with step_op show ?thesis
        by (auto simp: apply_nft_outcome_frame intro!: locks_progress_same)
    next
      case (Htlc_op x)
      with step_op inv show ?thesis
        using locks_progress_htlc [of db x] apply_htlc_Threw [of db x]
        by (cases "apply_htlc db x") (auto simp: chain_inv_def intro!: locks_progress_same)
    next
      case (Contract_op x)
      with step_op inv apply_contract_other_tables [of db x] show ?thesis
        by (auto simp: chain_inv_def other_tables_same_def intro!: locks_progress_same)
    qed
  qed (auto simp: clear_virtual_def intro!: locks_progress_same)
qed

text \<open>The life of a token: its identity and content never change, a soulbound token never
  changes hands, and an id that is no longer in use is never used again.\<close>

definition token_after :: "nft_object \<Rightarrow> nft_object \<Rightarrow> bool" where
  "token_after n n' \<longleftrightarrow>
     n_id n' = n_id n \<and> n_collection n' = n_collection n \<and> n_token_serial n' = n_token_serial n \<and>
     n_metadata_hash n' = n_metadata_hash n \<and> n_uri n' = n_uri n \<and>
     n_soulbound n' = n_soulbound n \<and> n_minted n' = n_minted n \<and>
     (n_soulbound n \<longrightarrow> n_owner n' = n_owner n)"

definition tokens_progress :: "database \<Rightarrow> database \<Rightarrow> bool" where
  "tokens_progress db db' \<longleftrightarrow>
     next_nft_id db \<le> next_nft_id db' \<and>
     (\<forall>i n'. i < next_nft_id db \<longrightarrow> om_find (nfts db') i = Some n' \<longrightarrow>
        (\<exists>n. om_find (nfts db) i = Some n \<and> token_after n n'))"

lemma token_after_refl: "token_after n n"
  by (simp add: token_after_def)

lemma token_after_trans: "token_after n n' \<Longrightarrow> token_after n' n'' \<Longrightarrow> token_after n n''"
  by (simp add: token_after_def)

lemma tokens_progress_same:
  "nfts db' = nfts db \<Longrightarrow> next_nft_id db' = next_nft_id db \<Longrightarrow> tokens_progress db db'"
  by (simp add: tokens_progress_def token_after_refl)

lemma tokens_progress_trans:
  assumes "tokens_progress db db'" "tokens_progress db' db''"
  shows "tokens_progress db db''"
proof -
  note t = assms [unfolded tokens_progress_def]
  have "\<exists>n. om_find (nfts db) i = Some n \<and> token_after n n''"
    if "i < next_nft_id db" "om_find (nfts db'') i = Some n''" for i n''
  proof -
    from that(1) t(1) have "i < next_nft_id db'" by auto
    with t(2) that(2) obtain n' where "om_find (nfts db') i = Some n'" "token_after n' n''"
      by blast
    moreover from this(1) t(1) that(1) obtain n where "om_find (nfts db) i = Some n" "token_after n n'"
      by blast
    ultimately show ?thesis using token_after_trans by blast
  qed
  with t show ?thesis by (auto simp: tokens_progress_def)
qed

lemma tokens_progress_nft:
  assumes "nft_ids_left db" and "apply_nft db op = Done db'"
  shows "tokens_progress db db'"
proof -
  have inc: "next_nft_id db \<le> next_nft_id db + 1" "\<not> next_nft_id db < next_nft_id db"
    using assms(1) less_plus_1_iff [of "next_nft_id db" "next_nft_id db"]
    by (auto simp: nft_ids_left_def)
  show ?thesis
    using assms(2) inc
    by (cases op)
      (auto simp: tokens_progress_def token_after_def apply_nft_create_collection_Done
        apply_nft_mint_Done apply_nft_transfer_Done apply_nft_approve_Done
        apply_nft_set_approval_for_all_Done apply_nft_burn_Done split: if_splits)
qed

interpretation tokens: run_relation tokens_progress
proof
  fix db db' db''
  show "tokens_progress db db" by (rule tokens_progress_same) simp_all
  show "tokens_progress db db' \<Longrightarrow> tokens_progress db' db'' \<Longrightarrow> tokens_progress db db''"
    by (rule tokens_progress_trans)
  show "tokens_progress db db'"
    if inv: "chain_inv db" and ids: "nft_ids_left db" and step: "chain_step db db'"
    using step
  proof (cases rule: chain_step.cases)
    case (step_op op)
    then show ?thesis
    proof (cases op)
      case (Nft_op x)
      show ?thesis
      proof (cases "apply_nft db x")
        case (Done d)
        with tokens_progress_nft [OF ids Done] step_op Nft_op show ?thesis by simp
      next
        case (Threw e d)
        with apply_nft_Threw_same [OF Threw] step_op Nft_op tokens_progress_same show ?thesis
          by simp
      qed
    next
      case (Htlc_op x)
      show ?thesis
      proof (cases "apply_htlc db x")
        case (Done d)
        with apply_htlc_frame(1) [OF Done] step_op Htlc_op show ?thesis
          by (simp add: same_elsewhere_def tokens_progress_same)
      next
        case (Threw e d)
        with apply_htlc_Threw [OF Threw] step_op Htlc_op show ?thesis
          by (auto intro!: tokens_progress_same)
      qed
    next
      case (Contract_op x)
      with step_op inv apply_contract_other_tables [of db x] show ?thesis
        by (auto simp: chain_inv_def other_tables_same_def intro!: tokens_progress_same)
    qed
  qed (auto simp: clear_virtual_def intro!: tokens_progress_same)
qed

section \<open>Exceptions\<close>

lemma null_call_throws:
  assumes "null_call code ex args st lim caller = Inl e"
  shows "\<exists>e'. parse_command args = Malformed e'"
proof (cases "code = [] \<or> ex = []")
  case True
  with assms show ?thesis by (cases "code = []") (auto simp: null_call_def Let_def)
next
  case False
  with assms have run: "burn_or_return empty_result lim 50 (\<lambda>r. run_command lim r (parse_command args)) = Inl e"
    by (simp add: null_call_eq)
  then obtain r where "run_command lim r (parse_command args) = Inl e"
    by (auto simp: burn_or_return_def Let_def split: prod.splits if_splits)
  then show ?thesis
    by (cases "parse_command args")
      (auto simp: burn_or_return_def Let_def split: prod.splits if_splits)
qed

lemma protocol_outcome_contract:
  assumes "\<And>x e. op = Contract_call x \<Longrightarrow> parse_command (cc_args x) \<noteq> Malformed e"
  shows "protocol_outcome (apply_contract db op)"
proof (cases op)
  case (Contract_deploy x)
  have "protocol_only (null_deploy_and_init c i l)" for c i l
    using null_deploy_total [of c i l] by (auto simp: protocol_intros)
  then show ?thesis
    unfolding Contract_deploy apply_contract.simps apply_contract_deploy_def
      apply_contract_deploy_on_def Let_def
    by (intro protocol_intros) (simp_all add: default_engine_def null_engine_def)
next
  case (Contract_call x)
  have "protocol_only (null_call c ex (cc_args x) st l a)" for c ex st l a
    using null_call_throws assms [OF Contract_call] by (fastforce simp: protocol_only_def)
  then show ?thesis
    unfolding Contract_call apply_contract.simps apply_contract_call_def
      apply_contract_call_on_def Let_def
    by (intro protocol_intros) (auto simp: default_engine_def null_engine_def intro: protocol_intros)
qed

section \<open>Genesis\<close>

text \<open>A chain starts from the empty database by creating accounts with their balances.\<close>

fun genesis :: "database \<Rightarrow> (account_name_type \<times> share_type \<times> share_type) list \<Rightarrow> database outcome" where
  "genesis db [] = Done db"
| "genesis db ((name, hive, hbd) # accs) =
     and_then (create_account db name hive hbd) (\<lambda>db. genesis db accs)"

definition non_negative :: "(account_name_type \<times> share_type \<times> share_type) list \<Rightarrow> bool" where
  "non_negative accs \<longleftrightarrow> (\<forall>(name, hive, hbd) \<in> set accs. 0 \<le> sint hive \<and> 0 \<le> sint hbd)"

definition tables_empty :: "database \<Rightarrow> bool" where
  "tables_empty db \<longleftrightarrow>
     collections db = om_empty \<and> collection_by_symbol db = om_empty \<and> nfts db = om_empty \<and>
     operators db = om_empty \<and> htlcs db = om_empty \<and> contracts db = om_empty \<and>
     contract_storage db = om_empty \<and> next_collection_id db = 1 \<and> next_nft_id db = 1 \<and>
     next_htlc_id db = 1 \<and> next_contract_id db = 1"

lemma tables_empty_inv:
  "tables_empty db \<Longrightarrow> nft_inv db \<and> htlc_inv db \<and> contract_inv db \<and> ids_below 1 db"
  by (simp add: tables_empty_def nft_inv_defs htlc_inv_def contract_inv_def table_ok_empty
      open_htlcs_def ids_below_def)

lemma genesis_tables:
  "genesis db accs = Done g \<Longrightarrow> tables_empty db \<Longrightarrow> \<forall>sy a. 0 \<le> bal db sy a \<Longrightarrow>
     non_negative accs \<Longrightarrow> tables_empty g \<and> (\<forall>sy a. 0 \<le> bal g sy a)"
proof (induction db accs rule: genesis.induct)
  case (2 db name hive hbd accs)
  from "2.prems"(1) obtain db1 where db1: "create_account db name hive hbd = Done db1"
    and rest: "genesis db1 accs = Done g"
    by (auto simp: and_then_Done)
  from db1 have upd: "db1 = db\<lparr>balances := om_put (balances db) name \<lparr>b_hive = hive, b_hbd = hbd\<rparr>\<rparr>"
    by (auto simp: create_account_def attempt_Done)
  have "tables_empty db1"
    using "2.prems"(2) by (simp add: upd tables_empty_def)
  moreover have "\<forall>sy a. 0 \<le> bal db1 sy a"
    using "2.prems"(3,4) by (auto simp: upd bal_def balance_field_def non_negative_def)
  moreover have "non_negative accs"
    using "2.prems"(4) by (simp add: non_negative_def)
  ultimately show ?case
    using "2.IH" [OF rest] by blast
qed simp

lemma genesis_chain_inv:
  assumes "genesis empty_database accs = Done g" and "non_negative accs"
    and "\<forall>sy. total_supply sy g \<le> INT64_MAX"
  shows "chain_inv g" "ids_below 1 g"
proof -
  have "tables_empty empty_database" "\<forall>sy a. 0 \<le> bal empty_database sy a"
    by (simp_all add: tables_empty_def empty_database_def bal_def)
  from genesis_tables [OF assms(1) this assms(2)] tables_empty_inv [of g] assms(3)
  show "chain_inv g" "ids_below 1 g"
    by (auto simp: chain_inv_def funds_inv_def)
qed

definition demo_accounts :: "(account_name_type \<times> share_type \<times> share_type) list" where
  "demo_accounts = [(''alice'', 1000000, 1000000), (''bob'', 1000000, 1000000)]"

definition demo_genesis :: database where
  "demo_genesis = empty_database\<lparr>balances :=
     om_put (om_put om_empty ''alice'' \<lparr>b_hive = 1000000, b_hbd = 1000000\<rparr>)
       ''bob'' \<lparr>b_hive = 1000000, b_hbd = 1000000\<rparr>\<rparr>"

lemma demo_genesis:
  "genesis empty_database demo_accounts = Done demo_genesis" "non_negative demo_accounts"
  "\<forall>sy. total_supply sy demo_genesis \<le> INT64_MAX"
proof -
  show "genesis empty_database demo_accounts = Done demo_genesis"
    by (simp add: demo_accounts_def demo_genesis_def create_account_def empty_database_def
        account_name_ok_def hive_constants)
  show "non_negative demo_accounts"
    by (simp add: non_negative_def demo_accounts_def)
  have "total_supply sy demo_genesis = 2000000" for sy
    by (simp add: total_supply_def total_liquid_def total_locked_def demo_genesis_def
        empty_database_def om_sum_put balance_field_def)
  then show "\<forall>sy. total_supply sy demo_genesis \<le> INT64_MAX"
    by (simp add: INT64_MAX_def)
qed

end
