(* ===== verification/Json.thy ===== *)
theory Json
  imports Hive_Prelude "HOL-Library.Monad_Syntax"
begin

text \<open>
  The JSON objects that the evaluators put together with \<open>operator<<\<close>, without escaping: flat, with
  numbers, strings and truth values. The reader parses such an object; \<open>read_object_show\<close> shows
  that it inverts the writer for strings without a double quote.
\<close>

section \<open>Writer and reader\<close>

datatype json_value = J_num u64 | J_str string | J_bool bool

abbreviation quote :: char where
  "quote \<equiv> CHR 0x22"

fun show_value :: "json_value \<Rightarrow> string" where
  "show_value (J_num n) = dec_u64 n"
| "show_value (J_str s) = quote # s @ [quote]"
| "show_value (J_bool b) = (if b then ''true'' else ''false'')"

fun show_fields :: "(string \<times> json_value) list \<Rightarrow> string" where
  "show_fields [] = []"
| "show_fields [(k, v)] = quote # k @ [quote, CHR '':''] @ show_value v @ ''}''"
| "show_fields ((k, v) # fs) = quote # k @ [quote, CHR '':''] @ show_value v @ '','' @ show_fields fs"

definition show_object :: "(string \<times> json_value) list \<Rightarrow> string" where
  "show_object fs = CHR ''{'' # show_fields fs"

definition read_string :: "string \<Rightarrow> (string \<times> string) option" where
  "read_string s =
     (case dropWhile (\<lambda>c. c \<noteq> quote) s of
        [] \<Rightarrow> None
      | q # r \<Rightarrow> Some (takeWhile (\<lambda>c. c \<noteq> quote) s, r))"

definition read_value :: "string \<Rightarrow> (json_value \<times> string) option" where
  "read_value s =
     (case s of
        [] \<Rightarrow> None
      | c # r \<Rightarrow>
          if c = quote then map_option (\<lambda>(t, r). (J_str t, r)) (read_string r)
          else if is_digit c
          then Some (J_num (of_nat (nat_of_dec (takeWhile is_digit s))), dropWhile is_digit s)
          else if take 4 s = ''true'' then Some (J_bool True, drop 4 s)
          else if take 5 s = ''false'' then Some (J_bool False, drop 5 s)
          else None)"

text \<open>The fuel bounds the number of fields.\<close>

fun read_fields :: "nat \<Rightarrow> string \<Rightarrow> (string \<times> json_value) list option" where
  "read_fields 0 s = None"
| "read_fields (Suc n) s =
     (case s of
        [] \<Rightarrow> None
      | q # s \<Rightarrow>
        if q \<noteq> quote then None
        else do {
          (k, s) \<leftarrow> read_string s;
          (v, s) \<leftarrow> (case s of [] \<Rightarrow> None | c # s \<Rightarrow> if c = CHR '':'' then read_value s else None);
          (case s of
             [] \<Rightarrow> None
           | c # s \<Rightarrow>
               if c = CHR '','' then map_option (Cons (k, v)) (read_fields n s)
               else if c = CHR ''}'' \<and> s = [] then Some [(k, v)]
               else None)
        })"

definition read_object :: "string \<Rightarrow> (string \<times> json_value) list option" where
  "read_object s =
     (case s of [] \<Rightarrow> None | c # r \<Rightarrow> if c = CHR ''{'' then read_fields (length r) r else None)"

fun value_ok :: "json_value \<Rightarrow> bool" where
  "value_ok (J_str s) \<longleftrightarrow> quote \<notin> set s"
| "value_ok _ \<longleftrightarrow> True"

definition fields_ok :: "(string \<times> json_value) list \<Rightarrow> bool" where
  "fields_ok fs \<longleftrightarrow> (\<forall>(k, v) \<in> set fs. quote \<notin> set k \<and> value_ok v)"

section \<open>Round trip\<close>

lemma read_string_show: "quote \<notin> set s \<Longrightarrow> read_string (s @ quote # r) = Some (s, r)"
  by (induction s) (auto simp: read_string_def split: list.splits)

lemma read_value_show:
  assumes "value_ok v" and "\<not> is_digit c"
  shows "read_value (show_value v @ c # r) = Some (v, c # r)"
proof (cases v)
  case (J_num n)
  let ?d = "dec_of_nat (unat n)"
  obtain d ds where d: "?d = d # ds" by (cases ?d) simp_all
  have dig: "\<forall>x \<in> set ?d. is_digit x" using dec_of_nat_digits by blast
  then have "d \<noteq> quote" "is_digit d" using d by (auto simp: is_digit_def)
  moreover have "takeWhile is_digit (?d @ c # r) = ?d" "dropWhile is_digit (?d @ c # r) = c # r"
    using dig assms(2) by (simp_all add: takeWhile_append2 dropWhile_append2)
  moreover have "of_nat (nat_of_dec ?d) = n" by simp
  ultimately show ?thesis by (simp add: J_num read_value_def dec_u64_def d)
qed (use assms in \<open>auto simp: read_value_def read_string_show is_digit_def\<close>)

lemma read_fields_show:
  assumes "fields_ok fs" "fs \<noteq> []" "length fs \<le> n"
  shows "read_fields n (show_fields fs) = Some fs"
  using assms
proof (induction fs arbitrary: n rule: show_fields.induct)
  case (2 k v)
  then obtain m where "n = Suc m" by (cases n) auto
  with 2 show ?case
    using read_value_show [of v "CHR ''}''" "[]"]
    by (simp add: fields_ok_def read_string_show is_digit_def)
next
  case (3 k v f fs)
  then obtain m where n: "n = Suc m" by (cases n) auto
  with 3 have "read_fields m (show_fields (f # fs)) = Some (f # fs)" by (simp add: fields_ok_def)
  with 3 n show ?case
    using read_value_show [of v "CHR '',''" "show_fields (f # fs)"]
    by (simp add: fields_ok_def read_string_show is_digit_def)
qed simp

lemma show_fields_length: "length fs \<le> length (show_fields fs)"
  by (induction fs rule: show_fields.induct) simp_all

lemma read_object_show: "fields_ok fs \<Longrightarrow> fs \<noteq> [] \<Longrightarrow> read_object (show_object fs) = Some fs"
  by (simp add: read_object_def show_object_def read_fields_show show_fields_length)

end
