(* ===== verification/Virtual_Ops.thy ===== *)
theory Virtual_Ops
  imports Chain_System Json
begin

text \<open>
  The typed virtual operations of \<open>include/hive_native/protocol/\<close>: one record per struct, a
  datatype for their sum, and \<open>payload\<close>, the JSON text by which the evaluators announce such
  an operation with \<open>db.push_virtual(name, json)\<close>. \<open>announced\<close> is the typed operation an
  evaluator call stands for; \<open>op_queues\<close> shows that every operation, applied or rejected, queues
  exactly the payload of it.
\<close>

section \<open>The virtual operation structs\<close>

record nft_collection_created_operation =
  vcc_collection :: collection_id_type
  vcc_creator :: account_name_type
  vcc_symbol :: string

record nft_minted_operation =
  vnm_nft_id :: nft_id_type
  vnm_collection :: collection_id_type
  vnm_to :: account_name_type
  vnm_metadata_hash :: bytes

record nft_transferred_operation =
  vnt_nft_id :: nft_id_type
  vnt_from :: account_name_type
  vnt_to :: account_name_type

record nft_approved_operation =
  vna_nft_id :: nft_id_type
  vna_owner :: account_name_type
  vna_approved :: account_name_type

record nft_approval_for_all_operation =
  vns_owner :: account_name_type
  vns_operator_account :: account_name_type
  vns_collection :: collection_id_type
  vns_approved :: bool

record nft_burned_operation =
  vnb_nft_id :: nft_id_type
  vnb_owner :: account_name_type
  vnb_collection :: collection_id_type

record htlc_created_operation =
  vhc_htlc_id :: htlc_id_type
  vhc_from :: account_name_type
  vhc_to :: account_name_type
  vhc_amount :: asset
  vhc_expiration :: time_point_sec

record htlc_redeemed_operation =
  vhr_htlc_id :: htlc_id_type
  vhr_from :: account_name_type
  vhr_to :: account_name_type
  vhr_amount :: asset

record htlc_refunded_operation =
  vhf_htlc_id :: htlc_id_type
  vhf_from :: account_name_type
  vhf_amount :: asset

record contract_deployed_operation =
  vcd_contract_id :: contract_id_type
  vcd_owner :: account_name_type
  vcd_code_hash :: bytes

record contract_called_operation =
  vcl_contract_id :: contract_id_type
  vcl_caller :: account_name_type
  vcl_fuel_used :: u64
  vcl_success :: bool

datatype virtual_operation =
    Nft_collection_created nft_collection_created_operation
  | Nft_minted nft_minted_operation
  | Nft_transferred nft_transferred_operation
  | Nft_approved nft_approved_operation
  | Nft_approval_for_all nft_approval_for_all_operation
  | Nft_burned nft_burned_operation
  | Htlc_created htlc_created_operation
  | Htlc_redeemed htlc_redeemed_operation
  | Htlc_refunded htlc_refunded_operation
  | Contract_deployed contract_deployed_operation
  | Contract_called contract_called_operation

text \<open>The name and the fields an evaluator writes for each of them.\<close>

fun event_name :: "virtual_operation \<Rightarrow> string" where
  "event_name (Nft_collection_created v) = ''nft_collection_created''"
| "event_name (Nft_minted v) = ''nft_minted''"
| "event_name (Nft_transferred v) = ''nft_transferred''"
| "event_name (Nft_approved v) = ''nft_approved''"
| "event_name (Nft_approval_for_all v) = ''nft_approval_for_all''"
| "event_name (Nft_burned v) = ''nft_burned''"
| "event_name (Htlc_created v) = ''htlc_created''"
| "event_name (Htlc_redeemed v) = ''htlc_redeemed''"
| "event_name (Htlc_refunded v) = ''htlc_refunded''"
| "event_name (Contract_deployed v) = ''contract_deployed''"
| "event_name (Contract_called v) = ''contract_called''"

fun event_fields :: "virtual_operation \<Rightarrow> (string \<times> json_value) list" where
  "event_fields (Nft_collection_created v) =
     [(''id'', J_num (vcc_collection v)), (''symbol'', J_str (vcc_symbol v))]"
| "event_fields (Nft_minted v) =
     [(''nft_id'', J_num (vnm_nft_id v)), (''to'', J_str (vnm_to v))]"
| "event_fields (Nft_transferred v) =
     [(''nft_id'', J_num (vnt_nft_id v)), (''from'', J_str (vnt_from v)), (''to'', J_str (vnt_to v))]"
| "event_fields (Nft_approved v) =
     [(''nft_id'', J_num (vna_nft_id v)), (''approved'', J_str (vna_approved v))]"
| "event_fields (Nft_approval_for_all v) =
     [(''owner'', J_str (vns_owner v)), (''operator'', J_str (vns_operator_account v)),
      (''collection'', J_num (vns_collection v)), (''approved'', J_bool (vns_approved v))]"
| "event_fields (Nft_burned v) =
     [(''nft_id'', J_num (vnb_nft_id v)), (''owner'', J_str (vnb_owner v))]"
| "event_fields (Htlc_created v) =
     [(''htlc_id'', J_num (vhc_htlc_id v)), (''from'', J_str (vhc_from v)), (''to'', J_str (vhc_to v))]"
| "event_fields (Htlc_redeemed v) =
     [(''htlc_id'', J_num (vhr_htlc_id v)), (''to'', J_str (vhr_to v))]"
| "event_fields (Htlc_refunded v) =
     [(''htlc_id'', J_num (vhf_htlc_id v)), (''from'', J_str (vhf_from v))]"
| "event_fields (Contract_deployed v) =
     [(''contract_id'', J_num (vcd_contract_id v)), (''owner'', J_str (vcd_owner v))]"
| "event_fields (Contract_called v) =
     [(''contract_id'', J_num (vcl_contract_id v)), (''success'', J_bool (vcl_success v)),
      (''fuel'', J_num (vcl_fuel_used v))]"

definition payload :: "virtual_operation \<Rightarrow> virtual_op" where
  "payload v = \<lparr>v_name = event_name v, v_payload_json = show_object (event_fields v)\<rparr>"

text \<open>The texts leave fields of the structs out.\<close>

lemma payload_ignores:
  "payload (Nft_minted (v1\<lparr>vnm_collection := k, vnm_metadata_hash := m\<rparr>)) = payload (Nft_minted v1)"
  "payload (Nft_burned (v2\<lparr>vnb_collection := k\<rparr>)) = payload (Nft_burned v2)"
  "payload (Htlc_created (v3\<lparr>vhc_amount := x, vhc_expiration := t\<rparr>)) = payload (Htlc_created v3)"
  "payload (Htlc_redeemed (v4\<lparr>vhr_from := a, vhr_amount := x\<rparr>)) = payload (Htlc_redeemed v4)"
  "payload (Htlc_refunded (v5\<lparr>vhf_amount := x\<rparr>)) = payload (Htlc_refunded v5)"
  by (simp_all add: payload_def)

section \<open>What an operation announces\<close>

fun nft_event :: "database \<Rightarrow> nft_operation \<Rightarrow> virtual_operation option" where
  "nft_event db (Nft_create_collection op) = Some (Nft_collection_created
     \<lparr>vcc_collection = next_collection_id db, vcc_creator = ncc_creator op, vcc_symbol = ncc_symbol op\<rparr>)"
| "nft_event db (Nft_mint op) = Some (Nft_minted
     \<lparr>vnm_nft_id = next_nft_id db, vnm_collection = nm_collection op, vnm_to = nm_to op,
      vnm_metadata_hash = nm_metadata_hash op\<rparr>)"
| "nft_event db (Nft_transfer op) =
     map_option (\<lambda>n. Nft_transferred \<lparr>vnt_nft_id = nt_nft_id op, vnt_from = n_owner n, vnt_to = nt_to op\<rparr>)
       (om_find (nfts db) (nt_nft_id op))"
| "nft_event db (Nft_approve op) = Some (Nft_approved
     \<lparr>vna_nft_id = na_nft_id op, vna_owner = na_owner op, vna_approved = na_approved op\<rparr>)"
| "nft_event db (Nft_set_approval_for_all op) = Some (Nft_approval_for_all
     \<lparr>vns_owner = ns_owner op, vns_operator_account = ns_operator_account op,
      vns_collection = ns_collection op, vns_approved = ns_approved op\<rparr>)"
| "nft_event db (Nft_burn op) =
     map_option (\<lambda>n. Nft_burned \<lparr>vnb_nft_id = nb_nft_id op, vnb_owner = nb_owner op,
         vnb_collection = n_collection n\<rparr>)
       (om_find (nfts db) (nb_nft_id op))"

fun htlc_event :: "database \<Rightarrow> htlc_operation \<Rightarrow> virtual_operation option" where
  "htlc_event db (Htlc_create op) = Some (Htlc_created
     \<lparr>vhc_htlc_id = next_htlc_id db, vhc_from = hc_from op, vhc_to = hc_to op,
      vhc_amount = hc_amount op, vhc_expiration = hc_expiration op\<rparr>)"
| "htlc_event db (Htlc_redeem op) =
     map_option (\<lambda>h. Htlc_redeemed \<lparr>vhr_htlc_id = hr_htlc_id op, vhr_from = h_from h, vhr_to = h_to h,
         vhr_amount = h_amount h\<rparr>)
       (om_find (htlcs db) (hr_htlc_id op))"
| "htlc_event db (Htlc_refund op) =
     map_option (\<lambda>h. Htlc_refunded \<lparr>vhf_htlc_id = hf_htlc_id op, vhf_from = h_from h, vhf_amount = h_amount h\<rparr>)
       (om_find (htlcs db) (hf_htlc_id op))"

text \<open>The result the engine returns for a call, when the call gets that far.\<close>

definition call_outcome :: "database \<Rightarrow> contract_call_operation \<Rightarrow> call_result option" where
  "call_outcome db op =
     (case checks [
         require_hardfork db HIVE_HARDFORK_CONTRACTS,
         throw_if (contracts_skip (config db) \<and> \<not> is_consensus_node (config db)) ''contracts skipped'',
         validate_contract_call op,
         throw_if (\<not> account_exists db (cc_caller op)) ''account missing''] of
        Inl _ \<Rightarrow> None
      | Inr _ \<Rightarrow> do {
          c \<leftarrow> om_find (contracts db) (cc_contract_id op);
          (case eng_call default_engine (k_code c) (cc_export_name op) (cc_args op)
              (case om_find (contract_storage db) (cc_contract_id op) of None \<Rightarrow> om_empty | Some s \<Rightarrow> s)
              (default_host_limits\<lparr>l_fuel := cc_fuel_limit op\<rparr>) (cc_caller op) of
             Inl _ \<Rightarrow> None | Inr res \<Rightarrow> Some res)
        })"

definition call_announced :: "database \<Rightarrow> contract_call_operation \<Rightarrow> virtual_operation option" where
  "call_announced db op = map_option (\<lambda>res. Contract_called
     \<lparr>vcl_contract_id = cc_contract_id op, vcl_caller = cc_caller op,
      vcl_fuel_used = r_fuel_used res, vcl_success = r_success res\<rparr>) (call_outcome db op)"

definition if_done :: "'a outcome \<Rightarrow> 'b option \<Rightarrow> 'b option" where
  "if_done r v = (case r of Done _ \<Rightarrow> v | Threw _ _ \<Rightarrow> None)"

fun announced :: "database \<Rightarrow> operation \<Rightarrow> virtual_operation option" where
  "announced db (Nft_op op) = if_done (apply_nft db op) (nft_event db op)"
| "announced db (Htlc_op op) = if_done (apply_htlc db op) (htlc_event db op)"
| "announced db (Contract_op (Contract_deploy op)) =
     if_done (apply_contract_deploy db op) (Some (Contract_deployed
       \<lparr>vcd_contract_id = next_contract_id db, vcd_owner = cd_owner op, vcd_code_hash = sha256 (cd_code op)\<rparr>))"
| "announced db (Contract_op (Contract_call op)) = call_announced db op"

definition events :: "virtual_operation option \<Rightarrow> virtual_operation list" where
  "events v = (case v of None \<Rightarrow> [] | Some v \<Rightarrow> [v])"

definition queues :: "database \<Rightarrow> database \<Rightarrow> virtual_operation option \<Rightarrow> bool" where
  "queues db db' v \<longleftrightarrow>
     pending_virtual_ops db' = pending_virtual_ops db @ map payload (events v)"

lemmas queue_simps = queues_def events_def payload_def show_object_def push_virtual_def if_done_def

lemma nft_ids:
  assumes "nft_inv db"
  shows "om_find (nfts db) i = Some n \<Longrightarrow> n_id n = i"
    and "om_find (nfts db) i = Some n \<Longrightarrow> account_exists db (n_owner n)"
  using assms by (auto simp: nft_inv_def tokens_inv_def token_ok_def table_ok_def)

lemma nft_queues:
  assumes "nft_inv db"
  shows "queues db (outcome_state (apply_nft db op)) (announced db (Nft_op op))"
proof (cases "apply_nft db op")
  case (Done db')
  then have "queues db db' (nft_event db op)"
    using nft_ids(1) [OF assms]
    by (cases op) (auto simp: queue_simps apply_nft_create_collection_Done apply_nft_mint_Done
        apply_nft_transfer_Done apply_nft_approve_Done apply_nft_set_approval_for_all_Done apply_nft_burn_Done)
  with Done show ?thesis by (simp add: if_done_def)
next
  case (Threw e db')
  with apply_nft_Threw_same [OF Threw] show ?thesis by (simp add: queue_simps)
qed

lemma htlc_ids:
  assumes "htlc_inv db" "om_find (htlcs db) i = Some h"
  shows "h_id h = i" "account_exists db (h_from h)" "account_exists db (h_to h)"
  using assms by (auto simp: htlc_inv_def htlc_ok_def table_ok_def)

lemma adjust_balance_pending:
  "adjust_balance db a x = Done db' \<Longrightarrow> pending_virtual_ops db' = pending_virtual_ops db"
  by (auto elim!: adjust_balance_Done)

lemma htlc_queues:
  assumes "htlc_inv db"
  shows "queues db (outcome_state (apply_htlc db op)) (announced db (Htlc_op op))"
proof (cases "apply_htlc db op")
  case (Done db')
  have "queues db db' (htlc_event db op)"
  proof (cases op)
    case (Htlc_create x)
    with Done show ?thesis
      by (auto simp: queue_simps apply_htlc_create_def attempt_Done and_then_Done Let_def
          adjust_balance_pending adjust_balance_moved(4))
  next
    case (Htlc_redeem x)
    with Done htlc_ids(1) [OF assms] show ?thesis
      by (auto simp: queue_simps apply_htlc_redeem_eq redeem_ok_def dest!: adjust_balance_pending)
  next
    case (Htlc_refund x)
    with Done htlc_ids(1) [OF assms] show ?thesis
      by (auto simp: queue_simps apply_htlc_refund_eq refund_ok_def dest!: adjust_balance_pending)
  qed
  with Done show ?thesis by (simp add: if_done_def)
next
  case (Threw e db')
  with apply_htlc_Threw [OF Threw] show ?thesis by (auto simp: queue_simps)
qed

lemma deploy_queues:
  "queues db (outcome_state (apply_contract_deploy db op)) (announced db (Contract_op (Contract_deploy op)))"
proof (cases "apply_contract_deploy db op")
  case (Done db')
  then show ?thesis
    by (auto simp: queue_simps apply_contract_deploy_def apply_contract_deploy_on_def Let_def attempt_Done)
next
  case (Threw e db')
  with dh.deploy_Threw [of db op e db'] show ?thesis by (simp add: queue_simps apply_contract_deploy_def)
qed

lemma call_queues:
  "queues db (outcome_state (apply_contract_call db op)) (announced db (Contract_op (Contract_call op)))"
  by (auto simp: queue_simps call_announced_def call_outcome_def apply_contract_call_def
      apply_contract_call_on_def Let_def attempt_def split: sum.splits option.splits)

lemma op_queues:
  assumes "chain_inv db"
  shows "queues db (outcome_state (apply_op db op)) (announced db op)"
proof (cases op)
  case (Contract_op x)
  then show ?thesis by (cases x) (simp_all only: apply_op.simps apply_contract.simps deploy_queues call_queues)
qed (use assms in \<open>simp_all add: chain_inv_def nft_queues htlc_queues del: announced.simps\<close>)

end
