(* ===== verification/Event_Log.thy ===== *)
theory Event_Log
  imports Virtual_Ops
begin

text \<open>
  The virtual operations seen by the consumer they are made for: an indexer that knows the chain
  only through them. \<open>index_event\<close> updates the indexer's tables from one virtual operation and
  \<open>index_of\<close> is what these tables should be for a database. \<open>mirrors\<close> says that a typed virtual
  operation carries the tables of one state to those of another; \<open>mirrors_op\<close> shows it for what
  each operation announces, so that with \<open>op_queues\<close> the texts pushed by an operation do the same
  (\<open>tells_op\<close>). Validated account names and symbols have no double quote, so the texts can be read
  back. \<open>indexed_run\<close> is a node together with an indexer that reads the pending virtual operations
  whenever the node clears them.
\<close>

section \<open>The indexer\<close>

record index =
  ix_symbol :: "collection_id_type \<rightharpoonup> string"
  ix_owner :: "nft_id_type \<rightharpoonup> account_name_type"
  ix_approved :: "nft_id_type \<rightharpoonup> account_name_type"
  ix_operator :: "account_name_type \<times> account_name_type \<times> collection_id_type \<Rightarrow> bool"
  ix_lock :: "htlc_id_type \<rightharpoonup> account_name_type \<times> account_name_type \<times> htlc_status"
  ix_contract :: "contract_id_type \<rightharpoonup> account_name_type"

definition no_index :: index where
  "no_index = \<lparr>ix_symbol = Map.empty, ix_owner = Map.empty, ix_approved = Map.empty,
     ix_operator = (\<lambda>_. False), ix_lock = Map.empty, ix_contract = Map.empty\<rparr>"

definition num_field :: "(string \<times> json_value) list \<Rightarrow> string \<Rightarrow> u64 option" where
  "num_field fs k = (case map_of fs k of Some (J_num n) \<Rightarrow> Some n | _ \<Rightarrow> None)"

definition str_field :: "(string \<times> json_value) list \<Rightarrow> string \<Rightarrow> string option" where
  "str_field fs k = (case map_of fs k of Some (J_str s) \<Rightarrow> Some s | _ \<Rightarrow> None)"

definition bool_field :: "(string \<times> json_value) list \<Rightarrow> string \<Rightarrow> bool option" where
  "bool_field fs k = (case map_of fs k of Some (J_bool b) \<Rightarrow> Some b | _ \<Rightarrow> None)"

definition close_lock :: "index \<Rightarrow> htlc_id_type \<Rightarrow> htlc_status \<Rightarrow> index option" where
  "close_lock ix i st =
     map_option (\<lambda>(f, t, _). ix\<lparr>ix_lock := (ix_lock ix)(i \<mapsto> (f, t, st))\<rparr>) (ix_lock ix i)"

definition index_fields :: "index \<Rightarrow> string \<Rightarrow> (string \<times> json_value) list \<Rightarrow> index option" where
  "index_fields ix name fs =
     (if name = ''nft_collection_created'' then do {
        i \<leftarrow> num_field fs ''id''; s \<leftarrow> str_field fs ''symbol'';
        Some (ix\<lparr>ix_symbol := (ix_symbol ix)(i \<mapsto> s)\<rparr>) }
      else if name = ''nft_minted'' then do {
        i \<leftarrow> num_field fs ''nft_id''; a \<leftarrow> str_field fs ''to'';
        Some (ix\<lparr>ix_owner := (ix_owner ix)(i \<mapsto> a), ix_approved := (ix_approved ix)(i \<mapsto> [])\<rparr>) }
      else if name = ''nft_transferred'' then do {
        i \<leftarrow> num_field fs ''nft_id''; a \<leftarrow> str_field fs ''to'';
        Some (ix\<lparr>ix_owner := (ix_owner ix)(i \<mapsto> a), ix_approved := (ix_approved ix)(i \<mapsto> [])\<rparr>) }
      else if name = ''nft_approved'' then do {
        i \<leftarrow> num_field fs ''nft_id''; a \<leftarrow> str_field fs ''approved'';
        Some (ix\<lparr>ix_approved := (ix_approved ix)(i \<mapsto> a)\<rparr>) }
      else if name = ''nft_approval_for_all'' then do {
        a \<leftarrow> str_field fs ''owner''; b \<leftarrow> str_field fs ''operator'';
        i \<leftarrow> num_field fs ''collection''; on \<leftarrow> bool_field fs ''approved'';
        Some (ix\<lparr>ix_operator := (ix_operator ix)((a, b, i) := on)\<rparr>) }
      else if name = ''nft_burned'' then do {
        i \<leftarrow> num_field fs ''nft_id'';
        Some (ix\<lparr>ix_owner := (ix_owner ix)(i := None), ix_approved := (ix_approved ix)(i := None)\<rparr>) }
      else if name = ''htlc_created'' then do {
        i \<leftarrow> num_field fs ''htlc_id''; a \<leftarrow> str_field fs ''from''; b \<leftarrow> str_field fs ''to'';
        Some (ix\<lparr>ix_lock := (ix_lock ix)(i \<mapsto> (a, b, Open))\<rparr>) }
      else if name = ''htlc_redeemed'' then do {
        i \<leftarrow> num_field fs ''htlc_id''; close_lock ix i Redeemed }
      else if name = ''htlc_refunded'' then do {
        i \<leftarrow> num_field fs ''htlc_id''; close_lock ix i Refunded }
      else if name = ''contract_deployed'' then do {
        i \<leftarrow> num_field fs ''contract_id''; a \<leftarrow> str_field fs ''owner'';
        Some (ix\<lparr>ix_contract := (ix_contract ix)(i \<mapsto> a)\<rparr>) }
      else if name = ''contract_called'' then do {
        i \<leftarrow> num_field fs ''contract_id''; ok \<leftarrow> bool_field fs ''success'';
        fuel \<leftarrow> num_field fs ''fuel''; Some ix }
      else None)"

definition index_event :: "index \<Rightarrow> virtual_op \<Rightarrow> index option" where
  "index_event ix v = read_object (v_payload_json v) \<bind> index_fields ix (v_name v)"

fun index_events :: "index \<Rightarrow> virtual_op list \<Rightarrow> index option" where
  "index_events ix [] = Some ix"
| "index_events ix (v # vs) = index_event ix v \<bind> (\<lambda>ix. index_events ix vs)"

text \<open>What the tables should be.\<close>

definition index_of :: "database \<Rightarrow> index" where
  "index_of db =
     \<lparr>ix_symbol = (\<lambda>i. map_option c_symbol (om_find (collections db) i)),
      ix_owner = (\<lambda>i. map_option n_owner (om_find (nfts db) i)),
      ix_approved = (\<lambda>i. map_option n_approved (om_find (nfts db) i)),
      ix_operator = (\<lambda>k. om_find (operators db) k \<noteq> None),
      ix_lock = (\<lambda>i. map_option (\<lambda>h. (h_from h, h_to h, h_status h)) (om_find (htlcs db) i)),
      ix_contract = (\<lambda>i. map_option k_owner (om_find (contracts db) i))\<rparr>"

definition names_ok :: "database \<Rightarrow> bool" where
  "names_ok db \<longleftrightarrow> (\<forall>a. account_exists db a \<longrightarrow> account_name_ok a)"

definition tells :: "database \<Rightarrow> database \<Rightarrow> bool" where
  "tells db db' \<longleftrightarrow>
     (\<exists>vs. pending_virtual_ops db' = pending_virtual_ops db @ vs \<and>
        index_events (index_of db) vs = Some (index_of db'))"

lemma index_events_append: "index_events ix (vs @ ws) = index_events ix vs \<bind> (\<lambda>ix. index_events ix ws)"
  by (induction vs arbitrary: ix) (auto split: Option.bind_splits)

text \<open>The same for a typed virtual operation, if any.\<close>

definition mirrors :: "database \<Rightarrow> database \<Rightarrow> virtual_operation option \<Rightarrow> bool" where
  "mirrors db db' v \<longleftrightarrow>
     (case v of
        None \<Rightarrow> index_of db' = index_of db
      | Some v \<Rightarrow> fields_ok (event_fields v) \<and>
          index_fields (index_of db) (event_name v) (event_fields v) = Some (index_of db'))"

lemma tells_mirrored:
  assumes "queues db db' v" "mirrors db db' v"
  shows "tells db db'"
proof (cases v)
  case (Some e)
  have "event_fields e \<noteq> []" by (cases e) simp_all
  with assms Some show ?thesis
    by (simp add: tells_def queues_def events_def mirrors_def payload_def index_event_def read_object_show)
qed (use assms in \<open>simp add: tells_def queues_def events_def mirrors_def\<close>)

lemmas field_simps' = num_field_def str_field_def bool_field_def index_fields_def close_lock_def
lemmas mirror_simps = mirrors_def fields_ok_def field_simps' index_of_def

lemma name_no_quote: "account_name_ok a \<Longrightarrow> quote \<notin> set a"
  by (auto simp: account_name_ok_def account_name_char_def char_between_def less_eq_char_def)

lemma symbol_no_quote: "\<forall>c \<in> set s. symbol_char c \<Longrightarrow> quote \<notin> set s"
  by auto

section \<open>NFT events\<close>

lemma mirrors_create_collection:
  "apply_nft_create_collection db op = Done db' \<Longrightarrow> mirrors db db' (nft_event db (Nft_create_collection op))"
  using symbol_no_quote [of "ncc_symbol op"]
  by (auto simp: apply_nft_create_collection_Done validate_nft_create_collection_Inr mirror_simps)

lemma mirrors_mint:
  "apply_nft_mint db op = Done db' \<Longrightarrow> mirrors db db' (nft_event db (Nft_mint op))"
  using name_no_quote [of "nm_to op"]
  by (auto simp: apply_nft_mint_Done validate_nft_mint_Inr mirror_simps)

lemma mirrors_transfer:
  assumes inv: "nft_inv db" and names: "names_ok db" and "apply_nft_transfer db op = Done db'"
  shows "mirrors db db' (nft_event db (Nft_transfer op))"
proof -
  note d = assms(3) [unfolded apply_nft_transfer_Done]
  from d obtain n where n: "om_find (nfts db) (nt_nft_id op) = Some n" by blast
  with names nft_ids(2) [OF inv n] have "quote \<notin> set (n_owner n)" by (simp add: names_ok_def name_no_quote)
  with d n name_no_quote [of "nt_to op"] show ?thesis
    by (auto simp: validate_nft_transfer_Inr mirror_simps)
qed

lemma mirrors_approve:
  "apply_nft_approve db op = Done db' \<Longrightarrow> mirrors db db' (nft_event db (Nft_approve op))"
  using name_no_quote [of "na_approved op"]
  by (auto simp: apply_nft_approve_Done validate_nft_approve_Inr mirror_simps)

lemma mirrors_approval_for_all:
  "apply_nft_set_approval_for_all db op = Done db' \<Longrightarrow>
     mirrors db db' (nft_event db (Nft_set_approval_for_all op))"
  using name_no_quote [of "ns_owner op"] name_no_quote [of "ns_operator_account op"]
  by (cases "ns_approved op")
    (simp_all add: apply_nft_set_approval_for_all_Done validate_nft_set_approval_for_all_Inr mirror_simps
      fun_eq_iff)

lemma symbols_after_burn:
  "map_option c_symbol (om_find (collections_after_burn db k) i) =
     map_option c_symbol (om_find (collections db) i)"
  by (auto simp: collections_after_burn_def split: option.splits)

lemma mirrors_burn:
  "apply_nft_burn db op = Done db' \<Longrightarrow> mirrors db db' (nft_event db (Nft_burn op))"
  using name_no_quote [of "nb_owner op"]
  by (auto simp: apply_nft_burn_Done validate_nft_burn_Inr mirror_simps symbols_after_burn
      fun_eq_iff)

lemma mirrors_nft:
  assumes "nft_inv db" "names_ok db"
  shows "mirrors db (outcome_state (apply_nft db op)) (announced db (Nft_op op))"
proof (cases "apply_nft db op")
  case (Done db')
  with assms have "mirrors db db' (nft_event db op)"
    by (cases op) (auto intro: mirrors_create_collection mirrors_mint mirrors_transfer mirrors_approve
        mirrors_approval_for_all mirrors_burn simp del: nft_event.simps)
  with Done show ?thesis by (simp add: if_done_def)
next
  case (Threw e db')
  with apply_nft_Threw_same [OF Threw] show ?thesis by (simp add: if_done_def mirrors_def)
qed

section \<open>HTLC events\<close>

lemma index_same_elsewhere:
  "same_elsewhere db db' \<Longrightarrow> index_of db' = (index_of db)\<lparr>ix_lock := ix_lock (index_of db')\<rparr>"
  by (simp add: index_of_def same_elsewhere_def)

lemma mirrors_htlc_create:
  assumes "apply_htlc_create db op = Done db'"
  shows "mirrors db db' (htlc_event db (Htlc_create op))"
proof -
  note d = apply_htlc_create_Done [OF assms]
  have "index_of db' = (index_of db)\<lparr>ix_lock :=
      (ix_lock (index_of db))(next_htlc_id db \<mapsto> (hc_from op, hc_to op, Open))\<rparr>"
    by (subst index_same_elsewhere [OF d(8)]) (auto simp: index_of_def d(9) htlc_of_create_def)
  with d(2) name_no_quote [of "hc_from op"] name_no_quote [of "hc_to op"] show ?thesis
    by (simp add: mirrors_def fields_ok_def field_simps' validate_htlc_create_Inr)
qed

text \<open>Both ways to close a lock name it and one of its two accounts.\<close>

lemma index_closes:
  assumes "closes db i h acc st db'"
  shows "index_of db' = (index_of db)\<lparr>ix_lock := (ix_lock (index_of db))(i \<mapsto> (h_from h, h_to h, st))\<rparr>"
    "ix_lock (index_of db) i = Some (h_from h, h_to h, Open)"
  using assms index_same_elsewhere [of db db'] by (auto simp: closes_def index_of_def fun_eq_iff)

lemma mirrors_htlc:
  assumes inv: "htlc_inv db" and names: "names_ok db"
  shows "mirrors db (outcome_state (apply_htlc db op)) (announced db (Htlc_op op))"
proof (cases "apply_htlc db op")
  case (Done db')
  have quiet: "quote \<notin> set (h_from h) \<and> quote \<notin> set (h_to h)" if "om_find (htlcs db) i = Some h" for i h
    using names htlc_ids(2,3) [OF inv that] by (simp add: names_ok_def name_no_quote)
  have "mirrors db db' (htlc_event db op)"
  proof (cases op)
    case (Htlc_create x)
    with Done show ?thesis by (simp add: mirrors_htlc_create del: htlc_event.simps)
  next
    case (Htlc_redeem x)
    with Done obtain h where "redeem_ok db x h" "closes db (hr_htlc_id x) h (hr_to x) Redeemed db'"
      by (auto elim: apply_htlc_redeem_Done)
    with quiet [of "hr_htlc_id x" h] index_closes [OF this(2)] show ?thesis
      by (auto simp: Htlc_redeem redeem_ok_def mirrors_def fields_ok_def field_simps')
  next
    case (Htlc_refund x)
    with Done obtain h where "refund_ok db x h" "closes db (hf_htlc_id x) h (hf_from x) Refunded db'"
      by (auto elim: apply_htlc_refund_Done)
    with quiet [of "hf_htlc_id x" h] index_closes [OF this(2)] show ?thesis
      by (auto simp: Htlc_refund refund_ok_def mirrors_def fields_ok_def field_simps')
  qed
  with Done show ?thesis by (simp add: if_done_def)
next
  case (Threw e db')
  with apply_htlc_Threw [OF Threw] show ?thesis by (auto simp: if_done_def mirrors_def index_of_def)
qed

section \<open>Contract events\<close>

lemma index_other_tables:
  "other_tables_same db db' \<Longrightarrow> contracts db' = contracts db \<Longrightarrow> index_of db' = index_of db"
  by (simp add: index_of_def other_tables_same_def)

lemma mirrors_deploy:
  "mirrors db (outcome_state (apply_contract_deploy db op)) (announced db (Contract_op (Contract_deploy op)))"
proof (cases "apply_contract_deploy db op")
  case (Done db')
  note d = dh.deploy_Done [OF Done [unfolded apply_contract_deploy_def]]
  show ?thesis
    using d(1,3,6) name_no_quote [of "cd_owner op"]
    by (auto simp: Done if_done_def mirror_simps other_tables_same_def validate_contract_deploy_Inr)
next
  case (Threw e db')
  with dh.deploy_Threw [of db op e db'] show ?thesis
    by (simp add: apply_contract_deploy_def if_done_def mirrors_def)
qed

lemma call_keeps_contracts:
  assumes inv: "contract_inv db"
  shows "contracts (outcome_state (apply_contract_call db op)) = contracts db"
proof (cases "apply_contract_call db op")
  case (Done db')
  then show ?thesis by (simp add: apply_contract_call_def) (erule dh.call_Done)
qed (use dh.call_Threw_storage(2) [OF inv, of op] in \<open>simp add: apply_contract_call_def\<close>)

lemma mirrors_call:
  assumes inv: "contract_inv db"
  shows "mirrors db (outcome_state (apply_contract_call db op)) (announced db (Contract_op (Contract_call op)))"
proof -
  have "index_of (outcome_state (apply_contract_call db op)) = index_of db"
    using apply_contract_other_tables [OF inv, of "Contract_call op"]
    by (intro index_other_tables) (simp_all add: call_keeps_contracts [OF inv])
  then show ?thesis
    by (simp add: mirrors_def call_announced_def fields_ok_def field_simps' split: option.split)
qed

section \<open>A node and its indexer\<close>

lemma mirrors_op:
  assumes "chain_inv db" "names_ok db"
  shows "mirrors db (outcome_state (apply_op db op)) (announced db op)"
proof (cases op)
  case (Contract_op x)
  with assms show ?thesis
    by (cases x) (simp_all only: chain_inv_def apply_op.simps apply_contract.simps mirrors_deploy mirrors_call)
qed (use assms in \<open>simp_all only: chain_inv_def apply_op.simps mirrors_nft mirrors_htlc\<close>)

lemma tells_op: "chain_inv db \<Longrightarrow> names_ok db \<Longrightarrow> tells db (outcome_state (apply_op db op))"
  by (rule tells_mirrored [OF op_queues mirrors_op])

lemma names_ok_op:
  assumes "chain_inv db" "names_ok db"
  shows "names_ok (outcome_state (apply_op db op))"
proof -
  have "account_exists (outcome_state (apply_op db op)) a \<longleftrightarrow> account_exists db a" for a
  proof (cases op)
    case (Nft_op x)
    then show ?thesis by (simp add: account_exists_def apply_nft_outcome_frame)
  next
    case (Htlc_op x)
    then show ?thesis
      using apply_htlc_frame(2) [of db x] apply_htlc_Threw [of db x] by (cases "apply_htlc db x") auto
  next
    case (Contract_op x)
    then show ?thesis
      using assms(1) apply_contract_other_tables [of db x]
      by (simp add: chain_inv_def other_tables_same_def account_exists_def)
  qed
  with assms(2) show ?thesis by (simp add: names_ok_def)
qed

inductive indexed_run :: "database \<Rightarrow> nat \<Rightarrow> database \<Rightarrow> index \<Rightarrow> bool" for g where
  indexed_start: "indexed_run g 0 g no_index"
| indexed_op: "indexed_run g n db ix \<Longrightarrow> indexed_run g (Suc n) (outcome_state (apply_op db op)) ix"
| indexed_time: "indexed_run g n db ix \<Longrightarrow> head_time db \<le> t \<Longrightarrow>
    indexed_run g (Suc n) (db\<lparr>head_time := t\<rparr>) ix"
| indexed_flush: "indexed_run g n db ix \<Longrightarrow> index_events ix (pending_virtual_ops db) = Some ix' \<Longrightarrow>
    indexed_run g (Suc n) (clear_virtual db) ix'"

lemma indexed_run_chain_run: "indexed_run g n db ix \<Longrightarrow> chain_run n g db"
  by (induction rule: indexed_run.induct) (auto intro: chain_run.intros chain_step.intros)

lemma tells_index:
  assumes "tells db db'" "index_events ix (pending_virtual_ops db) = Some (index_of db)"
  shows "index_events ix (pending_virtual_ops db') = Some (index_of db')"
  using assms by (auto simp: tells_def index_events_append)

lemma indexed_run_sync:
  assumes "indexed_run g n db ix" and "chain_inv g" "ids_below 1 g" "names_ok g"
    and "pending_virtual_ops g = []" "index_of g = no_index" and "Suc n < 2 ^ 64"
  shows "names_ok db \<and> index_events ix (pending_virtual_ops db) = Some (index_of db)"
  using assms
proof (induction rule: indexed_run.induct)
  case (indexed_op n db ix op)
  from chain_run_inv [OF indexed_run_chain_run [OF indexed_op.hyps] indexed_op.prems(1,2)] indexed_op.prems(6)
  have "chain_inv db" by simp
  with indexed_op show ?case by (auto intro: names_ok_op tells_index [OF tells_op])
next
  case (indexed_time n db ix t)
  then show ?case by (simp add: names_ok_def account_exists_def index_of_def)
next
  case (indexed_flush n db ix ix')
  then show ?case by (simp add: clear_virtual_def names_ok_def account_exists_def index_of_def)
qed simp

lemma genesis_names:
  "genesis db accs = Done g \<Longrightarrow> names_ok db \<Longrightarrow> names_ok g \<and> pending_virtual_ops g = pending_virtual_ops db"
proof (induction db accs rule: genesis.induct)
  case (2 db name hive hbd accs)
  then obtain db1 where db1: "create_account db name hive hbd = Done db1" and "genesis db1 accs = Done g"
    by (auto simp: and_then_Done)
  moreover from db1 have "names_ok db1" "pending_virtual_ops db1 = pending_virtual_ops db"
    using "2.prems"(2)
    by (auto simp: create_account_def attempt_Done names_ok_def account_exists_def outcome_simps split: if_splits)
  ultimately show ?case using "2.IH" by simp
qed simp

lemma tables_empty_index: "tables_empty g \<Longrightarrow> index_of g = no_index"
  by (simp add: tables_empty_def index_of_def no_index_def)

text \<open>A genesis has valid names, empty tables and nothing pending.\<close>

lemma genesis_fresh:
  assumes "genesis empty_database accs = Done g" "non_negative accs"
  shows "names_ok g" "pending_virtual_ops g = []" "tables_empty g"
proof -
  have start: "names_ok empty_database" "pending_virtual_ops empty_database = []"
    "tables_empty empty_database" "\<forall>sy a. 0 \<le> bal empty_database sy a"
    by (simp_all add: names_ok_def account_exists_def empty_database_def tables_empty_def bal_def)
  show "names_ok g" "pending_virtual_ops g = []"
    using genesis_names [OF assms(1) start(1)] start(2) by simp_all
  show "tables_empty g" using genesis_tables [OF assms(1) start(3,4) assms(2)] by simp
qed

definition demo_create :: nft_create_collection_operation where
  "demo_create = \<lparr>ncc_creator = ''alice'', ncc_symbol = ''ART'', ncc_name = ''Art'',
     ncc_max_supply = 10, ncc_transferable = True\<rparr>"

section \<open>Properties\<close>

text \<open>C10: an indexer that sees only the virtual operations knows the chain. From any valid
  genesis, after any number (below \<open>2^64 - 1\<close>) of operations, applied or rejected, of clock
  advances and of flushes, at each of which the indexer reads the pending payloads, the pending
  payloads can be read and turn the indexer's tables into those of the database: the symbol of
  each collection, the owner and the approved account of each live token, the operators, the
  parties and the status of each lock and the owner of each contract.\<close>

theorem indexer_follows_the_chain:
  assumes "genesis empty_database accs = Done g" and "non_negative accs"
    and "\<forall>sy. total_supply sy g \<le> INT64_MAX"
    and "indexed_run g n db ix" and "n < 2 ^ 64 - 1"
  shows "index_events ix (pending_virtual_ops db) = Some (index_of db)"
  using indexed_run_sync [OF assms(4) genesis_chain_inv [OF assms(1-3)]] genesis_fresh [OF assms(1,2)] assms(5)
  by (simp add: tables_empty_index)

theorem indexer_follows_the_chain_witness:
  "map_option (\<lambda>ix. ix_symbol ix 1) (index_events no_index (pending_virtual_ops
     (outcome_state (apply_op demo_genesis (Nft_op (Nft_create_collection demo_create)))))) =
   Some (Some ''ART'')"
proof -
  let ?db = "outcome_state (apply_op demo_genesis (Nft_op (Nft_create_collection demo_create)))"
  have "indexed_run demo_genesis (Suc 0) ?db no_index" by (intro indexed_op indexed_start)
  from indexer_follows_the_chain [OF demo_genesis this]
  have "index_events no_index (pending_virtual_ops ?db) = Some (index_of ?db)" by simp
  moreover have "\<exists>db'. apply_nft_create_collection demo_genesis demo_create = Done db' \<and>
      ix_symbol (index_of db') 1 = Some ''ART''"
    by (simp add: apply_nft_create_collection_Done nft_enabled_def index_of_def outcome_simps)
      (simp add: demo_create_def demo_genesis_def demo_simps)
  then have "ix_symbol (index_of ?db) 1 = Some ''ART''" by auto
  ultimately show ?thesis by simp
qed

end
