(* ===== verification/Histories.thy ===== *)
theory Histories
  imports Event_Log
begin

text \<open>
  What the log of virtual operations tells about single objects. \<open>logged_run\<close> collects the
  announced operations along a run of the node. A \<open>history\<close> folds a checking automaton over that
  log: \<open>custody_step\<close> follows one token from hand to hand, \<open>lock_step\<close> one lock from its
  creation to its settlement. Both look only at fields which the payloads carry. The locale
  \<open>lifecycle\<close> proves once that an automaton that follows the database over single operations
  follows it over runs.
\<close>

section \<open>Automata on the log\<close>

text \<open>An automaton reads the log; \<open>None\<close> means that the log is inconsistent.\<close>

fun history :: "('s \<Rightarrow> 'e \<Rightarrow> 's option) \<Rightarrow> 's \<Rightarrow> 'e list \<Rightarrow> 's option" where
  "history step s [] = Some s"
| "history step s (v # vs) = step s v \<bind> (\<lambda>s. history step s vs)"

lemma history_append: "history step s (vs @ ws) = history step s vs \<bind> (\<lambda>s. history step s ws)"
  by (induction vs arbitrary: s) (auto split: Option.bind_splits)

datatype custody = Unminted | Held account_name_type | Gone

fun custody_step :: "nft_id_type \<Rightarrow> custody \<Rightarrow> virtual_operation \<Rightarrow> custody option" where
  "custody_step i c (Nft_minted v) =
     (if vnm_nft_id v \<noteq> i then Some c else if c = Unminted then Some (Held (vnm_to v)) else None)"
| "custody_step i c (Nft_transferred v) =
     (if vnt_nft_id v \<noteq> i then Some c else if c = Held (vnt_from v) then Some (Held (vnt_to v)) else None)"
| "custody_step i c (Nft_burned v) =
     (if vnb_nft_id v \<noteq> i then Some c else if c = Held (vnb_owner v) then Some Gone else None)"
| "custody_step i c _ = Some c"

definition custody_of :: "nft_id_type \<Rightarrow> database \<Rightarrow> custody" where
  "custody_of i db =
     (case om_find (nfts db) i of
        Some n \<Rightarrow> Held (n_owner n)
      | None \<Rightarrow> if 0 < i \<and> i < next_nft_id db then Gone else Unminted)"

datatype lock_stage = Unlocked | Locked account_name_type account_name_type | Paid account_name_type

fun lock_step :: "htlc_id_type \<Rightarrow> lock_stage \<Rightarrow> virtual_operation \<Rightarrow> lock_stage option" where
  "lock_step i s (Htlc_created v) =
     (if vhc_htlc_id v \<noteq> i then Some s
      else if s = Unlocked then Some (Locked (vhc_from v) (vhc_to v)) else None)"
| "lock_step i s (Htlc_redeemed v) =
     (if vhr_htlc_id v \<noteq> i then Some s
      else case s of Locked a b \<Rightarrow> if b = vhr_to v then Some (Paid b) else None | _ \<Rightarrow> None)"
| "lock_step i s (Htlc_refunded v) =
     (if vhf_htlc_id v \<noteq> i then Some s
      else case s of Locked a b \<Rightarrow> if a = vhf_from v then Some (Paid a) else None | _ \<Rightarrow> None)"
| "lock_step i s _ = Some s"

definition lock_stage_of :: "htlc_id_type \<Rightarrow> database \<Rightarrow> lock_stage" where
  "lock_stage_of i db =
     (case om_find (htlcs db) i of
        None \<Rightarrow> Unlocked
      | Some h \<Rightarrow> (case h_status h of Open \<Rightarrow> Locked (h_from h) (h_to h)
                  | Redeemed \<Rightarrow> Paid (h_to h) | Refunded \<Rightarrow> Paid (h_from h)))"

inductive logged_run :: "database \<Rightarrow> nat \<Rightarrow> database \<Rightarrow> virtual_op list \<Rightarrow> virtual_operation list \<Rightarrow> bool"
  for g where
  logged_start: "logged_run g 0 g [] []"
| logged_op: "logged_run g n db sent log \<Longrightarrow>
    logged_run g (Suc n) (outcome_state (apply_op db op)) sent (log @ events (announced db op))"
| logged_time: "logged_run g n db sent log \<Longrightarrow> head_time db \<le> t \<Longrightarrow>
    logged_run g (Suc n) (db\<lparr>head_time := t\<rparr>) sent log"
| logged_flush: "logged_run g n db sent log \<Longrightarrow>
    logged_run g (Suc n) (clear_virtual db) (sent @ pending_virtual_ops db) log"

lemma logged_run_chain_run: "logged_run g n db sent log \<Longrightarrow> chain_run n g db"
  by (induction rule: logged_run.induct) (auto intro: chain_run.intros chain_step.intros)

text \<open>An automaton and the state of the database it is meant to follow.\<close>

locale lifecycle =
  fixes step :: "u64 \<Rightarrow> 's \<Rightarrow> virtual_operation \<Rightarrow> 's option" and stage :: "u64 \<Rightarrow> database \<Rightarrow> 's"
  assumes follows: "chain_inv db \<Longrightarrow> ids_below k db \<Longrightarrow> k < 2 ^ 64 - 1 \<Longrightarrow>
      history (step i) (stage i db) (events (announced db op)) = Some (stage i (outcome_state (apply_op db op)))"
    and time_frame: "stage i (db\<lparr>head_time := t\<rparr>) = stage i db"
    and flush_frame: "stage i (clear_virtual db) = stage i db"
begin

lemma follows_run:
  assumes "logged_run g n db sent log" and "chain_inv g" "ids_below 1 g" and "Suc n < 2 ^ 64"
  shows "history (step i) (stage i g) log = Some (stage i db)"
  using assms
proof (induction rule: logged_run.induct)
  case (logged_op n db sent log op)
  from chain_run_inv [OF logged_run_chain_run [OF logged_op.hyps] logged_op.prems(1,2)] logged_op.prems(3)
  have "chain_inv db" "ids_below (1 + n) db" by simp_all
  from follows [OF this] logged_op show ?case by (simp add: history_append)
qed (simp_all add: time_frame flush_frame)

end

lemma custody_cong:
  "nfts db' = nfts db \<Longrightarrow> next_nft_id db' = next_nft_id db \<Longrightarrow> custody_of i db' = custody_of i db"
  by (simp only: custody_of_def)

lemma custody_put:
  assumes "nfts db' = om_put (nfts db) k n" "next_nft_id db' = next_nft_id db"
  shows "custody_of i db' = (if i = k then Held (n_owner n) else custody_of i db)"
  using assms by (auto simp: custody_of_def)

lemma custody_mint:
  assumes "nfts db' = om_put (nfts db) (next_nft_id db) n" "next_nft_id db' = next_nft_id db + 1"
    and "next_nft_id db \<noteq> - 1"
  shows "custody_of i db' = (if i = next_nft_id db then Held (n_owner n) else custody_of i db)"
  using assms by (auto simp: custody_of_def less_plus_1_iff)

lemma custody_erase:
  assumes "nfts db' = om_erase (nfts db) k" "next_nft_id db' = next_nft_id db"
    and "0 < k" "k < next_nft_id db"
  shows "custody_of i db' = (if i = k then Gone else custody_of i db)"
  using assms by (auto simp: custody_of_def)

lemma custody_follows_nft:
  assumes inv: "nft_inv db" and ids: "nft_ids_left db"
  shows "history (custody_step i) (custody_of i db) (events (announced db (Nft_op op))) =
    Some (custody_of i (outcome_state (apply_nft db op)))"
proof (cases "apply_nft db op")
  case (Done db')
  have below: "om_find (nfts db) k = Some n \<Longrightarrow> 0 < k \<and> k < next_nft_id db" for k n
    using inv by (auto simp: nft_inv_def tokens_inv_def table_ok_def)
  have held: "om_find (nfts db) k = Some n \<Longrightarrow> custody_of k db = Held (n_owner n)" for k n
    by (simp add: custody_of_def)
  have "history (custody_step i) (custody_of i db) (events (nft_event db op)) = Some (custody_of i db')"
  proof (cases op)
    case (Nft_mint x)
    have "om_find (nfts db) (next_nft_id db) = None"
      using below [of "next_nft_id db"] by (cases "om_find (nfts db) (next_nft_id db)") simp_all
    then have "custody_of (next_nft_id db) db = Unminted" by (simp add: custody_of_def)
    moreover from Done Nft_mint obtain n where "nfts db' = om_put (nfts db) (next_nft_id db) n"
      "n_owner n = nm_to x" "next_nft_id db' = next_nft_id db + 1"
      by (auto simp: apply_nft_mint_Done)
    ultimately show ?thesis
      using ids by (auto simp: Nft_mint events_def custody_mint nft_ids_left_def)
  next
    case (Nft_transfer x)
    with Done obtain n n' where "om_find (nfts db) (nt_nft_id x) = Some n"
      "nfts db' = om_put (nfts db) (nt_nft_id x) n'" "n_owner n' = nt_to x" "next_nft_id db' = next_nft_id db"
      by (auto simp: apply_nft_transfer_Done)
    with held show ?thesis by (auto simp: Nft_transfer events_def custody_put)
  next
    case (Nft_approve x)
    with Done obtain n n' where "om_find (nfts db) (na_nft_id x) = Some n"
      "nfts db' = om_put (nfts db) (na_nft_id x) n'" "n_owner n' = n_owner n" "next_nft_id db' = next_nft_id db"
      by (auto simp: apply_nft_approve_Done)
    with held show ?thesis by (auto simp: Nft_approve events_def custody_put)
  next
    case (Nft_burn x)
    with Done obtain n where n: "om_find (nfts db) (nb_nft_id x) = Some n" "n_owner n = nb_owner x"
      "nfts db' = om_erase (nfts db) (nb_nft_id x)" "next_nft_id db' = next_nft_id db"
      by (auto simp: apply_nft_burn_Done)
    with held below [OF n(1)] show ?thesis by (auto simp: Nft_burn events_def custody_erase)
  qed (use Done in \<open>auto simp: custody_of_def events_def apply_nft_create_collection_Done
      apply_nft_set_approval_for_all_Done\<close>)
  with Done show ?thesis by (simp add: if_done_def)
next
  case (Threw e db')
  with apply_nft_Threw_same [OF Threw] show ?thesis by (simp add: if_done_def events_def)
qed

lemma lock_follows_htlc:
  assumes inv: "htlc_inv db"
  shows "history (lock_step i) (lock_stage_of i db) (events (announced db (Htlc_op op))) =
    Some (lock_stage_of i (outcome_state (apply_htlc db op)))"
proof (cases "apply_htlc db op")
  case (Done db')
  have fresh: "om_find (htlcs db) (next_htlc_id db) = None"
    using inv by (cases "om_find (htlcs db) (next_htlc_id db)") (auto simp: htlc_inv_def table_ok_def)
  from Done have "history (lock_step i) (lock_stage_of i db) (events (htlc_event db op)) =
      Some (lock_stage_of i db')"
    using fresh
    by (cases op) (auto simp: lock_stage_of_def events_def htlc_of_create_def closes_def redeem_ok_def
        refund_ok_def dest!: apply_htlc_create_Done(9) elim!: apply_htlc_redeem_Done apply_htlc_refund_Done)
  with Done show ?thesis by (simp add: if_done_def)
next
  case (Threw e db')
  with apply_htlc_Threw [OF Threw] show ?thesis
    by (auto simp: if_done_def events_def lock_stage_of_def)
qed

lemma announced_only_nft:
  "history (custody_step i) s (events (announced db (Htlc_op x))) = Some s"
  "history (custody_step i) s (events (announced db (Contract_op y))) = Some s"
  by (cases x, auto simp: events_def if_done_def split: outcome.splits option.splits)
    (cases y, auto simp: events_def if_done_def call_announced_def split: outcome.splits option.splits)

lemma announced_only_htlc:
  "history (lock_step i) s (events (announced db (Nft_op x))) = Some s"
  "history (lock_step i) s (events (announced db (Contract_op y))) = Some s"
  by (cases x, auto simp: events_def if_done_def split: outcome.splits option.splits)
    (cases y, auto simp: events_def if_done_def call_announced_def split: outcome.splits option.splits)

lemma htlc_outcome_elsewhere: "same_elsewhere db (outcome_state (apply_htlc db op))"
  using apply_htlc_frame(1) [of db op] apply_htlc_Threw [of db op]
  by (cases "apply_htlc db op") (auto simp: same_elsewhere_def)

interpretation token_log: lifecycle custody_step custody_of
proof
  fix db k op i assume inv: "chain_inv db" and ids: "ids_below k db" "k < 2 ^ 64 - 1"
  show "history (custody_step i) (custody_of i db) (events (announced db op)) =
      Some (custody_of i (outcome_state (apply_op db op)))"
  proof (cases op)
    case (Nft_op x)
    with inv ids_below_left [OF ids] show ?thesis by (simp only: chain_inv_def custody_follows_nft apply_op.simps)
  next
    case (Htlc_op x)
    with htlc_outcome_elsewhere [of db x] custody_cong [of "outcome_state (apply_htlc db x)" db i] show ?thesis
      by (simp add: announced_only_nft same_elsewhere_def del: announced.simps)
  next
    case (Contract_op x)
    with inv apply_contract_other_tables [of db x] custody_cong [of "outcome_state (apply_contract db x)" db i]
    show ?thesis
      by (simp add: announced_only_nft other_tables_same_def chain_inv_def del: announced.simps)
  qed
qed (rule custody_cong; simp add: clear_virtual_def)+

interpretation lock_log: lifecycle lock_step lock_stage_of
proof
  fix db k op i assume inv: "chain_inv db" and ids: "ids_below k db" "k < 2 ^ 64 - 1"
  show "history (lock_step i) (lock_stage_of i db) (events (announced db op)) =
      Some (lock_stage_of i (outcome_state (apply_op db op)))"
  proof (cases op)
    case (Nft_op x)
    then show ?thesis
      by (simp add: announced_only_htlc lock_stage_of_def apply_nft_outcome_frame del: announced.simps)
  next
    case (Htlc_op x)
    with inv show ?thesis by (simp only: chain_inv_def lock_follows_htlc apply_op.simps)
  next
    case (Contract_op x)
    with inv apply_contract_other_tables [of db x] show ?thesis
      by (simp add: announced_only_htlc lock_stage_of_def other_tables_same_def chain_inv_def del: announced.simps)
  qed
qed (simp_all add: lock_stage_of_def clear_virtual_def)

text \<open>What was handed out and what is pending are the payloads of the log.\<close>

lemma logged_run_payloads:
  assumes "logged_run g n db sent log" and "chain_inv g" "ids_below 1 g" "pending_virtual_ops g = []"
    and "Suc n < 2 ^ 64"
  shows "sent @ pending_virtual_ops db = map payload log"
  using assms
proof (induction rule: logged_run.induct)
  case (logged_op n db sent log op)
  from chain_run_inv [OF logged_run_chain_run [OF logged_op.hyps] logged_op.prems(1,2)] logged_op.prems(4)
  have "chain_inv db" by simp
  from op_queues [OF this] logged_op show ?case by (simp add: queues_def flip: append_assoc)
qed (simp_all add: clear_virtual_def)

definition first_mint :: nft_mint_operation where
  "first_mint = \<lparr>nm_creator = ''alice'', nm_collection = 1, nm_to = ''bob'',
     nm_metadata_hash = replicate 31 0 @ [1], nm_uri = [], nm_soulbound = False\<rparr>"

definition demo_log :: "virtual_operation list" where
  "demo_log =
     [Nft_collection_created \<lparr>vcc_collection = 1, vcc_creator = ''alice'', vcc_symbol = ''ART''\<rparr>,
      Nft_minted \<lparr>vnm_nft_id = 1, vnm_collection = 1, vnm_to = ''bob'',
        vnm_metadata_hash = replicate 31 0 @ [1]\<rparr>]"

lemma demo_created:
  "\<exists>db. apply_nft_create_collection demo_genesis demo_create = Done db \<and>
     events (announced demo_genesis (Nft_op (Nft_create_collection demo_create))) = take 1 demo_log \<and>
     (\<exists>db'. apply_nft_mint db first_mint = Done db') \<and>
     events (announced db (Nft_op (Nft_mint first_mint))) = drop 1 demo_log"
proof -
  have "\<exists>db. apply_nft_create_collection demo_genesis demo_create = Done db \<and>
     (\<exists>db'. apply_nft_mint db first_mint = Done db') \<and> next_nft_id db = 1"
    by (simp add: apply_nft_create_collection_Done apply_nft_mint_Done nft_enabled_def outcome_simps)
      (simp add: demo_create_def first_mint_def demo_genesis_def demo_simps)
  moreover have "next_collection_id demo_genesis = 1" by (simp add: demo_genesis_def empty_database_def)
  ultimately show ?thesis
    by (auto simp: events_def if_done_def demo_log_def demo_create_def first_mint_def)
qed

section \<open>Properties\<close>

text \<open>C11: the virtual operations are a faithful record of tokens and locks. From any valid
  genesis, along any run of operations (applied or rejected), clock advances and flushes, the
  payloads handed out so far followed by the pending ones are the JSON texts of a log of typed
  virtual operations with one entry for each applied operation and each failed engine call.
  For every token the log is an unbroken chain of custody (one mint, then transfers each from
  the current holder, then at most one burn by the holder) that ends at the owner recorded in
  the database; for every lock it is one creation followed by at most one payment, to the
  receiver if redeemed and to the sender if refunded, and ends at the lock's recorded status.\<close>

theorem virtual_operations_tell_histories:
  assumes "genesis empty_database accs = Done g" and "non_negative accs"
    and "\<forall>sy. total_supply sy g \<le> INT64_MAX"
    and "logged_run g n db sent log" and "n < 2 ^ 64 - 1"
  shows "sent @ pending_virtual_ops db = map payload log \<and>
    history (custody_step i) Unminted log = Some (custody_of i db) \<and>
    history (lock_step j) Unlocked log = Some (lock_stage_of j db)"
proof -
  note g = genesis_fresh [OF assms(1,2)]
  have "custody_of i g = Unminted" "lock_stage_of j g = Unlocked"
    using g(3) by (simp_all add: tables_empty_def custody_of_def lock_stage_of_def word_less_1 word_gt_0)
  with g(2) show ?thesis
    using logged_run_payloads [OF assms(4) genesis_chain_inv [OF assms(1-3)]]
      token_log.follows_run [OF assms(4) genesis_chain_inv [OF assms(1-3)], of i]
      lock_log.follows_run [OF assms(4) genesis_chain_inv [OF assms(1-3)], of j] assms(5)
    by simp
qed

theorem virtual_operations_tell_histories_witness:
  "\<exists>db. chain_run 2 demo_genesis db \<and> pending_virtual_ops db = map payload demo_log \<and>
     custody_of 1 db = Held ''bob''"
proof -
  obtain db db' where db: "apply_nft_create_collection demo_genesis demo_create = Done db"
    "apply_nft_mint db first_mint = Done db'"
    "events (announced demo_genesis (Nft_op (Nft_create_collection demo_create))) = take 1 demo_log"
    "events (announced db (Nft_op (Nft_mint first_mint))) = drop 1 demo_log"
    using demo_created by blast
  from logged_op [OF logged_op [OF logged_start], of demo_genesis "Nft_op (Nft_create_collection demo_create)"
      "Nft_op (Nft_mint first_mint)"]
  have run: "logged_run demo_genesis 2 db' [] demo_log" using db by (simp add: numeral_2_eq_2 del: announced.simps)
  have "history (custody_step 1) Unminted demo_log = Some (Held ''bob'')" by (simp add: demo_log_def)
  with virtual_operations_tell_histories [OF demo_genesis run, of 1 1] logged_run_chain_run [OF run]
  show ?thesis by auto
qed

end
