(* ===== verification/Charging.thy ===== *)
theory Charging
  imports Virtual_Ops
begin

text \<open>
  Resource credits across the evaluators: \<open>charge\<close> is what an operation costs in a state, with the
  cost functions of \<open>src/rc/costs.cpp\<close> and, for contract calls, the fuel the engine reports;
  \<open>metered_bytes\<close> is the length of the free-form fields of an operation that the fee schedule
  meters: the symbol and name of a collection, uri, memo, preimage, code and call arguments.
  Account names, digests, the initialisation arguments of a deployment and the export name of a
  call are not metered. Every applied operation is charged exactly its cost, which is never zero
  and pays for every metered byte; a rejected one is charged its cost or nothing.
\<close>

section \<open>Charges\<close>

fun nft_charge :: "nft_operation \<Rightarrow> u64" where
  "nft_charge (Nft_create_collection op) = cost_nft_create_collection op"
| "nft_charge (Nft_mint op) = cost_nft_mint op"
| "nft_charge (Nft_transfer op) = cost_nft_transfer op"
| "nft_charge (Nft_approve op) = cost_nft_approve op"
| "nft_charge (Nft_set_approval_for_all op) = cost_nft_set_approval_for_all op"
| "nft_charge (Nft_burn op) = cost_nft_burn op"

fun htlc_charge :: "htlc_operation \<Rightarrow> u64" where
  "htlc_charge (Htlc_create op) = cost_htlc_create op"
| "htlc_charge (Htlc_redeem op) = cost_htlc_redeem op"
| "htlc_charge (Htlc_refund op) = cost_htlc_refund op"

fun charge :: "database \<Rightarrow> operation \<Rightarrow> u64 option" where
  "charge db (Nft_op op) = Some (nft_charge op)"
| "charge db (Htlc_op op) = Some (htlc_charge op)"
| "charge db (Contract_op (Contract_deploy op)) = Some (cost_contract_deploy op)"
| "charge db (Contract_op (Contract_call op)) =
     map_option (\<lambda>res. cost_contract_call op (r_fuel_used res)) (call_outcome db op)"

fun metered_bytes :: "operation \<Rightarrow> nat" where
  "metered_bytes (Nft_op (Nft_create_collection op)) = length (ncc_symbol op) + length (ncc_name op)"
| "metered_bytes (Nft_op (Nft_mint op)) = length (nm_uri op)"
| "metered_bytes (Nft_op (Nft_transfer op)) = length (nt_memo op)"
| "metered_bytes (Nft_op _) = 0"
| "metered_bytes (Htlc_op (Htlc_create op)) = length (hc_memo op)"
| "metered_bytes (Htlc_op (Htlc_redeem op)) = length (hr_preimage op)"
| "metered_bytes (Htlc_op (Htlc_refund op)) = 0"
| "metered_bytes (Contract_op (Contract_deploy op)) = length (cd_code op)"
| "metered_bytes (Contract_op (Contract_call op)) = length (cc_args op)"

definition paid :: "operation \<Rightarrow> u64 \<Rightarrow> bool" where
  "paid op c \<longleftrightarrow> 500 + 2 * metered_bytes op \<le> unat c"

definition charged :: "database \<Rightarrow> operation \<Rightarrow> database outcome \<Rightarrow> bool" where
  "charged db op r \<longleftrightarrow>
     (case r of
        Done db' \<Rightarrow> charge db op = Some (last_rc_charged db') \<and> paid op (last_rc_charged db')
      | Threw e db' \<Rightarrow> last_rc_charged db' = last_rc_charged db \<or> charge db op = Some (last_rc_charged db'))"

section \<open>Evaluators\<close>

lemma flat_costs:
  "unat (cost_nft_approve a) = 500" "unat (cost_nft_set_approval_for_all s) = 600"
  "unat (cost_nft_burn b) = 1000" "unat (cost_htlc_refund f) = 1000"
  by (simp_all add: cost_defs)

lemma charged_nft: "charged db (Nft_op op) (apply_nft db op)"
proof (cases "apply_nft db op")
  case (Done db')
  then have "last_rc_charged db' = nft_charge op \<and> paid (Nft_op op) (nft_charge op)"
    by (cases op)
      (auto simp: paid_def flat_costs cost_nft_exact apply_nft_create_collection_Done apply_nft_mint_Done
        apply_nft_transfer_Done apply_nft_approve_Done apply_nft_set_approval_for_all_Done apply_nft_burn_Done)
  with Done show ?thesis by (simp add: charged_def)
next
  case (Threw e db')
  with apply_nft_Threw_same [OF Threw] show ?thesis by (simp add: charged_def)
qed

lemma adjust_balance_charge:
  "adjust_balance db a x = Done db' \<Longrightarrow> last_rc_charged db' = last_rc_charged db"
  by (auto elim!: adjust_balance_Done)

lemma charged_htlc: "charged db (Htlc_op op) (apply_htlc db op)"
proof (cases "apply_htlc db op")
  case (Done db')
  have "last_rc_charged db' = htlc_charge op \<and> paid (Htlc_op op) (htlc_charge op)"
  proof (cases op)
    case (Htlc_create x)
    with Done apply_htlc_create_Done(2,11) [of db x db'] show ?thesis
      by (simp add: paid_def cost_htlc_exact)
  next
    case (Htlc_redeem x)
    with Done show ?thesis
      by (auto simp: paid_def cost_htlc_exact apply_htlc_redeem_eq redeem_ok_def dest!: adjust_balance_charge)
  next
    case (Htlc_refund x)
    with Done show ?thesis
      by (auto simp: paid_def flat_costs apply_htlc_refund_eq dest!: adjust_balance_charge)
  qed
  with Done show ?thesis by (simp add: charged_def)
next
  case (Threw e db')
  then have "last_rc_charged db' = last_rc_charged db \<or> last_rc_charged db' = htlc_charge op"
    by (cases op) (auto simp: apply_htlc_create_def apply_htlc_redeem_def apply_htlc_refund_def attempt_Threw
        and_then_Threw Let_def dest!: adjust_balance_Threw split: option.splits)
  with Threw show ?thesis by (auto simp: charged_def)
qed

lemma charged_deploy:
  "charged db (Contract_op (Contract_deploy op)) (apply_contract_deploy db op)"
proof (cases "apply_contract_deploy db op")
  case (Done db')
  then have "last_rc_charged db' = cost_contract_deploy op" "validate_contract_deploy op = Inr ()"
    by (auto simp: apply_contract_deploy_def apply_contract_deploy_on_def Let_def attempt_Done checks_Cons_Inr)
  with Done show ?thesis by (simp add: charged_def paid_def cost_contract_exact)
next
  case (Threw e db')
  with dh.deploy_Threw [of db op e db'] show ?thesis by (simp add: charged_def apply_contract_deploy_def)
qed

lemma charged_call: "charged db (Contract_op (Contract_call op)) (apply_contract_call db op)"
proof (cases "call_outcome db op")
  case None
  then show ?thesis
    by (auto simp: charged_def call_outcome_def apply_contract_call_def apply_contract_call_on_def Let_def
        attempt_def split: sum.splits option.splits Option.bind_splits)
next
  case (Some res)
  then have "validate_contract_call op = Inr ()"
    by (auto simp: call_outcome_def checks_Cons_Inr split: sum.splits)
  then have "paid (Contract_op (Contract_call op)) (cost_contract_call op (r_fuel_used res))"
    by (simp add: paid_def cost_contract_exact)
  with Some show ?thesis
    by (auto simp: charged_def call_outcome_def apply_contract_call_def apply_contract_call_on_def Let_def
        attempt_def push_virtual_def split: sum.splits option.splits)
qed

section \<open>Properties\<close>

text \<open>C25: nothing is free. In every state an applied operation is charged exactly the cost of its
  kind (for a contract call, of the fuel the engine reports), at least 500 units and two more for
  each byte of its metered fields (collection symbol and name, uri, memo, preimage, code, call
  arguments); a rejected operation leaves the charge alone or, when it fails after the charge was
  made, is charged that same cost.\<close>

theorem operations_are_charged:
  "case apply_op db op of
     Done db' \<Rightarrow> charge db op = Some (last_rc_charged db') \<and>
       500 + 2 * metered_bytes op \<le> unat (last_rc_charged db')
   | Threw e db' \<Rightarrow> last_rc_charged db' = last_rc_charged db \<or> charge db op = Some (last_rc_charged db')"
proof -
  have "charged db op (apply_op db op)"
  proof (cases op)
    case (Contract_op x)
    then show ?thesis by (cases x) (simp_all add: charged_deploy charged_call)
  qed (simp_all add: charged_nft charged_htlc)
  then show ?thesis unfolding charged_def paid_def .
qed

end
