(* ===== verification/Node_Profiles.thy ===== *)
theory Node_Profiles
  imports Database
begin

text \<open>
  \<open>include/hive_native/chain/node_profiles.hpp\<close>: node profiles and the legality of skip flags.
  Functions on a \<open>node_config&\<close> return the updated configuration; \<open>default_profile\<close> takes the
  build option \<open>HIVE_LIGHT_NODE\<close> as its argument.
\<close>

datatype node_profile = Full | Api_pruned | Mobile_light

definition profile_to_string :: "node_profile \<Rightarrow> string" where
  "profile_to_string p = (case p of
     Full \<Rightarrow> ''full'' | Api_pruned \<Rightarrow> ''api_pruned'' | Mobile_light \<Rightarrow> ''mobile_light'')"

definition config_ok_for_role :: "node_config \<Rightarrow> bool" where
  "config_ok_for_role cfg =
     (if is_consensus_node cfg \<and> (nft_skip_state cfg \<or> htlc_skip_state cfg) then False else True)"

definition sanitize_consensus_skips :: "node_config \<Rightarrow> bool \<times> node_config" where
  "sanitize_consensus_skips cfg =
     (if \<not> is_consensus_node cfg then (True, cfg)
      else
        let ok = True;
            (ok, cfg) = (if nft_skip_state cfg then (False, cfg\<lparr>nft_skip_state := False\<rparr>) else (ok, cfg));
            (ok, cfg) = (if htlc_skip_state cfg then (False, cfg\<lparr>htlc_skip_state := False\<rparr>) else (ok, cfg))
        in (ok, cfg))"

definition apply_profile :: "node_config \<Rightarrow> node_profile \<Rightarrow> node_config" where
  "apply_profile cfg p =
     (let cfg = (case p of
          Full \<Rightarrow> cfg\<lparr>is_consensus_node := True, nft_skip_state := False,
                      htlc_skip_state := False, contracts_skip := False\<rparr>
        | Api_pruned \<Rightarrow> cfg\<lparr>is_consensus_node := False, nft_skip_state := False,
                      htlc_skip_state := False, contracts_skip := True\<rparr>
        | Mobile_light \<Rightarrow> cfg\<lparr>is_consensus_node := False, nft_skip_state := True,
                      htlc_skip_state := True, contracts_skip := True\<rparr>)
      in if is_consensus_node cfg then cfg\<lparr>nft_skip_state := False, htlc_skip_state := False\<rparr>
         else cfg)"

definition apply_profile_db :: "database \<Rightarrow> node_profile \<Rightarrow> database" where
  "apply_profile_db db p = db\<lparr>config := apply_profile (config db) p\<rparr>"

definition make_node_config :: "node_profile \<Rightarrow> node_config" where
  "make_node_config p = apply_profile default_node_config p"

definition default_profile :: "bool \<Rightarrow> node_profile" where
  "default_profile HIVE_LIGHT_NODE = (if HIVE_LIGHT_NODE then Mobile_light else Full)"

definition apply_default_profile :: "bool \<Rightarrow> node_config \<Rightarrow> node_config" where
  "apply_default_profile light cfg = apply_profile cfg (default_profile light)"

definition require_config_ok_for_role :: "node_config \<Rightarrow> exn + unit" where
  "require_config_ok_for_role cfg =
     throw_if (\<not> config_ok_for_role cfg) ''consensus node cannot skip NFT/HTLC state''"

lemma sanitize_eq:
  "sanitize_consensus_skips cfg =
     (config_ok_for_role cfg,
      if is_consensus_node cfg then cfg\<lparr>nft_skip_state := False, htlc_skip_state := False\<rparr> else cfg)"
proof -
  have same: "cfg\<lparr>nft_skip_state := False, htlc_skip_state := False\<rparr> = cfg"
    if "\<not> nft_skip_state cfg" "\<not> htlc_skip_state cfg"
    using that by (cases cfg) simp
  have one: "cfg\<lparr>nft_skip_state := False, htlc_skip_state := False\<rparr> = cfg\<lparr>nft_skip_state := False\<rparr>"
    if "\<not> htlc_skip_state cfg"
    using that by (cases cfg) simp
  have two: "cfg\<lparr>nft_skip_state := False, htlc_skip_state := False\<rparr> = cfg\<lparr>htlc_skip_state := False\<rparr>"
    if "\<not> nft_skip_state cfg"
    using that by (cases cfg) simp
  show ?thesis
    using same one two by (auto simp: sanitize_consensus_skips_def config_ok_for_role_def Let_def)
qed

text \<open>A consensus node never runs without NFT and HTLC state: after a profile has been
  applied or the flags sanitised, the configuration is legal for its role, a legal configuration
  is accepted and an illegal one refused by \<open>require_config_ok_for_role\<close>, sanitising reports
  exactly whether the configuration was legal, keeps the role, the hardfork and the contract
  flag, and is idempotent; and a consensus node with a legal configuration passes the skip-state
  guards of the evaluators.\<close>

lemma profiles_protect_consensus:
  "config_ok_for_role (apply_profile cfg p) \<and>
   config_ok_for_role (snd (sanitize_consensus_skips cfg)) \<and>
   (fst (sanitize_consensus_skips cfg) \<longleftrightarrow> config_ok_for_role cfg) \<and>
   sanitize_consensus_skips (snd (sanitize_consensus_skips cfg)) =
     (True, snd (sanitize_consensus_skips cfg)) \<and>
   (require_config_ok_for_role cfg = Inr () \<longleftrightarrow> fst (sanitize_consensus_skips cfg)) \<and>
   (config_ok_for_role (config db) \<and> is_consensus_node (config db) \<longrightarrow>
      require_full_nft_state db = Inr () \<and> require_full_htlc_state db = Inr ())"
  by (cases p) (auto simp: sanitize_eq config_ok_for_role_def apply_profile_def Let_def
      require_config_ok_for_role_def outcome_simps)

end
