(* ===== verification/Replicas.thy ===== *)
theory Replicas
  imports Chain_System Node_Profiles
begin

text \<open>
  Two nodes that apply the same operations. What a node decides must not depend on what is
  private to it: its profile (as long as it keeps all state), the virtual operations it has not
  flushed yet, the last charge. \<open>twin c v w\<close> relates two databases with equal consensus state and
  equal new virtual operations on top of the old ones \<open>v\<close> and \<open>w\<close>; its first argument says
  whether both nodes run contracts. The collection \<open>twin_intros\<close>
  takes this relation through the combinators, the updates and the guards the evaluators are
  made of, so that each evaluator respects it by its own structure; the locale
  \<open>step_simulation\<close> lifts a relation that every step respects to sequences of steps.

  The second half is the composition of \<open>include/hive_native/chain/node_profiles.hpp\<close> with the
  evaluators: which operations a node of a given profile and hardfork refuses.
\<close>

section \<open>Sequences of steps\<close>

fun replay :: "('s \<Rightarrow> 'o \<Rightarrow> 's outcome) \<Rightarrow> 's \<Rightarrow> 'o list \<Rightarrow> exn option list \<times> 's" where
  "replay step s [] = ([], s)"
| "replay step s (x # xs) =
     (let r = step s x; (es, t) = replay step (outcome_state r) xs
      in ((case r of Done _ \<Rightarrow> None | Threw e _ \<Rightarrow> Some e) # es, t))"

locale step_simulation =
  fixes R :: "'s \<Rightarrow> 't \<Rightarrow> bool"
    and step :: "'s \<Rightarrow> 'o \<Rightarrow> 's outcome"
    and step' :: "'t \<Rightarrow> 'o \<Rightarrow> 't outcome"
  assumes step_rel: "R s t \<Longrightarrow> rel_outcome R (step s x) (step' t x)"
begin

lemma replay_rel:
  "R s t \<Longrightarrow> fst (replay step s xs) = fst (replay step' t xs) \<and>
     R (snd (replay step s xs)) (snd (replay step' t xs))"
proof (induction xs arbitrary: s t)
  case (Cons x xs)
  from step_rel [OF Cons.prems, of x] Cons.IH show ?case
    by (cases rule: outcome.rel_cases) (auto simp: Let_def case_prod_beta)
qed simp

end

section \<open>The relation\<close>

definition keeps_state :: "node_config \<Rightarrow> bool" where
  "keeps_state cfg \<longleftrightarrow> \<not> nft_skip_state cfg \<and> \<not> htlc_skip_state cfg"

definition runs_contracts :: "node_config \<Rightarrow> bool" where
  "runs_contracts cfg \<longleftrightarrow> (contracts_skip cfg \<longrightarrow> is_consensus_node cfg)"

definition consensus_state :: "database \<Rightarrow> database" where
  "consensus_state db = db\<lparr>config := default_node_config, pending_virtual_ops := [], last_rc_charged := 0\<rparr>"

definition twin :: "bool \<Rightarrow> virtual_op list \<Rightarrow> virtual_op list \<Rightarrow> database \<Rightarrow> database \<Rightarrow> bool" where
  "twin c v w db db' \<longleftrightarrow>
     consensus_state db = consensus_state db' \<and> hardfork (config db) = hardfork (config db') \<and>
     keeps_state (config db) \<and> keeps_state (config db') \<and>
     (c \<longrightarrow> runs_contracts (config db) \<and> runs_contracts (config db')) \<and>
     (\<exists>new. pending_virtual_ops db = v @ new \<and> pending_virtual_ops db' = w @ new)"

lemma twin_fields:
  assumes "twin c v w a b"
  shows "head_time a = head_time b" "balances a = balances b" "collections a = collections b"
    "collection_by_symbol a = collection_by_symbol b" "nfts a = nfts b" "operators a = operators b"
    "htlcs a = htlcs b" "contracts a = contracts b" "contract_storage a = contract_storage b"
    "next_collection_id a = next_collection_id b" "next_nft_id a = next_nft_id b"
    "next_htlc_id a = next_htlc_id b" "next_contract_id a = next_contract_id b"
  using assms by (cases a; cases b; simp add: twin_def consensus_state_def)+

named_theorems twin_intros \<open>the relation through combinators and updates\<close>

lemma rel_attempt [twin_intros]:
  "R s t \<Longrightarrow> r = r' \<Longrightarrow> (\<And>x. rel_outcome R (k x) (k' x)) \<Longrightarrow>
     rel_outcome R (attempt s r k) (attempt t r' k')"
  by (cases r) auto

lemma rel_and_then [twin_intros]:
  "rel_outcome R o1 o2 \<Longrightarrow> (\<And>s t. R s t \<Longrightarrow> rel_outcome R (k s) (k' t)) \<Longrightarrow>
     rel_outcome R (and_then o1 k) (and_then o2 k')"
  by (cases o1; cases o2) auto

lemma rel_case_option [twin_intros]:
  "x = y \<Longrightarrow> rel_outcome R n n' \<Longrightarrow> (\<And>z. rel_outcome R (f z) (f' z)) \<Longrightarrow>
     rel_outcome R (case x of None \<Rightarrow> n | Some z \<Rightarrow> f z) (case y of None \<Rightarrow> n' | Some z \<Rightarrow> f' z)"
  by (cases x) auto

lemma rel_if [twin_intros]:
  "b = b' \<Longrightarrow> rel_outcome R x x' \<Longrightarrow> rel_outcome R y y' \<Longrightarrow>
     rel_outcome R (if b then x else y) (if b' then x' else y')"
  by simp

lemma rel_Done [twin_intros]: "R s t \<Longrightarrow> rel_outcome R (Done s) (Done t)"
  by simp

lemma rel_Threw [twin_intros]: "R s t \<Longrightarrow> e = e' \<Longrightarrow> rel_outcome R (Threw e s) (Threw e' t)"
  by simp

lemma twin_push_virtual [twin_intros]:
  "twin c v w a b \<Longrightarrow> n = n' \<Longrightarrow> p = p' \<Longrightarrow> twin c v w (push_virtual a n p) (push_virtual b n' p')"
  by (auto simp: twin_def consensus_state_def push_virtual_def)

lemma twin_updates [twin_intros]:
  assumes "twin c v w a b"
  shows "twin c v w (a\<lparr>last_rc_charged := r\<rparr>) (b\<lparr>last_rc_charged := r'\<rparr>)"
    and "x1 = y1 \<Longrightarrow> twin c v w (a\<lparr>balances := x1\<rparr>) (b\<lparr>balances := y1\<rparr>)"
    and "x2 = y2 \<Longrightarrow> twin c v w (a\<lparr>collections := x2\<rparr>) (b\<lparr>collections := y2\<rparr>)"
    and "x3 = y3 \<Longrightarrow> twin c v w (a\<lparr>collection_by_symbol := x3\<rparr>) (b\<lparr>collection_by_symbol := y3\<rparr>)"
    and "x4 = y4 \<Longrightarrow> twin c v w (a\<lparr>nfts := x4\<rparr>) (b\<lparr>nfts := y4\<rparr>)"
    and "x5 = y5 \<Longrightarrow> twin c v w (a\<lparr>operators := x5\<rparr>) (b\<lparr>operators := y5\<rparr>)"
    and "x6 = y6 \<Longrightarrow> twin c v w (a\<lparr>htlcs := x6\<rparr>) (b\<lparr>htlcs := y6\<rparr>)"
    and "x7 = y7 \<Longrightarrow> twin c v w (a\<lparr>contracts := x7\<rparr>) (b\<lparr>contracts := y7\<rparr>)"
    and "x8 = y8 \<Longrightarrow> twin c v w (a\<lparr>contract_storage := x8\<rparr>) (b\<lparr>contract_storage := y8\<rparr>)"
    and "x9 = y9 \<Longrightarrow> twin c v w (a\<lparr>next_collection_id := x9\<rparr>) (b\<lparr>next_collection_id := y9\<rparr>)"
    and "x9 = y9 \<Longrightarrow> twin c v w (a\<lparr>next_nft_id := x9\<rparr>) (b\<lparr>next_nft_id := y9\<rparr>)"
    and "x9 = y9 \<Longrightarrow> twin c v w (a\<lparr>next_htlc_id := x9\<rparr>) (b\<lparr>next_htlc_id := y9\<rparr>)"
    and "x9 = y9 \<Longrightarrow> twin c v w (a\<lparr>next_contract_id := x9\<rparr>) (b\<lparr>next_contract_id := y9\<rparr>)"
    and "t = t' \<Longrightarrow> twin c v w (a\<lparr>head_time := t\<rparr>) (b\<lparr>head_time := t'\<rparr>)"
  using assms by (cases a; cases b; simp add: twin_def consensus_state_def)+

lemma twin_guards:
  assumes "twin c v w a b"
  shows "require_hardfork a hf = require_hardfork b hf"
    "require_full_nft_state a = require_full_nft_state b"
    "require_full_htlc_state a = require_full_htlc_state b"
    "c \<Longrightarrow> contracts_skip (config a) \<and> \<not> is_consensus_node (config a) \<longleftrightarrow>
     contracts_skip (config b) \<and> \<not> is_consensus_node (config b)"
    "account_exists a x \<longleftrightarrow> account_exists b x" "open_htlc_count a x = open_htlc_count b x"
    "is_operator_approved a x y k \<longleftrightarrow> is_operator_approved b x y k"
  using twin_fields [OF assms] assms
  by (auto simp: twin_def keeps_state_def runs_contracts_def require_hardfork_def require_full_nft_state_def
      require_full_htlc_state_def account_exists_def open_htlc_count_def is_operator_approved_def)

lemma twin_cases [twin_intros]:
  "x = y \<Longrightarrow> twin c v w n n' \<Longrightarrow> (\<And>z. twin c v w (f z) (f' z)) \<Longrightarrow>
     twin c v w (case x of None \<Rightarrow> n | Some z \<Rightarrow> f z) (case y of None \<Rightarrow> n' | Some z \<Rightarrow> f' z)"
  "d = d' \<Longrightarrow> twin c v w s t \<Longrightarrow> twin c v w s' t' \<Longrightarrow>
     twin c v w (if d then s else s') (if d' then t else t')"
  by (simp_all split: option.split)

section \<open>The evaluators respect it\<close>

lemma twin_nft_evaluators:
  assumes "twin c v w a b"
  shows "rel_outcome (twin c v w) (apply_nft_create_collection a cc) (apply_nft_create_collection b cc)"
    and "rel_outcome (twin c v w) (apply_nft_mint a mi) (apply_nft_mint b mi)"
    and "rel_outcome (twin c v w) (apply_nft_transfer a tr) (apply_nft_transfer b tr)"
    and "rel_outcome (twin c v w) (apply_nft_approve a ap) (apply_nft_approve b ap)"
    and "rel_outcome (twin c v w) (apply_nft_set_approval_for_all a sa) (apply_nft_set_approval_for_all b sa)"
    and "rel_outcome (twin c v w) (apply_nft_burn a bu) (apply_nft_burn b bu)"
  unfolding apply_nft_create_collection_def apply_nft_mint_def apply_nft_transfer_def
    apply_nft_approve_def apply_nft_set_approval_for_all_def apply_nft_burn_def Let_def
  by (intro twin_intros assms; simp add: twin_fields [OF assms] twin_guards [OF assms])+

lemma twin_adjust_balance [twin_intros]:
  assumes "twin c v w a b" and "x = y"
  shows "rel_outcome (twin c v w) (adjust_balance a n x) (adjust_balance b n y)"
  unfolding adjust_balance_def Let_def assms(2)
  by (intro twin_intros assms; simp add: twin_fields [OF assms(1)])

lemma twin_htlc_evaluators:
  assumes "twin c v w a b"
  shows "rel_outcome (twin c v w) (apply_htlc_create a cr) (apply_htlc_create b cr)"
    and "rel_outcome (twin c v w) (apply_htlc_redeem a rd) (apply_htlc_redeem b rd)"
    and "rel_outcome (twin c v w) (apply_htlc_refund a rf) (apply_htlc_refund b rf)"
  unfolding apply_htlc_create_def apply_htlc_redeem_def apply_htlc_refund_def Let_def
  by (intro twin_intros assms; simp add: twin_fields [OF assms] twin_guards [OF assms] twin_fields)+

lemma twin_contract_evaluators:
  assumes "twin True v w a b"
  shows "rel_outcome (twin True v w) (apply_contract_deploy a dp) (apply_contract_deploy b dp)"
    and "rel_outcome (twin True v w) (apply_contract_call a ca) (apply_contract_call b ca)"
  unfolding apply_contract_deploy_def apply_contract_call_def apply_contract_deploy_on_def
    apply_contract_call_on_def Let_def
  by (intro twin_intros assms; simp add: twin_fields [OF assms] twin_guards [OF assms])+

lemma twin_apply_nft: "twin c v w a b \<Longrightarrow> rel_outcome (twin c v w) (apply_nft a op) (apply_nft b op)"
  by (cases op) (simp_all add: twin_nft_evaluators)

lemma twin_apply_htlc: "twin c v w a b \<Longrightarrow> rel_outcome (twin c v w) (apply_htlc a op) (apply_htlc b op)"
  by (cases op) (simp_all add: twin_htlc_evaluators)

lemma twin_apply_contract:
  "twin True v w a b \<Longrightarrow> rel_outcome (twin True v w) (apply_contract a op) (apply_contract b op)"
  by (cases op) (simp_all add: twin_contract_evaluators)

text \<open>The inputs of a node: operations and the time of the next block.\<close>

datatype input = Apply operation | Advance time_point_sec

fun take_input :: "database \<Rightarrow> input \<Rightarrow> database outcome" where
  "take_input db (Apply op) = apply_op db op"
| "take_input db (Advance t) = Done (db\<lparr>head_time := t\<rparr>)"

lemma twin_apply_op: "twin True v w a b \<Longrightarrow> rel_outcome (twin True v w) (apply_op a op) (apply_op b op)"
  by (cases op) (simp_all add: twin_apply_nft twin_apply_htlc twin_apply_contract)

interpretation replica: step_simulation "twin True v w" take_input take_input
proof
  fix a b x
  assume "twin True v w a b"
  then show "rel_outcome (twin True v w) (take_input a x) (take_input b x)"
    by (cases x) (simp_all add: twin_apply_op twin_updates)
qed

section \<open>Profiles and hardforks\<close>

text \<open>A consensus node with a legal configuration keeps all state.\<close>

lemma consensus_keeps_all:
  "is_consensus_node cfg \<Longrightarrow> config_ok_for_role cfg \<Longrightarrow> keeps_state cfg \<and> runs_contracts cfg"
  by (simp add: keeps_state_def runs_contracts_def config_ok_for_role_def split: if_splits)

lemma nft_gate:
  assumes "hardfork (config db) < HIVE_HARDFORK_NFT \<or> nft_skip_state (config db)"
  shows "\<exists>msg. apply_nft db op = Threw (Protocol_error msg) db"
  using assms
  by (cases op) (auto simp: apply_nft_create_collection_def apply_nft_mint_def apply_nft_transfer_def
      apply_nft_approve_def apply_nft_set_approval_for_all_def apply_nft_burn_def
      require_hardfork_def require_full_nft_state_def throw_if_def)

lemma htlc_gate:
  assumes "hardfork (config db) < HIVE_HARDFORK_HTLC \<or> htlc_skip_state (config db)"
  shows "\<exists>msg. apply_htlc db op = Threw (Protocol_error msg) db"
  using assms
  by (cases op) (auto simp: apply_htlc_create_def apply_htlc_redeem_def apply_htlc_refund_def
      require_hardfork_def require_full_htlc_state_def throw_if_def)

lemma contract_gate:
  assumes "hardfork (config db) < HIVE_HARDFORK_CONTRACTS \<or>
    contracts_skip (config db) \<and> \<not> is_consensus_node (config db)"
  shows "\<exists>msg. apply_contract db op = Threw (Protocol_error msg) db"
  using assms
  by (cases op) (auto simp: apply_contract_deploy_def apply_contract_call_def
      apply_contract_deploy_on_def apply_contract_call_on_def require_hardfork_def throw_if_def)

section \<open>Properties\<close>

text \<open>C6: consensus nodes agree. Two consensus nodes with legal configurations and the same
  hardfork that start from the same consensus state and take the same operations and block times
  accept and reject the same ones, with the same exceptions, end in the same consensus state and
  announce the same virtual operations, whatever differs in the rest of their configuration, in
  what they have not flushed yet and in their last charge.\<close>

theorem consensus_nodes_agree:
  assumes "consensus_state a = consensus_state b" and "hardfork (config a) = hardfork (config b)"
    and "is_consensus_node (config a)" "config_ok_for_role (config a)"
    and "is_consensus_node (config b)" "config_ok_for_role (config b)"
    and "replay take_input a xs = (es, a')" and "replay take_input b xs = (es', b')"
  shows "es = es' \<and> consensus_state a' = consensus_state b' \<and>
    (\<exists>new. pending_virtual_ops a' = pending_virtual_ops a @ new \<and>
           pending_virtual_ops b' = pending_virtual_ops b @ new)"
proof -
  have "twin True (pending_virtual_ops a) (pending_virtual_ops b) a b"
    using assms(1-6) by (simp add: twin_def consensus_keeps_all)
  from replica.replay_rel [OF this, of xs] assms(7,8) show ?thesis by (simp add: twin_def)
qed

definition demo_inputs :: "input list" where
  "demo_inputs = [Advance 5, Apply (Nft_op (Nft_burn \<lparr>nb_owner = ''alice'', nb_nft_id = 1\<rparr>))]"

definition demo_twin :: database where
  "demo_twin = demo_genesis\<lparr>config := default_node_config\<lparr>contracts_skip := True\<rparr>,
     pending_virtual_ops := [\<lparr>v_name = ''old'', v_payload_json = ''{}''\<rparr>], last_rc_charged := 7\<rparr>"

theorem consensus_nodes_agree_witness:
  "fst (replay take_input demo_genesis demo_inputs) = fst (replay take_input demo_twin demo_inputs) \<and>
   consensus_state (snd (replay take_input demo_genesis demo_inputs)) =
     consensus_state (snd (replay take_input demo_twin demo_inputs))"
proof -
  have "consensus_state demo_genesis = consensus_state demo_twin"
    "hardfork (config demo_genesis) = hardfork (config demo_twin)"
    "is_consensus_node (config demo_genesis)" "config_ok_for_role (config demo_genesis)"
    "is_consensus_node (config demo_twin)" "config_ok_for_role (config demo_twin)"
    by (simp_all add: demo_twin_def demo_genesis_def demo_simps consensus_state_def config_ok_for_role_def)
  from consensus_nodes_agree [OF this prod.collapse [symmetric] prod.collapse [symmetric]]
  show ?thesis by blast
qed

text \<open>C12: profiles decide what is refused. A light node and a node before the first of the
  three hardforks refuse every operation, a pruned API node every contract operation, with a
  \<open>protocol_error\<close> and no effect at all; but on NFT and HTLC operations a pruned API node ends in
  the same consensus state as a full node, with the same virtual operations and exceptions.\<close>

theorem profiles_decide_what_is_refused:
  fixes db
  defines "light \<equiv> apply_profile_db db Mobile_light" and "api \<equiv> apply_profile_db db Api_pruned"
    and "full \<equiv> apply_profile_db db Full"
  shows "(\<exists>msg. apply_op light op = Threw (Protocol_error msg) light) \<and>
    (\<exists>msg. apply_op api (Contract_op k) = Threw (Protocol_error msg) api) \<and>
    (hardfork (config db) < HIVE_HARDFORK_NFT \<longrightarrow> (\<exists>msg. apply_op db op = Threw (Protocol_error msg) db)) \<and>
    rel_outcome (\<lambda>a b. consensus_state a = consensus_state b \<and> pending_virtual_ops a = pending_virtual_ops b)
      (apply_op api (Nft_op t)) (apply_op full (Nft_op t)) \<and>
    rel_outcome (\<lambda>a b. consensus_state a = consensus_state b \<and> pending_virtual_ops a = pending_virtual_ops b)
      (apply_op api (Htlc_op h)) (apply_op full (Htlc_op h))"
proof -
  have same: "rel_outcome (\<lambda>a b. consensus_state a = consensus_state b \<and>
      pending_virtual_ops a = pending_virtual_ops b) x y" if "rel_outcome (twin False [] []) x y" for x y
    using that by (rule outcome.rel_mono_strong) (simp add: twin_def)
  have "twin False [] [] api full"
    by (simp add: api_def full_def apply_profile_db_def apply_profile_def twin_def keeps_state_def
        consensus_state_def)
  note same [OF twin_apply_nft [OF this, of t]] same [OF twin_apply_htlc [OF this, of h]]
  moreover have "\<exists>msg. apply_op light op = Threw (Protocol_error msg) light"
    by (cases op) (simp_all add: nft_gate htlc_gate contract_gate light_def apply_profile_db_def apply_profile_def)
  moreover have "\<exists>msg. apply_op api (Contract_op k) = Threw (Protocol_error msg) api"
    by (simp add: contract_gate api_def apply_profile_db_def apply_profile_def)
  moreover have "\<exists>msg. apply_op db op = Threw (Protocol_error msg) db" if "hardfork (config db) < HIVE_HARDFORK_NFT"
    using that
    by (cases op) (simp_all add: nft_gate htlc_gate contract_gate hive_constants word_less_nat_alt)
  ultimately show ?thesis by simp
qed

theorem profiles_decide_what_is_refused_witness:
  "let db = demo_genesis\<lparr>config := default_node_config\<lparr>hardfork := 0\<rparr>\<rparr>
   in \<exists>msg. apply_op db (Nft_op (Nft_burn \<lparr>nb_owner = ''alice'', nb_nft_id = 1\<rparr>)) =
        Threw (Protocol_error msg) db"
  using profiles_decide_what_is_refused
    [of "demo_genesis\<lparr>config := default_node_config\<lparr>hardfork := 0\<rparr>\<rparr>"
      "Nft_op (Nft_burn \<lparr>nb_owner = ''alice'', nb_nft_id = 1\<rparr>)"]
  by (simp add: Let_def hive_constants)

end
