(* ===== verification/Authority.thy ===== *)
theory Authority
  imports Replicas Event_Log
begin

text \<open>
  What the evaluators guarantee to an account holder. The first half is about an account whose
  authority no operation carries: the two abstract machines of \<open>Nft\<close> and \<open>Htlc\<close> act on behalf of
  one account, so what they refine cannot take anything from another one; \<open>unharmed a S\<close> collects
  what is kept for account \<open>a\<close> when the accounts in \<open>S\<close> sign, over all operations of the chain. The
  second half is the purpose of hash time-locks, the atomic swap: a redeemed lock reveals a preimage with which every lock
  on the same digest and preimage size can be claimed until it expires.
\<close>

section \<open>Authorities\<close>

fun required_authorities :: "operation \<Rightarrow> account_name_type list" where
  "required_authorities (Nft_op op) = nft_required_authorities op"
| "required_authorities (Htlc_op op) = htlc_required_authorities op"
| "required_authorities (Contract_op op) = contract_required_authorities op"

fun input_authorities :: "input \<Rightarrow> account_name_type list" where
  "input_authorities (Apply op) = required_authorities op"
| "input_authorities (Advance t) = []"

definition signers :: "input list \<Rightarrow> account_name_type set" where
  "signers xs = (\<Union>x \<in> set xs. set (input_authorities x))"

section \<open>What an account keeps\<close>

text \<open>The token belongs to \<open>a\<close>, and \<open>a\<close> has authorised none of the accounts in \<open>S\<close> to move it: neither
  for this token, nor as operator for its collection or for all collections.\<close>

definition entrusts_nobody :: "account_name_type \<Rightarrow> account_name_type set \<Rightarrow> nft_ledger \<Rightarrow> nft_id_type \<Rightarrow> bool" where
  "entrusts_nobody a S L i \<longleftrightarrow>
     owner_of L i = Some a \<and> (\<forall>q \<in> S. approved_of L i \<noteq> Some q) \<and>
     (\<forall>q \<in> S. \<forall>c. collection_of L i = Some c \<longrightarrow> (a, q, c) \<notin> operator_for L \<and> (a, q, 0) \<notin> operator_for L)"

definition tokens_unharmed :: "account_name_type \<Rightarrow> account_name_type set \<Rightarrow> nft_ledger \<Rightarrow> nft_ledger \<Rightarrow> bool" where
  "tokens_unharmed a S L L' \<longleftrightarrow>
     (\<forall>q c. (a, q, c) \<in> operator_for L' \<longleftrightarrow> (a, q, c) \<in> operator_for L) \<and>
     (\<forall>i. entrusts_nobody a S L i \<longrightarrow>
        owner_of L' i = Some a \<and> approved_of L' i = approved_of L i \<and> collection_of L' i = collection_of L i)"

definition lock_unharmed :: "account_name_type \<Rightarrow> htlc_object \<Rightarrow> htlc_object \<Rightarrow> bool" where
  "lock_unharmed a h h' \<longleftrightarrow>
     h' = h \<or> (h' = h\<lparr>h_status := Redeemed\<rparr> \<and> h_to h \<noteq> a) \<or> (h' = h\<lparr>h_status := Refunded\<rparr> \<and> h_from h \<noteq> a)"

definition unharmed :: "account_name_type \<Rightarrow> account_name_type set \<Rightarrow> database \<Rightarrow> database \<Rightarrow> bool" where
  "unharmed a S db db' \<longleftrightarrow>
     (\<forall>sy. bal db' sy a = bal db sy a) \<and> tokens_unharmed a S (ledger_of db) (ledger_of db') \<and>
     (\<forall>i h. om_find (htlcs db) i = Some h \<longrightarrow> (\<exists>h'. om_find (htlcs db') i = Some h' \<and> lock_unharmed a h h')) \<and>
     (\<forall>i x. om_find (contracts db) i = Some x \<longrightarrow> om_find (contracts db') i = Some x)"

lemma lock_unharmed_intros:
  "lock_unharmed a h h" "h_to h \<noteq> a \<Longrightarrow> lock_unharmed a h (h\<lparr>h_status := Redeemed\<rparr>)"
  "h_from h \<noteq> a \<Longrightarrow> lock_unharmed a h (h\<lparr>h_status := Refunded\<rparr>)"
  unfolding lock_unharmed_def by blast+

lemma lock_unharmed_trans: "lock_unharmed a h h' \<Longrightarrow> lock_unharmed a h' h'' \<Longrightarrow> lock_unharmed a h h''"
  unfolding lock_unharmed_def by (elim disjE conjE; simp)

lemma tokens_unharmed_refl: "tokens_unharmed a S L L"
  by (simp add: tokens_unharmed_def entrusts_nobody_def)

lemma tokens_unharmed_trans:
  assumes "tokens_unharmed a S L L'" "tokens_unharmed a S L' L''"
  shows "tokens_unharmed a S L L''"
proof -
  have "entrusts_nobody a S L' i" if "entrusts_nobody a S L i" for i
    using assms(1) that by (simp add: tokens_unharmed_def entrusts_nobody_def)
  with assms show ?thesis by (simp add: tokens_unharmed_def)
qed

lemma unharmed_trans:
  assumes "unharmed a S db db'" "unharmed a S db' db''"
  shows "unharmed a S db db''"
proof -
  have "\<exists>h''. om_find (htlcs db'') i = Some h'' \<and> lock_unharmed a h h''"
    if "om_find (htlcs db) i = Some h" for i h
    using assms that lock_unharmed_trans unfolding unharmed_def by meson
  with assms tokens_unharmed_trans show ?thesis by (auto simp: unharmed_def)
qed

lemma unharmed_same:
  "balances db' = balances db \<Longrightarrow> ledger_of db' = ledger_of db \<Longrightarrow> htlcs db' = htlcs db \<Longrightarrow>
     \<forall>i x. om_find (contracts db) i = Some x \<longrightarrow> om_find (contracts db') i = Some x \<Longrightarrow> unharmed a S db db'"
  by (simp add: unharmed_def tokens_unharmed_refl lock_unharmed_intros bal_def)

lemma ledger_step_silent:
  assumes "ledger_step L b act L'" and "b \<in> S" and "a \<notin> S"
  shows "tokens_unharmed a S L L'"
  using assms
  by (cases rule: ledger_step.cases) (auto simp: tokens_unharmed_def entrusts_nobody_def may_move_def)

lemma ledger_of_frame:
  "nfts db' = nfts db \<Longrightarrow> operators db' = operators db \<Longrightarrow> collections db' = collections db \<Longrightarrow>
     ledger_of db' = ledger_of db"
  by (simp add: ledger_of_def creators_def fun_eq_iff)

lemma unharmed_nft:
  assumes inv: "nft_inv db" and signed: "set (nft_required_authorities op) \<subseteq> S" and silent: "a \<notin> S"
  shows "unharmed a S db (outcome_state (apply_nft db op))"
proof (cases "apply_nft db op")
  case (Done db')
  have "hd (nft_required_authorities op) \<in> set (nft_required_authorities op)" by (cases op) auto
  with ledger_step_silent [OF apply_nft_refines [OF inv Done] _ silent] signed
  have "tokens_unharmed a S (ledger_of db) (ledger_of db')" by blast
  with apply_nft_frame [OF Done] Done show ?thesis
    by (simp add: unharmed_def lock_unharmed_intros bal_def)
next
  case (Threw e db')
  with apply_nft_Threw_same [OF Threw] show ?thesis by (simp add: unharmed_same)
qed

lemma escrow_step_silent:
  assumes "escrow_step now E b E'" and "b \<noteq> a"
  shows "e_bal E' sy a = e_bal E sy a"
    and "e_lock E i = Some h \<Longrightarrow> \<exists>h'. e_lock E' i = Some h' \<and> lock_unharmed a h h'"
proof -
  show "e_bal E' sy a = e_bal E sy a"
    using assms by (cases rule: escrow_step.cases) (auto simp: pay_def)
  show "\<exists>h'. e_lock E' i = Some h' \<and> lock_unharmed a h h'" if "e_lock E i = Some h"
    using escrow_step_lock [OF assms(1) that] assms(2)
    by (elim disjE conjE) (simp_all add: lock_unharmed_intros)
qed

lemma unharmed_htlc:
  assumes inv: "htlc_inv db" and silent: "a \<notin> set (htlc_required_authorities op)"
  shows "unharmed a S db (outcome_state (apply_htlc db op))"
proof (cases "apply_htlc db op")
  case (Done db')
  have "hd (htlc_required_authorities op) \<noteq> a" using silent by (cases op) auto
  note quiet = escrow_step_silent [OF apply_htlc_refines_escrow [OF inv Done] this]
  have "same_elsewhere db db'" by (rule apply_htlc_frame [OF Done])
  then have "ledger_of db' = ledger_of db" "contracts db' = contracts db"
    by (auto simp: same_elsewhere_def intro!: ledger_of_frame)
  with quiet Done show ?thesis
    by (simp add: unharmed_def tokens_unharmed_refl escrow_of_def)
next
  case (Threw e db')
  with apply_htlc_Threw [OF Threw] show ?thesis by (auto intro!: unharmed_same)
qed

lemma unharmed_contract:
  assumes inv: "contract_inv db"
  shows "unharmed a S db (outcome_state (apply_contract db op))"
proof (rule unharmed_same)
  let ?db' = "outcome_state (apply_contract db op)"
  have o: "other_tables_same db ?db'" by (rule apply_contract_other_tables [OF inv])
  then show "balances ?db' = balances db" "htlcs ?db' = htlcs db" "ledger_of ?db' = ledger_of db"
    by (auto simp: other_tables_same_def intro!: ledger_of_frame)
  show "\<forall>i x. om_find (contracts db) i = Some x \<longrightarrow> om_find (contracts ?db') i = Some x"
  proof (cases op)
    case (Contract_deploy x)
    then show ?thesis
      using dh.deploy_Done(3) [of db x] dh.deploy_Threw [of db x] contract_fresh [OF inv]
      by (cases "apply_contract_deploy db x") (auto simp: apply_contract_deploy_def)
  qed (simp add: call_keeps_contracts [OF inv])
qed

lemma unharmed_input:
  assumes "chain_inv db" and "set (input_authorities x) \<subseteq> S" and "a \<notin> S"
  shows "unharmed a S db (outcome_state (take_input db x))"
proof (cases x)
  case (Apply op)
  moreover from this assms(2,3) have "a \<notin> set (required_authorities op)" by auto
  ultimately show ?thesis
    using assms by (cases op) (simp_all add: chain_inv_def unharmed_nft unharmed_htlc unharmed_contract)
qed (auto intro!: unharmed_same ledger_of_frame)

lemma chain_inv_input:
  assumes "chain_inv db" and "ids_below k db" and "k < 2 ^ 64 - 1"
  shows "chain_inv (outcome_state (take_input db x)) \<and> ids_below (Suc k) (outcome_state (take_input db x))"
proof (cases x)
  case (Apply op)
  then show ?thesis
    using chain_inv_apply_op [OF assms] ids_below_step [OF assms(2) ids_step_apply_op [OF assms(1)]] by simp
next
  case (Advance t)
  then have "chain_inv (db\<lparr>head_time := t\<rparr>)"
    using assms(1) by (auto simp: other_tables_same_def intro!: chain_inv_frame [of db])
  with Advance assms(2) show ?thesis by (simp add: ids_below_def)
qed

lemma unharmed_replay:
  assumes "chain_inv db" and "ids_below k db" and "k + length xs < 2 ^ 64"
    and "signers xs \<subseteq> S" and "a \<notin> S"
  shows "unharmed a S db (snd (replay take_input db xs))"
  using assms(1-4)
proof (induction xs arbitrary: db k)
  case Nil
  show ?case by (simp add: unharmed_same)
next
  case (Cons x xs)
  then have room: "k < 2 ^ 64 - 1" by simp
  from chain_inv_input [OF Cons.prems(1,2) room] Cons.prems(3,4)
  have "unharmed a S (outcome_state (take_input db x)) (snd (replay take_input (outcome_state (take_input db x)) xs))"
    by (intro Cons.IH) (auto simp: signers_def)
  moreover have "unharmed a S db (outcome_state (take_input db x))"
    using Cons.prems(1,4) assms(5) by (intro unharmed_input) (auto simp: signers_def)
  ultimately show ?case by (auto simp: Let_def case_prod_beta intro: unharmed_trans)
qed

section \<open>Revealed preimages\<close>

lemma apply_op_config:
  assumes "chain_inv db"
  shows "config (outcome_state (apply_op db op)) = config db"
proof (cases op)
  case (Nft_op x)
  show ?thesis
  proof (cases "apply_nft db x")
    case (Done db')
    then have "config db' = config db"
      by (cases x) (auto simp: apply_nft_create_collection_Done apply_nft_mint_Done
          apply_nft_transfer_Done apply_nft_approve_Done apply_nft_set_approval_for_all_Done
          apply_nft_burn_Done)
    with Nft_op Done show ?thesis by simp
  next
    case (Threw e db')
    with Nft_op apply_nft_Threw_same [OF Threw] show ?thesis by simp
  qed
next
  case (Htlc_op x)
  then show ?thesis
    using apply_htlc_frame(1) [of db x] apply_htlc_Threw [of db x]
    by (cases "apply_htlc db x") (auto simp: same_elsewhere_def)
next
  case (Contract_op x)
  then show ?thesis
    using assms apply_contract_other_tables [of db x] by (simp add: chain_inv_def other_tables_same_def)
qed

text \<open>The configuration and the validity of account names, along a run.\<close>

definition same_setting :: "database \<Rightarrow> database \<Rightarrow> bool" where
  "same_setting db db' \<longleftrightarrow> config db' = config db \<and> (names_ok db \<longrightarrow> names_ok db')"

interpretation settings: run_relation same_setting
proof
  fix db db' db''
  show "same_setting db db" by (simp add: same_setting_def)
  show "same_setting db db' \<Longrightarrow> same_setting db' db'' \<Longrightarrow> same_setting db db''"
    by (simp add: same_setting_def)
  show "same_setting db db'" if "chain_inv db" "chain_step db db'"
    using that(2)
  proof (cases rule: chain_step.cases)
    case (step_op op)
    with apply_op_config [OF that(1)] names_ok_op [OF that(1)] show ?thesis
      by (simp add: same_setting_def)
  qed (auto simp: same_setting_def clear_virtual_def names_ok_def account_exists_def)
qed

lemma revealed_redeem_ok:
  assumes "redeem_ok db op b" and inv: "htlc_inv db2" and names: "names_ok db2"
    and cfg: "config db2 = config db"
    and lock: "om_find (htlcs db2) j = Some a" "h_status a = Open" "head_time db2 < h_expiration a"
    and secret: "h_preimage_hash a = h_preimage_hash b" "h_preimage_size a = h_preimage_size b"
  shows "redeem_ok db2 \<lparr>hr_to = h_to a, hr_htlc_id = j, hr_preimage = hr_preimage op\<rparr> a"
proof -
  have "account_exists db2 (h_to a)" by (rule htlc_ids [OF inv lock(1)])
  then have "account_name_ok (h_to a)" using names by (simp add: names_ok_def)
  moreover have "j \<noteq> 0" using inv lock(1) by (auto simp: htlc_inv_def table_ok_def)
  ultimately show ?thesis
    using assms(1) cfg lock secret
    by (simp add: redeem_ok_def htlc_enabled_def validate_htlc_redeem_Inr preimage_matches_def)
qed

lemma redeem_pays:
  assumes "apply_htlc_redeem db op = Done db'" and "om_find (htlcs db) (hr_htlc_id op) = Some h"
  shows "bal db' (symbol (h_amount h)) (h_to h) =
    bal db (symbol (h_amount h)) (h_to h) + sint (amount (h_amount h))"
  using assms by (auto simp: closes_def moved_def redeem_ok_def elim!: apply_htlc_redeem_Done)

lemma run_redeemed:
  assumes "chain_inv db" and "ids_below k db" and "apply_htlc_redeem db op = Done db1"
    and "chain_run m db1 db2" and "k + m < 2 ^ 64 - 1"
  shows "chain_inv db2" "same_setting db db2" "locks_progress db db2"
proof -
  have one: "chain_run 1 db db1"
    using run_step [OF run_start, OF step_op, of db "Htlc_op (Htlc_redeem op)"] assms(3) by simp
  have inv1: "chain_inv db1" "ids_below (k + 1) db1" "same_setting db db1" "locks_progress db db1"
    using chain_run_inv [OF one assms(1,2)] settings.run [OF one assms(1,2)] locks.run [OF one assms(1,2)]
      assms(5) by auto
  show "chain_inv db2" "same_setting db db2" "locks_progress db db2"
    using chain_run_inv [OF assms(4) inv1(1,2)] settings.run [OF assms(4) inv1(1,2)]
      locks.run [OF assms(4) inv1(1,2)] assms(5) settings.R_trans [OF inv1(3)] locks.R_trans [OF inv1(4)]
    by auto
qed

text \<open>A lock that declares another size than the published preimage has cannot be claimed with it:
  both parties of a swap have to compare the sizes as well as the digests.\<close>

lemma swap_needs_the_same_size:
  assumes "apply_htlc_redeem db op = Done db1" and "om_find (htlcs db) (hr_htlc_id op) = Some b"
    and "om_find (htlcs db2) j = Some a" and "h_preimage_size a \<noteq> h_preimage_size b"
  shows "apply_htlc_redeem db2 \<lparr>hr_to = x, hr_htlc_id = j, hr_preimage = hr_preimage op\<rparr> \<noteq> Done db3"
  using assms by (auto simp: redeem_ok_def preimage_matches_def word_unat_eq_iff elim!: apply_htlc_redeem_Done)

section \<open>Properties\<close>

lemma demo_nft_chain: "chain_inv demo_nft_db" "ids_below 2 demo_nft_db"
proof -
  have "total_supply sy demo_nft_db \<le> INT64_MAX" for sy
    by (cases sy)
      (simp_all add: total_supply_def total_liquid_def total_locked_def om_sum_put
        balance_field_def demo_nft_simps INT64_MAX_def)
  moreover have "0 \<le> bal demo_nft_db sy acc" for sy acc
    by (simp add: bal_def balance_field_def demo_nft_simps)
  ultimately have "funds_inv demo_nft_db"
    by (simp add: funds_inv_def)
  moreover have "htlc_inv demo_nft_db" "contract_inv demo_nft_db"
    by (simp_all add: htlc_inv_def open_htlcs_def contract_inv_def demo_nft_simps table_ok_empty)
  ultimately show "chain_inv demo_nft_db"
    by (simp add: chain_inv_def nft_inv_demo)
qed (simp add: ids_below_def demo_nft_simps)

text \<open>C7: nobody loses anything without having signed. Over any sequence of operations and block
  times none of which carries the authority of an account, its HIVE and HBD balances and the set
  of its operators stay exactly the same; every token it owns stays with it, with the same
  approved account, unless an account that does sign is the approved account of that token or an
  operator of the owner for its collection; no lock in its favour is redeemed and no lock it made
  is refunded behind its back, and no lock and no deployed contract disappears or is altered
  otherwise.\<close>

theorem silent_accounts_lose_nothing:
  assumes "chain_inv db" and "ids_below k db" and "k + length xs < 2 ^ 64" and "a \<notin> signers xs"
  shows "unharmed a (signers xs) db (snd (replay take_input db xs))"
  by (rule unharmed_replay [OF assms(1-3) order.refl assms(4)])

theorem silent_accounts_lose_nothing_witness:
  "fst (replay take_input demo_nft_db [Apply (Nft_op demo_mint)]) = [None] \<and>
   owner_of (ledger_of (snd (replay take_input demo_nft_db [Apply (Nft_op demo_mint)]))) 1 = Some ''bob'' \<and>
   bal (snd (replay take_input demo_nft_db [Apply (Nft_op demo_mint)])) HIVE ''bob'' = bal demo_nft_db HIVE ''bob''"
proof -
  let ?xs = "[Apply (Nft_op demo_mint)]"
  have "\<exists>db'. apply_nft demo_nft_db demo_mint = Done db'"
    by (simp add: demo_mint_def apply_nft_mint_Done nft_enabled_def outcome_simps demo_nft_simps)
  then have "fst (replay take_input demo_nft_db ?xs) = [None]" by auto
  moreover have signed: "signers ?xs = {''alice''}" by (simp add: signers_def demo_mint_def)
  then have "unharmed ''bob'' {''alice''} demo_nft_db (snd (replay take_input demo_nft_db ?xs))"
    using silent_accounts_lose_nothing [OF demo_nft_chain, of ?xs "''bob''"] by simp
  moreover have "entrusts_nobody ''bob'' {''alice''} (ledger_of demo_nft_db) 1"
    by (simp add: entrusts_nobody_def ledger_of_def demo_nft_simps)
  ultimately show ?thesis unfolding unharmed_def tokens_unharmed_def by blast
qed

text \<open>C8: atomic swaps. Let an account redeem a lock, which publishes the preimage, while another
  lock on the same digest and with the same declared preimage size is open. At any later state
  before the expiration of the other lock,
  either its receiver has already been paid, or the published preimage redeems it and pays the
  receiver in full: whoever collects one side of a swap cannot keep the other side from being
  collected in time. (The sizes have to agree, by \<open>swap_needs_the_same_size\<close>.)\<close>

theorem atomic_swap:
  assumes "chain_inv db" and "ids_below k db" and "names_ok db"
    and "apply_htlc_redeem db op = Done db1" and "chain_run m db1 db2" and "k + m < 2 ^ 64 - 1"
    and "om_find (htlcs db) (hr_htlc_id op) = Some b" and "om_find (htlcs db) j = Some a" "h_status a = Open"
    and "h_preimage_hash a = h_preimage_hash b" "h_preimage_size a = h_preimage_size b"
    and "head_time db2 < h_expiration a"
  shows "om_find (htlcs db2) j = Some (a\<lparr>h_status := Redeemed\<rparr>) \<or>
    (\<exists>db3. apply_htlc_redeem db2 \<lparr>hr_to = h_to a, hr_htlc_id = j, hr_preimage = hr_preimage op\<rparr> = Done db3 \<and>
       bal db3 (symbol (h_amount a)) (h_to a) =
         bal db2 (symbol (h_amount a)) (h_to a) + sint (amount (h_amount a)))"
proof -
  note run = run_redeemed [OF assms(1,2,4-6)]
  from assms(4,7) have ok: "redeem_ok db op b"
    by (auto simp: redeem_ok_def elim!: apply_htlc_redeem_Done)
  obtain a' where a': "om_find (htlcs db2) j = Some a'" "lock_after db db2 a a'"
    using run(3) assms(8) unfolding locks_progress_def by blast
  then obtain st where st: "a' = a\<lparr>h_status := st\<rparr>" "st = Refunded \<longrightarrow> h_expiration a \<le> head_time db2"
    using assms(9) unfolding lock_after_def by auto
  show ?thesis
  proof (cases st)
    case Open
    then have same: "a' = a" using st(1) assms(9) by (cases a) simp
    have set: "config db2 = config db" "names_ok db2" using run(2) assms(3) by (simp_all add: same_setting_def)
    have inv: "htlc_inv db2" "funds_inv db2" using run(1) by (simp_all add: chain_inv_def)
    from revealed_redeem_ok [OF ok inv(1) set(2,1) a'(1) [unfolded same] assms(9,12,10,11)]
      apply_htlc_redeem_succeeds [OF inv] redeem_pays a'(1) same
    show ?thesis by fastforce
  next
    case Redeemed
    with st(1) a'(1) show ?thesis by simp
  next
    case Refunded
    with st(2) assms(12) show ?thesis by simp
  qed
qed

text \<open>Both sides of a swap between alice and bob.\<close>

definition demo_counter :: htlc_object where
  "demo_counter = demo_htlc\<lparr>h_id := 2, h_from := ''bob'', h_to := ''alice'',
     h_amount := \<lparr>amount = 500, symbol = HBD\<rparr>\<rparr>"

definition demo_swap_db :: database where
  "demo_swap_db = demo_htlc_db\<lparr>next_htlc_id := 3, htlcs := om_put (htlcs demo_htlc_db) 2 demo_counter\<rparr>"

lemmas demo_swap_simps = demo_swap_db_def demo_counter_def demo_htlc_simps

lemma demo_swap_chain: "chain_inv demo_swap_db" "ids_below 3 demo_swap_db" "names_ok demo_swap_db"
proof -
  have "htlc_inv demo_swap_db"
    by (simp add: htlc_inv_def htlc_ok_def open_htlcs_def table_ok_def om_count_put_new demo_swap_simps
        digest_size_def)
  moreover have "total_supply sy demo_swap_db \<le> INT64_MAX" for sy
    by (cases sy)
      (simp_all add: total_supply_def total_liquid_def total_locked_def om_sum_put locked_in_def
        balance_field_def demo_swap_simps INT64_MAX_def)
  moreover have "0 \<le> bal demo_swap_db sy acc" for sy acc
    by (simp add: bal_def balance_field_def demo_swap_simps)
  moreover have "nft_inv demo_swap_db" "contract_inv demo_swap_db"
    by (simp_all add: nft_inv_defs contract_inv_def demo_swap_simps table_ok_empty)
  ultimately show "chain_inv demo_swap_db" by (simp add: chain_inv_def funds_inv_def)
  show "ids_below 3 demo_swap_db" by (simp add: ids_below_def demo_swap_simps)
  show "names_ok demo_swap_db" by (simp add: names_ok_def demo_swap_simps)
qed

theorem atomic_swap_witness:
  "\<exists>db1 db3. apply_htlc_redeem demo_swap_db demo_redeem = Done db1 \<and>
     apply_htlc_redeem db1 \<lparr>hr_to = ''alice'', hr_htlc_id = 2, hr_preimage = [1, 2, 3]\<rparr> = Done db3"
proof -
  have inv: "htlc_inv demo_swap_db" "funds_inv demo_swap_db"
    using demo_swap_chain(1) by (simp_all add: chain_inv_def)
  have "redeem_ok demo_swap_db demo_redeem demo_htlc"
    by (simp add: redeem_ok_def htlc_enabled_def validate_htlc_redeem_Inr preimage_matches_def
        demo_redeem_def demo_swap_simps)
  from apply_htlc_redeem_succeeds [OF inv this] obtain db1 where
    db1: "apply_htlc_redeem demo_swap_db demo_redeem = Done db1" by blast
  then have after: "htlcs db1 = om_put (htlcs demo_swap_db) 1 (demo_htlc\<lparr>h_status := Redeemed\<rparr>)"
    "head_time db1 = 1700000000"
    by (auto simp: closes_def redeem_ok_def same_elsewhere_def demo_redeem_def demo_swap_simps
        elim!: apply_htlc_redeem_Done)
  then have "om_find (htlcs db1) 2 \<noteq> Some (demo_counter\<lparr>h_status := Redeemed\<rparr>)"
    by (simp add: demo_swap_simps)
  with atomic_swap [OF demo_swap_chain db1 run_start, of demo_htlc 2 demo_counter] after(2) db1
  show ?thesis by (auto simp: demo_redeem_def demo_swap_simps)
qed

end
