(* ===== verification/Settlement.thy ===== *)
theory Settlement
  imports Authority
begin

text \<open>
  No funds are ever stranded. \<open>refund_all\<close> is the list of refunds of all open locks of a database;
  once the latest expiration is reached every one of them is accepted, and together they leave
  nothing locked and give each account back exactly what its open locks held.
\<close>

section \<open>Refunding a list of locks\<close>

definition refund_of :: "htlc_id_type \<times> htlc_object \<Rightarrow> input" where
  "refund_of p = Apply (Htlc_op (Htlc_refund \<lparr>hf_from = h_from (snd p), hf_htlc_id = fst p\<rparr>))"

definition open_locks :: "database \<Rightarrow> (htlc_id_type \<times> htlc_object) list" where
  "open_locks db = filter (\<lambda>p. h_status (snd p) = Open) (om_entries (htlcs db))"

definition refund_all :: "database \<Rightarrow> input list" where
  "refund_all db = map refund_of (open_locks db)"

text \<open>What the open locks of an account hold.\<close>

definition locked_by :: "asset_symbol \<Rightarrow> account_name_type \<Rightarrow> htlc_object \<Rightarrow> int" where
  "locked_by sy a h = (if h_from h = a then locked_in sy h else 0)"

definition total_locked_by :: "asset_symbol \<Rightarrow> account_name_type \<Rightarrow> database \<Rightarrow> int" where
  "total_locked_by sy a db = om_sum (\<lambda>_. locked_by sy a) (htlcs db)"

definition refundable :: "database \<Rightarrow> htlc_id_type \<times> htlc_object \<Rightarrow> bool" where
  "refundable db p \<longleftrightarrow> om_find (htlcs db) (fst p) = Some (snd p) \<and> h_status (snd p) = Open \<and>
     h_expiration (snd p) \<le> head_time db"

definition in_service :: "database \<Rightarrow> bool" where
  "in_service db \<longleftrightarrow> htlc_inv db \<and> funds_inv db \<and> names_ok db \<and> htlc_enabled db"

lemma refundable_ok:
  assumes "in_service db" "refundable db (i, h)"
  shows "refund_ok db \<lparr>hf_from = h_from h, hf_htlc_id = i\<rparr> h"
proof -
  have inv: "htlc_inv db" and h: "om_find (htlcs db) i = Some h"
    using assms by (simp_all add: in_service_def refundable_def)
  have "account_name_ok (h_from h)"
    using assms(1) htlc_ids(2) [OF inv h] by (simp add: in_service_def names_ok_def)
  moreover have "i \<noteq> 0" using inv h by (auto simp: htlc_inv_def table_ok_def)
  ultimately show ?thesis
    using assms by (simp add: refund_ok_def refundable_def in_service_def validate_htlc_refund_Inr)
qed

lemma refund_one:
  assumes "in_service db" "refundable db p"
  obtains db' where "take_input db (refund_of p) = Done db'" "in_service db'"
    "closes db (fst p) (snd p) (h_from (snd p)) Refunded db'"
proof -
  let ?op = "\<lparr>hf_from = h_from (snd p), hf_htlc_id = fst p\<rparr>"
  have inv: "htlc_inv db" "funds_inv db" using assms(1) by (simp_all add: in_service_def)
  from assms have ok: "refund_ok db ?op (snd p)" by (cases p) (simp add: refundable_ok)
  from apply_htlc_refund_succeeds [OF inv ok] obtain db' where db': "apply_htlc_refund db ?op = Done db'" ..
  then obtain h where "refund_ok db ?op h" "closes db (fst p) h (h_from (snd p)) Refunded db'"
    by (auto elim: apply_htlc_refund_Done)
  moreover from this(1) ok have "h = snd p" by (simp add: refund_ok_def)
  ultimately have cl: "closes db (fst p) (snd p) (h_from (snd p)) Refunded db'" by simp
  have "names_ok db'" "htlc_enabled db'"
    using assms(1) cl
    by (auto simp: in_service_def closes_def moved_def same_elsewhere_def names_ok_def htlc_enabled_def)
  moreover have "htlc_inv db'" by (rule htlc_inv_closes [OF inv(1) cl]) simp
  moreover have "funds_inv db'" using funds_inv_apply_htlc [OF inv, of "Htlc_refund ?op"] db' by simp
  ultimately show ?thesis using that db' cl by (simp add: refund_of_def in_service_def)
qed

lemma refundable_kept:
  "closes db i h acc st db' \<Longrightarrow> refundable db p \<Longrightarrow> fst p \<noteq> i \<Longrightarrow> refundable db' p"
  by (simp add: refundable_def closes_def same_elsewhere_def)

lemma refund_list:
  assumes "in_service db" "list_all (refundable db) ps" "distinct (map fst ps)"
  shows "\<exists>db'. replay take_input db (map refund_of ps) = (map (\<lambda>_. None) ps, db') \<and> in_service db' \<and>
    (\<forall>sy a. bal db' sy a = bal db sy a + (\<Sum>p \<leftarrow> ps. locked_by sy a (snd p))) \<and>
    (\<forall>i. om_find (htlcs db') i = map_option
       (\<lambda>h. if i \<in> fst ` set ps then h\<lparr>h_status := Refunded\<rparr> else h) (om_find (htlcs db) i))"
  using assms
proof (induction ps arbitrary: db)
  case Nil
  then show ?case by (simp add: option.map_ident)
next
  case (Cons p ps)
  obtain db1 where db1: "take_input db (refund_of p) = Done db1" "in_service db1"
    "closes db (fst p) (snd p) (h_from (snd p)) Refunded db1"
    using Cons.prems(2) refund_one [OF Cons.prems(1), of p] by auto
  have "refundable db1 q" if "q \<in> set ps" for q
    using Cons.prems(2,3) that
    by (intro refundable_kept [OF db1(3)]) (auto simp: list_all_iff dest: sym intro: rev_image_eqI)
  then have "list_all (refundable db1) ps" by (simp add: list_all_iff)
  with Cons.IH [OF db1(2)] Cons.prems(3) obtain db2 where
    db2: "replay take_input db1 (map refund_of ps) = (map (\<lambda>_. None) ps, db2)" "in_service db2"
      "\<And>sy a. bal db2 sy a = bal db1 sy a + (\<Sum>p \<leftarrow> ps. locked_by sy a (snd p))"
      "\<And>i. om_find (htlcs db2) i = map_option
         (\<lambda>h. if i \<in> fst ` set ps then h\<lparr>h_status := Refunded\<rparr> else h) (om_find (htlcs db1) i)"
    by auto
  have "bal db1 sy a = bal db sy a + locked_by sy a (snd p)" for sy a
    using db1(3) by (simp add: closes_def moved_def locked_by_def locked_in_def)
  with db2(3) have "bal db2 sy a = bal db sy a + (\<Sum>p \<leftarrow> p # ps. locked_by sy a (snd p))" for sy a by simp
  moreover have "om_find (htlcs db2) i = map_option
      (\<lambda>h. if i \<in> fst ` set (p # ps) then h\<lparr>h_status := Refunded\<rparr> else h) (om_find (htlcs db) i)" for i
    using db2(4) [of i] db1(3) by (auto simp: closes_def)
  ultimately show ?case using db1(1) db2(1,2) by auto
qed

section \<open>Refunding everything\<close>

lemma open_locks_sum: "(\<Sum>p \<leftarrow> open_locks db. locked_by sy a (snd p)) = total_locked_by sy a db"
proof -
  have "(\<Sum>p \<leftarrow> filter (\<lambda>p. h_status (snd p) = Open) ps. locked_by sy a (snd p)) =
      (\<Sum>p \<leftarrow> ps. locked_by sy a (snd p))" for ps :: "(htlc_id_type \<times> htlc_object) list"
    by (induction ps) (auto simp: locked_by_def locked_in_def)
  then show ?thesis by (simp add: open_locks_def total_locked_by_def om_sum_def)
qed

lemma nothing_open_nothing_locked:
  assumes "\<And>i h. om_find (htlcs db) i = Some h \<Longrightarrow> h_status h \<noteq> Open"
  shows "total_locked sy db = 0"
proof -
  have "total_locked sy db = om_sum (\<lambda>_ _. 0) (htlcs db)"
    unfolding total_locked_def by (rule om_sum_cong) (simp add: locked_in_def assms)
  then show ?thesis by (simp add: om_sum_def)
qed

lemma refund_everything:
  assumes "in_service db" "\<forall>i h. om_find (htlcs db) i = Some h \<longrightarrow> h_expiration h \<le> head_time db"
  shows "\<exists>es db'. replay take_input db (refund_all db) = (es, db') \<and> list_all (\<lambda>e. e = None) es \<and>
    (\<forall>sy. total_locked sy db' = 0) \<and>
    (\<forall>sy a. bal db' sy a = bal db sy a + total_locked_by sy a db)"
proof -
  have all: "list_all (refundable db) (open_locks db)"
    using assms(2) by (auto simp: list_all_iff open_locks_def refundable_def om_find_Some_iff)
  have "distinct (map fst (open_locks db))"
    by (simp add: open_locks_def ascending_distinct)
  from refund_list [OF assms(1) all this] obtain db' where db':
    "replay take_input db (refund_all db) = (map (\<lambda>_. None) (open_locks db), db')"
    "\<And>sy a. bal db' sy a = bal db sy a + total_locked_by sy a db"
    "\<And>i. om_find (htlcs db') i = map_option
       (\<lambda>h. if i \<in> fst ` set (open_locks db) then h\<lparr>h_status := Refunded\<rparr> else h) (om_find (htlcs db) i)"
    by (auto simp: refund_all_def open_locks_sum)
  have "h_status h \<noteq> Open" if "om_find (htlcs db') i = Some h" for i h
  proof -
    from that db'(3) [of i] obtain h0 where h0: "om_find (htlcs db) i = Some h0"
      "h = (if i \<in> fst ` set (open_locks db) then h0\<lparr>h_status := Refunded\<rparr> else h0)" by auto
    then have "h_status h0 = Open \<Longrightarrow> i \<in> fst ` set (open_locks db)"
      by (force simp: open_locks_def om_find_Some_iff)
    with h0(2) show ?thesis by auto
  qed
  then show ?thesis
    using db'(1,2) by (auto simp: list_all_iff nothing_open_nothing_locked)
qed

lemma genesis_config: "genesis db accs = Done g \<Longrightarrow> config g = config db"
proof (induction db accs rule: genesis.induct)
  case (2 db name hive hbd accs)
  then obtain db1 where "create_account db name hive hbd = Done db1" "genesis db1 accs = Done g"
    by (auto simp: and_then_Done)
  with "2.IH" [of db1] show ?case by (auto simp: create_account_def attempt_Done)
qed simp

definition demo_lock :: htlc_create_operation where
  "demo_lock = \<lparr>hc_from = ''alice'', hc_to = ''bob'', hc_amount = \<lparr>amount = 1000, symbol = HIVE\<rparr>,
     hc_preimage_hash = \<lparr>algo = RIPEMD160, digest_bytes = replicate 20 0\<rparr>, hc_preimage_size = 3,
     hc_expiration = 3600, hc_memo = []\<rparr>"

lemma demo_lock_Done: "\<exists>db'. apply_htlc_create demo_genesis demo_lock = Done db'"
proof -
  have "create_ok demo_genesis demo_lock"
    by (simp add: create_ok_def htlc_enabled_def validate_htlc_create_Inr account_exists_def open_htlcs_def
        bal_def balance_field_def demo_lock_def demo_genesis_def demo_simps account_name_ok_def
        account_name_char_def char_between_def less_eq_char_def digest_size_def)
  moreover have "htlc_inv demo_genesis"
    using genesis_chain_inv [OF demo_genesis] by (simp add: chain_inv_def)
  ultimately show ?thesis by (simp add: apply_htlc_create_succeeds)
qed

section \<open>Properties\<close>

text \<open>C9: locked funds can always be recovered. In every state reachable from a valid genesis, once
  the time has passed the expirations of the locks, the refunds of all open locks are accepted one
  after the other; then nothing is locked any more and the balance of every account has grown by
  exactly what its own open locks held, in each asset.\<close>

theorem locked_funds_can_be_recovered:
  assumes "genesis empty_database accs = Done g" and "non_negative accs"
    and "\<forall>sy. total_supply sy g \<le> INT64_MAX"
    and "chain_run n g db" and "n < 2 ^ 64 - 1"
    and "\<forall>i h. om_find (htlcs db) i = Some h \<longrightarrow> h_expiration h \<le> t"
  shows "\<exists>es db'. replay take_input (db\<lparr>head_time := t\<rparr>) (refund_all db) = (es, db') \<and>
    list_all (\<lambda>e. e = None) es \<and> (\<forall>sy. total_locked sy db' = 0) \<and>
    (\<forall>sy a. bal db' sy a = bal db sy a + total_locked_by sy a db)"
proof -
  let ?db = "db\<lparr>head_time := t\<rparr>"
  note g = genesis_chain_inv [OF assms(1-3)]
  have "config g = default_node_config"
    using genesis_config [OF assms(1)] by (simp add: empty_database_def)
  moreover have "chain_inv db" "same_setting g db"
    using chain_run_inv [OF assms(4) g] settings.run [OF assms(4) g] assms(5) by simp_all
  ultimately have "in_service db"
    using genesis_fresh(1) [OF assms(1,2)]
    by (simp add: in_service_def chain_inv_def same_setting_def htlc_enabled_def default_node_config_def hive_constants)
  then have "in_service ?db"
    by (auto simp: in_service_def names_ok_def account_exists_def htlc_enabled_def funds_inv_def bal_def
        total_supply_def total_liquid_def total_locked_def elim: htlc_inv_frame)
  moreover have "refund_all ?db = refund_all db" "total_locked_by sy a ?db = total_locked_by sy a db"
    "bal ?db sy a = bal db sy a" for sy a
    by (simp_all add: refund_all_def open_locks_def total_locked_by_def bal_def)
  ultimately show ?thesis using refund_everything [of ?db] assms(6) by simp
qed

theorem locked_funds_can_be_recovered_witness:
  "\<exists>db'. chain_run 1 demo_genesis db' \<and> om_find (htlcs db') 1 \<noteq> None \<and>
     list_all (\<lambda>e. e = None) (fst (replay take_input (db'\<lparr>head_time := 3600\<rparr>) (refund_all db'))) \<and>
     bal (snd (replay take_input (db'\<lparr>head_time := 3600\<rparr>) (refund_all db'))) HIVE ''alice'' =
       bal db' HIVE ''alice'' + 1000"
proof -
  obtain db' where db': "apply_htlc_create demo_genesis demo_lock = Done db'"
    using demo_lock_Done by blast
  note d = apply_htlc_create_Done(9) [OF db']
  have h: "htlcs db' = om_put om_empty 1 (htlc_of_create demo_genesis demo_lock)"
    by (simp add: d demo_genesis_def empty_database_def)
  have run: "chain_run (Suc 0) demo_genesis db'"
    using run_step [OF run_start step_op, of demo_genesis "Htlc_op (Htlc_create demo_lock)"] db' by simp
  have "\<forall>i h. om_find (htlcs db') i = Some h \<longrightarrow> h_expiration h \<le> 3600"
    by (simp add: h htlc_of_create_def demo_lock_def)
  from locked_funds_can_be_recovered [OF demo_genesis run _ this]
  have "\<exists>es db2. replay take_input (db'\<lparr>head_time := 3600\<rparr>) (refund_all db') = (es, db2) \<and>
      list_all (\<lambda>e. e = None) es \<and>
      bal db2 HIVE ''alice'' = bal db' HIVE ''alice'' + total_locked_by HIVE ''alice'' db'" by auto
  moreover have "total_locked_by HIVE ''alice'' db' = 1000"
    by (simp add: total_locked_by_def h om_sum_def locked_by_def locked_in_def htlc_of_create_def demo_lock_def)
  ultimately show ?thesis using run h by auto
qed

end
