(* ===== verification/Xxhash.thy ===== *)
theory Xxhash
  imports Hive_Prelude
begin

text \<open>
  \<open>include/hive_native/perf/xxhash64.hpp\<close>. The pointers \<open>p\<close> and \<open>end\<close> are the suffix of the
  input not yet consumed; \<open>memcpy\<close> of 4 or 8 bytes into an integer is a little-endian read, as
  on the platforms the node runs on.
\<close>

definition rotl64 :: "u64 \<Rightarrow> nat \<Rightarrow> u64" where
  "rotl64 x r = push_bit r x OR drop_bit (64 - r) x"

definition PRIME1 :: u64 where "PRIME1 = 11400714785074694791"
definition PRIME2 :: u64 where "PRIME2 = 14029467366897019727"
definition PRIME3 :: u64 where "PRIME3 = 1609587929392839161"
definition PRIME4 :: u64 where "PRIME4 = 9650029242287828579"
definition PRIME5 :: u64 where "PRIME5 = 2870177450012600261"

definition read_le :: "bytes \<Rightarrow> u64" where
  "read_le bs = foldr (\<lambda>b acc. acc * 256 + ucast b) bs 0"

definition xx_round :: "u64 \<Rightarrow> u64 \<Rightarrow> u64" where
  "xx_round acc input = rotl64 (acc + input * PRIME2) 31 * PRIME1"

definition xx_merge :: "u64 \<Rightarrow> u64 \<Rightarrow> u64" where
  "xx_merge acc v =
     (let v = rotl64 (v * PRIME2) 31 * PRIME1 in (acc XOR v) * PRIME1 + PRIME4)"

type_synonym xx_lanes = "u64 \<times> u64 \<times> u64 \<times> u64"

text \<open>The \<open>do ... while(p <= limit)\<close> loop over blocks of 32 bytes; it is entered with at least 32
  bytes left.\<close>

function xx_blocks :: "xx_lanes \<Rightarrow> bytes \<Rightarrow> xx_lanes \<times> bytes" where
  "xx_blocks (v1, v2, v3, v4) p =
     (let v1 = xx_round v1 (read_le (take 8 p));
          v2 = xx_round v2 (read_le (take 8 (drop 8 p)));
          v3 = xx_round v3 (read_le (take 8 (drop 16 p)));
          v4 = xx_round v4 (read_le (take 8 (drop 24 p)));
          p = drop 32 p
      in if length p \<ge> 32 then xx_blocks (v1, v2, v3, v4) p else ((v1, v2, v3, v4), p))"
  by pat_completeness auto
termination by (relation "measure (\<lambda>(_, p). length p)") auto

text \<open>\<open>while(p + 8 <= end)\<close>\<close>

function xx_words :: "u64 \<Rightarrow> bytes \<Rightarrow> u64 \<times> bytes" where
  "xx_words h p =
     (if length p \<ge> 8
      then let k = rotl64 (read_le (take 8 p) * PRIME2) 31 * PRIME1;
               h = rotl64 (h XOR k) 27 * PRIME1 + PRIME4
           in xx_words h (drop 8 p)
      else (h, p))"
  by pat_completeness auto
termination by (relation "measure (\<lambda>(_, p). length p)") auto

declare xx_blocks.simps [simp del] xx_words.simps [simp del]

text \<open>\<open>if(p + 4 <= end)\<close>\<close>

definition xx_half :: "u64 \<Rightarrow> bytes \<Rightarrow> u64 \<times> bytes" where
  "xx_half h p =
     (if length p \<ge> 4
      then (rotl64 (h XOR read_le (take 4 p) * PRIME1) 23 * PRIME2 + PRIME3, drop 4 p)
      else (h, p))"

text \<open>\<open>while(p < end)\<close>\<close>

fun xx_tail :: "u64 \<Rightarrow> bytes \<Rightarrow> u64" where
  "xx_tail h [] = h"
| "xx_tail h (b # p) = xx_tail (rotl64 (h XOR ucast b * PRIME5) 11 * PRIME1) p"

definition xx_avalanche :: "u64 \<Rightarrow> u64" where
  "xx_avalanche h =
     (let h = (h XOR drop_bit 33 h) * PRIME2;
          h = (h XOR drop_bit 29 h) * PRIME3
      in h XOR drop_bit 32 h)"

definition xxhash64_bytes :: "bytes \<Rightarrow> u64 \<Rightarrow> u64" where
  "xxhash64_bytes data seed =
     (let (h, p) =
        (if length data \<ge> 32
         then let ((v1, v2, v3, v4), p) =
                    xx_blocks (seed + PRIME1 + PRIME2, seed + PRIME2, seed + 0, seed - PRIME1) data;
                  h = rotl64 v1 1 + rotl64 v2 7 + rotl64 v3 12 + rotl64 v4 18
              in (xx_merge (xx_merge (xx_merge (xx_merge h v1) v2) v3) v4, p)
         else (seed + PRIME5, data));
          h = h + of_nat (length data);
          (h, p) = xx_words h p;
          (h, p) = xx_half h p
      in xx_avalanche (xx_tail h p))"

definition xxhash64 :: "string \<Rightarrow> u64 \<Rightarrow> u64" where
  "xxhash64 s seed = xxhash64_bytes (bytes_of_string s) seed"

lemmas xxhash64_eval = xxhash64_def xxhash64_bytes_def xx_words.simps xx_blocks.simps xx_half_def
  xx_avalanche_def xx_round_def xx_merge_def rotl64_def read_le_def PRIME1_def PRIME2_def
  PRIME3_def PRIME4_def PRIME5_def bytes_of_string_def Let_def

end
