(* ===== verification/Test_Vectors.thy ===== *)
theory Test_Vectors
  imports Crypto Xxhash
begin

text \<open>
  The published test vectors that \<open>tests/test_runner.cpp\<close> and \<open>tests/test_perf.cpp\<close> check,
  evaluated on the model: the definitions of \<open>Crypto\<close> and \<open>Xxhash\<close> compute the digests of the
  standards. The simplifier does not reduce word numerals modulo the word size; \<open>norm32\<close> marks
  where it should.
\<close>

section \<open>SHA-256\<close>

definition norm32 :: "u32 \<Rightarrow> u32" where
  "norm32 w = w"

lemma of_nat_mod_32: "(of_nat (m mod 4294967296) :: u32) = of_nat m"
  by (simp add: word_of_nat_eq_iff take_bit_eq_mod)

lemma norm32_numeral:
  "norm32 (numeral k) = of_nat (numeral k mod 4294967296)" "norm32 0 = 0" "norm32 1 = 1"
  "norm32 (- numeral k) = of_nat (4294967296 - numeral k mod 4294967296)" "norm32 (- 1) = 4294967295"
proof -
  show "norm32 (numeral k) = of_nat (numeral k mod 4294967296)"
    unfolding norm32_def of_nat_mod_32 of_nat_numeral by (rule refl)
  have "(of_nat (4294967296 - numeral k mod 4294967296) :: u32) =
      of_nat 4294967296 - of_nat (numeral k mod 4294967296)"
    by (rule of_nat_diff) (rule mod_le_divisor, simp)
  moreover have "(of_nat 4294967296 :: u32) = 0" using of_nat_mod_32 [of 4294967296] by simp
  ultimately have "(of_nat (4294967296 - numeral k mod 4294967296) :: u32) = - numeral k"
    by (simp only: of_nat_mod_32 of_nat_numeral diff_0)
  then show "norm32 (- numeral k) = of_nat (4294967296 - numeral k mod 4294967296)"
    by (simp only: norm32_def)
qed (simp_all add: norm32_def)

lemma sha256_round_norm:
  "sha256_round (a, b, c, d, e, f, g, h) (K, W) =
     (let S1 = rotr e 6 XOR rotr e 11 XOR rotr e 25;
          ch = (e AND f) XOR ((NOT e) AND g);
          t1 = norm32 (h + S1 + ch + K + W);
          S0 = rotr a 2 XOR rotr a 13 XOR rotr a 22;
          maj = (a AND b) XOR (a AND c) XOR (b AND c)
      in (norm32 (t1 + (S0 + maj)), a, b, c, norm32 (d + t1), e, f, g))"
  by (simp add: norm32_def Let_def)

lemma sha256_extend_norm:
  "sha256_extend (numeral n) W = sha256_extend (pred_numeral n) (W @ [norm32 (sha256_w_next W)])"
  by (simp add: numeral_eq_Suc norm32_def)

lemma replicate_numeral: "replicate (numeral k) x = x # replicate (pred_numeral k) x"
  by (simp add: numeral_eq_Suc)

text \<open>The padded message \<open>abc\<close>.\<close>

definition abc_block :: bytes where
  "abc_block = [
     97, 98, 99, 128, 0, 0, 0, 0, 0, 0, 0, 0, 0, 0, 0, 0,
     0, 0, 0, 0, 0, 0, 0, 0, 0, 0, 0, 0, 0, 0, 0, 0,
     0, 0, 0, 0, 0, 0, 0, 0, 0, 0, 0, 0, 0, 0, 0, 0,
     0, 0, 0, 0, 0, 0, 0, 0, 0, 0, 0, 0, 0, 0, 0, 24]"

lemma schedule_abc: "sha256_schedule abc_block = [
     1633837952, 0, 0, 0, 0, 0, 0, 0,
     0, 0, 0, 0, 0, 0, 0, 24,
     1633837952, 983040, 2108187653, 1610613702, 1050508152, 25426944, 316456923, 3806512014,
     3357629466, 3073800610, 3854317833, 845560923, 2636160359, 3968280267, 1881225380, 3552024379,
     2482346367, 996719219, 2952069057, 4043988066, 176896406, 1924104970, 2483675966, 610538786,
     2672279444, 4037431130, 1042573945, 657669027, 206005234, 2215296807, 2049510749, 106709978,
     4215179723, 3430291419, 3118885940, 2845390439, 2226839261, 3256115900, 344409900, 2987358873,
     4015503821, 3957764664, 2682456414, 2025622859, 2755645205, 1720397816, 4004225740, 313650667]"
  by (simp add: sha256_schedule_def abc_block_def sha256_load_def upt_rec sha256_extend_norm
      sha256_w_next_def rotr_def norm32_numeral)

lemma rounds_abc:
  "foldl sha256_round sha256_init (zip sha256_K (sha256_schedule abc_block)) =
     (1349398616, 3550093669, 80891244, 3093179625, 1593118500, 4212265488, 2492278198, 2518632596)"
  unfolding schedule_abc sha256_K_def
  by (simp add: sha256_init_def sha256_round_norm rotr_def norm32_numeral del: sha256_round.simps)

lemma sha256_abc: "sha256 [97, 98, 99] = [
     186, 120, 22, 191, 143, 1, 207, 234, 65, 65, 64, 222, 93, 174, 34, 35,
     176, 3, 97, 163, 150, 23, 122, 156, 180, 16, 255, 97, 242, 0, 21, 173]"
proof -
  have "sha256 [97, 98, 99] = sha256_output (sha256_transform sha256_init abc_block)"
    by (simp add: sha256_def sha256_blocks.simps sha256_finish_def sha256_put_len_def abc_block_def
        upt_rec replicate_numeral)
  also have "\<dots> = sha256_output (sha256_add sha256_init
      (1349398616, 3550093669, 80891244, 3093179625, 1593118500, 4212265488, 2492278198, 2518632596))"
    by (simp only: sha256_transform_def rounds_abc)
  finally show ?thesis
    by (simp add: sha256_init_def sha256_word_bytes_def)
qed

section \<open>RIPEMD-160\<close>

lemma ripemd_round_norm:
  "ripemd_round X ((al, bl, cl, dl, el), (ar, br, cr, dr, er)) j =
     (let t = norm32 (norm32 (rol (norm32 (al + ripemd_f j bl cl dl + X ! (ripemd_r1 ! j) +
                ripemd_K1 ! (j div 16))) (ripemd_s1 ! j)) + el);
          u = norm32 (norm32 (rol (norm32 (ar + ripemd_f (79 - j) br cr dr + X ! (ripemd_r2 ! j) +
                ripemd_K2 ! (j div 16))) (ripemd_s2 ! j)) + er)
      in ((el, t, bl, norm32 (rol cl 10), dl), (er, u, br, norm32 (rol cr 10), dr)))"
  by (simp add: norm32_def)

definition abc_words :: "u32 list" where
  "abc_words = [2153996897, 0, 0, 0, 0, 0, 0, 0, 0, 0, 0, 0, 0, 0, 24, 0]"

lemmas ripemd_eval = ripemd_round_norm ripemd_f_def rol_def norm32_numeral abc_words_def
  ripemd_r1_def ripemd_r2_def ripemd_s1_def ripemd_s2_def ripemd_K1_def ripemd_K2_def

lemma ripemd_abc_20:
  "foldl (ripemd_round abc_words)
     ((1732584193, 4023233417, 2562383102, 271733878, 3285377520),
      (1732584193, 4023233417, 2562383102, 271733878, 3285377520)) [0..<20] =
     ((4023952741, 1588532919, 2905167535, 602476823, 532537741),
      (373416957, 1650553646, 2905648420, 3999611570, 4177699401))"
  by (simp add: ripemd_eval upt_rec del: ripemd_round.simps)

lemma ripemd_abc_40:
  "foldl (ripemd_round abc_words)
     ((4023952741, 1588532919, 2905167535, 602476823, 532537741),
      (373416957, 1650553646, 2905648420, 3999611570, 4177699401)) [20..<40] =
     ((3850992468, 2517597181, 1746743481, 932628987, 1077045089),
      (757263127, 3331926363, 859775506, 3853994528, 2713185300))"
  by (simp add: ripemd_eval upt_rec del: ripemd_round.simps)

lemma ripemd_abc_60:
  "foldl (ripemd_round abc_words)
     ((3850992468, 2517597181, 1746743481, 932628987, 1077045089),
      (757263127, 3331926363, 859775506, 3853994528, 2713185300)) [40..<60] =
     ((3355963768, 1781730996, 3142175991, 1338182734, 3848954035),
      (3524514512, 2981829166, 3147597764, 1432221504, 3379045704))"
  by (simp add: ripemd_eval upt_rec del: ripemd_round.simps)

lemma ripemd_abc_80:
  "foldl (ripemd_round abc_words)
     ((3355963768, 1781730996, 3142175991, 1338182734, 3848954035),
      (3524514512, 2981829166, 3147597764, 1432221504, 3379045704)) [60..<80] =
     ((1678846410, 3580084188, 187489281, 1849767016, 4232265128),
      (2178183805, 1607252702, 3210901524, 4228786948, 1939623034))"
  by (simp add: ripemd_eval upt_rec del: ripemd_round.simps)

lemma ripemd_abc_rounds:
  "foldl (ripemd_round abc_words) (ripemd160_init, ripemd160_init) [0..<80] =
     ((1678846410, 3580084188, 187489281, 1849767016, 4232265128),
      (2178183805, 1607252702, 3210901524, 4228786948, 1939623034))"
proof -
  have "[0..<80] = [0..<20] @ [20..<40] @ [40..<60] @ [60..<80 :: nat]" by (simp add: upt_rec)
  then show ?thesis
    by (simp only: foldl_append ripemd160_init_def ripemd_abc_20 ripemd_abc_40 ripemd_abc_60 ripemd_abc_80)
qed

lemma ripemd160_abc: "ripemd160 [97, 98, 99] = [
     142, 178, 8, 247, 224, 93, 152, 122, 155, 4, 74, 142, 152, 198, 176, 135, 241, 90, 11, 252]"
proof -
  let ?block = "[97, 98, 99, 128] @ replicate 52 0 @ [24, 0, 0, 0, 0, 0, 0, 0] :: bytes"
  have fold: "ripemd160 [97, 98, 99] = ripemd160_output (ripemd160_compress ripemd160_init ?block)"
    by (simp add: ripemd160_def ripemd160_blocks.simps ripemd160_finish_def ripemd160_put_len_def
        upt_rec replicate_numeral)
  have "map (ripemd_load ?block) [0..<16] = abc_words"
    by (simp add: ripemd_load_def abc_words_def upt_rec replicate_numeral)
  then have "ripemd160_compress ripemd160_init ?block = ripemd_combine ripemd160_init
     ((1678846410, 3580084188, 187489281, 1849767016, 4232265128),
      (2178183805, 1607252702, 3210901524, 4228786948, 1939623034))"
    by (simp only: ripemd160_compress_def ripemd_abc_rounds)
  with fold show ?thesis
    by (simp add: ripemd160_init_def ripemd_word_bytes_def)
qed

section \<open>xxHash64\<close>

lemma xxhash64_empty: "xxhash64 [] 0 = 0xEF46DB3751D8E999"
  by (simp add: xxhash64_eval)

end
