(* ===== verification/Api.thy ===== *)
theory Api
  imports Contracts
begin

text \<open>
  \<open>include/hive_native/api/database_api_stubs.hpp\<close> and \<open>src/api/database_api_stubs.cpp\<close>: the
  read-only API. The six listing functions run the same loop over a table in id order; the
  loop is \<open>list_loop\<close> and each function is an instance with its own conditions. The locale
  \<open>listing\<close> states what the functions share and proves that paging through a listing with
  \<open>start\<close> set behind the last id seen enumerates every match exactly once; it is interpreted for
  each of the six.
\<close>

section \<open>Functions\<close>

record list_args =
  la_start :: u64
  la_limit :: u32
  la_light :: bool

definition clamp_limit :: "u32 \<Rightarrow> u32" where
  "clamp_limit limit = (if limit = 0 then 1 else if limit > 100 then 100 else limit)"

definition maybe_light_nft :: "bool \<Rightarrow> nft_object \<Rightarrow> nft_object" where
  "maybe_light_nft light n = (if light then n\<lparr>n_uri := []\<rparr> else n)"

definition maybe_light_htlc :: "bool \<Rightarrow> htlc_object \<Rightarrow> htlc_object" where
  "maybe_light_htlc light h = (if light then h\<lparr>h_memo := []\<rparr> else h)"

definition maybe_light_contract :: "bool \<Rightarrow> contract_object \<Rightarrow> contract_object" where
  "maybe_light_contract light c = (if light then c\<lparr>k_code := []\<rparr> else c)"

definition get_nft :: "database \<Rightarrow> nft_id_type \<Rightarrow> bool \<Rightarrow> nft_object option" where
  "get_nft db i light =
     (if nft_skip_state (config db) then None
      else case om_find (nfts db) i of None \<Rightarrow> None | Some n \<Rightarrow> Some (maybe_light_nft light n))"

definition get_nft_collection :: "database \<Rightarrow> collection_id_type \<Rightarrow> nft_collection_object option" where
  "get_nft_collection db i =
     (if nft_skip_state (config db) then None else om_find (collections db) i)"

definition get_nft_collection_by_symbol :: "database \<Rightarrow> string \<Rightarrow> nft_collection_object option" where
  "get_nft_collection_by_symbol db s =
     (if nft_skip_state (config db) then None
      else case om_find (collection_by_symbol db) s of
        None \<Rightarrow> None | Some i \<Rightarrow> om_find (collections db) i)"

text \<open>
  The loop of the listing functions: skip what does not match, append the rest, stop when
  \<open>out\<close> has reached the limit.
\<close>

fun list_loop :: "('o \<Rightarrow> bool) \<Rightarrow> ('o \<Rightarrow> 'o) \<Rightarrow> nat \<Rightarrow> 'o list \<Rightarrow> (u64 \<times> 'o) list \<Rightarrow> 'o list" where
  "list_loop keep view lim out [] = out"
| "list_loop keep view lim out (p # ps) =
     (if \<not> keep (snd p) then list_loop keep view lim out ps
      else let out = out @ [view (snd p)] in
        if length out \<ge> lim then out else list_loop keep view lim out ps)"

definition list_nfts_by_owner :: "database \<Rightarrow> account_name_type \<Rightarrow> list_args \<Rightarrow> nft_object list" where
  "list_nfts_by_owner db owner args =
     (if nft_skip_state (config db) then []
      else list_loop (\<lambda>n. n_owner n = owner \<and> \<not> n_id n < la_start args)
        (maybe_light_nft (la_light args)) (unat (clamp_limit (la_limit args))) []
        (om_entries (nfts db)))"

definition list_nfts_by_collection ::
  "database \<Rightarrow> collection_id_type \<Rightarrow> list_args \<Rightarrow> nft_object list" where
  "list_nfts_by_collection db c args =
     (if nft_skip_state (config db) then []
      else list_loop (\<lambda>n. n_collection n = c \<and> \<not> n_id n < la_start args)
        (maybe_light_nft (la_light args)) (unat (clamp_limit (la_limit args))) []
        (om_entries (nfts db)))"

definition get_htlc :: "database \<Rightarrow> htlc_id_type \<Rightarrow> bool \<Rightarrow> htlc_object option" where
  "get_htlc db i light =
     (if htlc_skip_state (config db) then None
      else case om_find (htlcs db) i of None \<Rightarrow> None | Some h \<Rightarrow> Some (maybe_light_htlc light h))"

definition list_htlcs_by_from :: "database \<Rightarrow> account_name_type \<Rightarrow> list_args \<Rightarrow> htlc_object list" where
  "list_htlcs_by_from db from args =
     (if htlc_skip_state (config db) then []
      else list_loop (\<lambda>h. h_from h = from \<and> \<not> h_id h < la_start args)
        (maybe_light_htlc (la_light args)) (unat (clamp_limit (la_limit args))) []
        (om_entries (htlcs db)))"

definition list_htlcs_by_to :: "database \<Rightarrow> account_name_type \<Rightarrow> list_args \<Rightarrow> htlc_object list" where
  "list_htlcs_by_to db to args =
     (if htlc_skip_state (config db) then []
      else list_loop (\<lambda>h. h_to h = to \<and> \<not> h_id h < la_start args)
        (maybe_light_htlc (la_light args)) (unat (clamp_limit (la_limit args))) []
        (om_entries (htlcs db)))"

definition list_htlcs_by_expiration ::
  "database \<Rightarrow> time_point_sec \<Rightarrow> list_args \<Rightarrow> htlc_object list" where
  "list_htlcs_by_expiration db min_expiration args =
     (if htlc_skip_state (config db) then []
      else list_loop (\<lambda>h. (\<not> h_expiration h < min_expiration \<and> h_status h = Open)
          \<and> \<not> h_id h < la_start args)
        (maybe_light_htlc (la_light args)) (unat (clamp_limit (la_limit args))) []
        (om_entries (htlcs db)))"

definition get_contract :: "database \<Rightarrow> contract_id_type \<Rightarrow> bool \<Rightarrow> contract_object option" where
  "get_contract db i light =
     (if contracts_skip (config db) then None
      else case om_find (contracts db) i of
        None \<Rightarrow> None | Some c \<Rightarrow> Some (maybe_light_contract light c))"

definition list_contracts_by_owner ::
  "database \<Rightarrow> account_name_type \<Rightarrow> list_args \<Rightarrow> contract_object list" where
  "list_contracts_by_owner db owner args =
     (if contracts_skip (config db) then []
      else list_loop (\<lambda>c. k_owner c = owner \<and> \<not> k_id c < la_start args)
        (maybe_light_contract True) (unat (clamp_limit (la_limit args))) []
        (om_entries (contracts db)))"

definition get_storage_key :: "database \<Rightarrow> contract_id_type \<Rightarrow> string \<Rightarrow> bytes option" where
  "get_storage_key db i key =
     (if contracts_skip (config db) then None
      else case om_find (contract_storage db) i of
        None \<Rightarrow> None | Some st \<Rightarrow> om_find st key)"

section \<open>The loop\<close>

lemma list_loop_eq:
  "length out < lim \<Longrightarrow>
     list_loop keep view lim out ps =
     out @ map (view \<circ> snd) (take (lim - length out) (filter (keep \<circ> snd) ps))"
proof (induction ps arbitrary: out)
  case (Cons p ps)
  show ?case
  proof (cases "keep (snd p) \<and> Suc (length out) < lim")
    case True
    then have "lim - length out = Suc (lim - Suc (length out))"
      by (simp add: Suc_diff_Suc)
    with True Cons show ?thesis by simp
  next
    case False
    with Cons show ?thesis by (auto simp: Suc_diff_Suc le_Suc_eq not_less)
  qed
qed simp

lemma clamp_limit_bounds: "1 \<le> unat (clamp_limit l) \<and> unat (clamp_limit l) \<le> 100"
proof -
  have "unat l \<le> 100" if "\<not> l > 100"
    using that by (simp add: not_less word_le_nat_alt)
  moreover have "0 < unat l" if "l \<noteq> 0"
    using that by (simp add: unat_gt_0)
  ultimately show ?thesis
    by (auto simp: clamp_limit_def Suc_le_eq)
qed

text \<open>A client that fetches page after page until one is not full, passing the last id it has seen
  as the next \<open>start\<close> and dropping what it has seen already. \<open>list_args::start\<close> is documented as an
  exclusive lower bound, while the code lists from \<open>start\<close> on; this client works with both
  (\<open>pages_behind\<close> and \<open>pages_exclusive\<close>).\<close>

fun pages :: "nat \<Rightarrow> (u64 \<Rightarrow> 'o list) \<Rightarrow> nat \<Rightarrow> ('o \<Rightarrow> u64) \<Rightarrow> u64 \<Rightarrow> 'o list" where
  "pages 0 fetch lim id_of start = []"
| "pages (Suc n) fetch lim id_of start =
     (let p = fetch start; unseen = filter (\<lambda>v. start < id_of v) p in
      if length p < lim then unseen else unseen @ pages n fetch lim id_of (id_of (last p)))"

definition matching :: "('o \<Rightarrow> u64) \<Rightarrow> ('o \<Rightarrow> bool) \<Rightarrow> u64 \<Rightarrow> (u64 \<times> 'o) list \<Rightarrow> (u64 \<times> 'o) list" where
  "matching id_of keep start ps = filter (\<lambda>p. keep (snd p) \<and> \<not> id_of (snd p) < start) ps"

lemma split_at_last_taken: "take k xs \<noteq> [] \<Longrightarrow> xs = butlast (take k xs) @ last (take k xs) # drop k xs"
  using append_butlast_last_id [of "take k xs"] append_take_drop_id [of k xs]
  by (metis append.assoc append_Cons append_Nil)

lemma matching_ascending: "ascending ps \<Longrightarrow> sorted_wrt (\<lambda>a b. fst a < fst b) (matching id_of keep start ps)"
  unfolding matching_def ascending_def by (simp add: sorted_wrt_map sorted_wrt_filter)

text \<open>Behind an id, the matches of the larger start are what follows it.\<close>

lemma matching_after:
  assumes asc: "ascending ps" and ids: "\<And>k v. (k, v) \<in> set ps \<Longrightarrow> id_of v = k \<and> k \<noteq> - 1"
    and split: "matching id_of keep start ps = xs @ p # ys"
  shows "matching id_of keep (id_of (snd p) + 1) ps = ys"
proof -
  let ?m = "matching id_of keep start ps"
  have p: "p \<in> set ps" "id_of (snd p) = fst p" "fst p \<noteq> - 1" "\<not> fst p < start"
  proof -
    have "p \<in> set ?m" by (simp add: split)
    then show "p \<in> set ps" "id_of (snd p) = fst p" "fst p \<noteq> - 1" "\<not> fst p < start"
      using ids [of "fst p" "snd p"] by (auto simp: matching_def)
  qed
  have key: "fst q < fst p + 1 \<longleftrightarrow> fst q < fst p \<or> fst q = fst p" for q :: "u64 \<times> 'o"
    using p(3) by (rule less_plus_1_iff)
  have asc_m: "sorted_wrt (\<lambda>a b. fst a < fst b) ?m"
    by (rule matching_ascending [OF asc])
  have "matching id_of keep (id_of (snd p) + 1) ps = filter (\<lambda>q. \<not> fst q < fst p + 1) ?m"
    unfolding matching_def p(2) filter_filter
  proof (rule filter_cong [OF refl])
    fix q assume "q \<in> set ps"
    then have "id_of (snd q) = fst q" using ids [of "fst q" "snd q"] by simp
    moreover have "fst q < start \<Longrightarrow> fst q < fst p + 1"
      using p(4) by (auto simp: key)
    ultimately show "(keep (snd q) \<and> \<not> id_of (snd q) < fst p + 1) =
        ((keep (snd q) \<and> \<not> id_of (snd q) < start) \<and> \<not> fst q < fst p + 1)"
      by auto
  qed
  also have "\<dots> = ys"
  proof -
    have before: "\<forall>q \<in> set xs. fst q < fst p + 1" and after: "\<forall>q \<in> set ys. \<not> fst q < fst p + 1"
      using asc_m unfolding split by (auto simp: sorted_wrt_append key)
    then show ?thesis
      unfolding split by (simp add: key filter_empty_conv filter_id_conv)
  qed
  finally show ?thesis .
qed

text \<open>The matches behind \<open>start\<close>, as a client of an exclusive bound expects them.\<close>

abbreviation behind :: "('o \<Rightarrow> u64) \<Rightarrow> ('o \<Rightarrow> bool) \<Rightarrow> u64 \<Rightarrow> (u64 \<times> 'o) list \<Rightarrow> (u64 \<times> 'o) list" where
  "behind id_of keep start ps \<equiv> filter (\<lambda>p. keep (snd p) \<and> start < id_of (snd p)) ps"

lemma behind_matching:
  "behind id_of keep start ps = filter (\<lambda>p. start < id_of (snd p)) (matching id_of keep start ps)"
  unfolding matching_def filter_filter by (rule filter_cong) auto

lemma behind_eq_matching: "start \<noteq> - 1 \<Longrightarrow> behind id_of keep start ps = matching id_of keep (start + 1) ps"
  unfolding matching_def by (rule filter_cong) (auto simp: less_plus_1_iff not_less)

text \<open>A full page of two objects or more ends behind \<open>start\<close>, and what follows it is what lies behind
  its last object.\<close>

lemma full_page:
  fixes id_of keep start ps lim
  defines "m \<equiv> matching id_of keep start ps" and "new \<equiv> \<lambda>p. start < id_of (snd p)"
  assumes asc: "ascending ps" and ids: "\<And>k v. (k, v) \<in> set ps \<Longrightarrow> id_of v = k \<and> k \<noteq> - 1"
    and lim: "2 \<le> lim" "lim \<le> length m"
  shows "new (last (take lim m))" "behind id_of keep (id_of (snd (last (take lim m)))) ps = drop lim m"
    "behind id_of keep start ps = filter new (take lim m) @ drop lim m"
proof -
  let ?p = "last (take lim m)"
  have ne: "take lim m \<noteq> []" using lim by auto
  note split = split_at_last_taken [OF ne]
  have id: "id_of (snd q) = fst q \<and> start \<le> fst q \<and> fst q \<noteq> - 1" if "q \<in> set m" for q
    using that ids [of "fst q" "snd q"] by (auto simp: m_def matching_def not_less)
  have "length (butlast (take lim m)) \<noteq> 0" using lim by simp
  then obtain a where a: "a \<in> set (butlast (take lim m))" by (meson length_greater_0_conv neq0_conv nth_mem)
  have "sorted_wrt (\<lambda>a b. fst a < fst b) (butlast (take lim m) @ ?p # drop lim m)"
    using matching_ascending [OF asc, of id_of keep start] split by (simp add: m_def)
  then have order: "fst a < fst ?p" "\<forall>q \<in> set (drop lim m). fst ?p < fst q"
    using a by (auto simp: sorted_wrt_append)
  have mem: "a \<in> set m" "?p \<in> set m" "q \<in> set (drop lim m) \<Longrightarrow> q \<in> set m" for q
    using a last_in_set [OF ne] by (auto dest: in_set_butlastD in_set_takeD in_set_dropD)
  have "start < fst ?p" using id [OF mem(1)] order(1) by (meson le_less_trans)
  then show "new ?p" using id [OF mem(2)] by (simp add: new_def)
  have "new q" if "q \<in> set (drop lim m)" for q
    using id [OF mem(3) [OF that]] order(2) that \<open>start < fst ?p\<close> by (auto simp: new_def intro: less_trans)
  then show "behind id_of keep start ps = filter new (take lim m) @ drop lim m"
    using filter_append [of new "take lim m" "drop lim m"]
    by (simp add: behind_matching filter_id_conv flip: m_def new_def)
  have top: "id_of (snd ?p) \<noteq> - 1" using id [OF mem(2)] by simp
  show "behind id_of keep (id_of (snd ?p)) ps = drop lim m"
    unfolding behind_eq_matching [OF top] by (rule matching_after [OF asc ids split [unfolded m_def], folded m_def])
qed

lemma pages_behind:
  assumes asc: "ascending ps" and ids: "\<And>k v. (k, v) \<in> set ps \<Longrightarrow> id_of v = k \<and> k \<noteq> - 1"
    and view: "\<And>v. id_of (view v) = id_of v" and lim: "2 \<le> lim"
  shows "length (behind id_of keep start ps) < n \<Longrightarrow>
    pages n (\<lambda>s. map (view \<circ> snd) (take lim (matching id_of keep s ps))) lim id_of start =
    map (view \<circ> snd) (behind id_of keep start ps)"
proof (induction n arbitrary: start)
  case (Suc n)
  let ?m = "matching id_of keep start ps" and ?new = "\<lambda>p. start < id_of (snd p)"
  let ?p = "last (take lim ?m)"
  have unseen: "filter (\<lambda>v. start < id_of v) (map (view \<circ> snd) xs) = map (view \<circ> snd) (filter ?new xs)" for xs
    by (simp add: filter_map comp_def view)
  show ?case
  proof (cases "length ?m < lim")
    case True
    then have all: "take lim ?m = ?m" by simp
    show ?thesis by (simp only: pages.simps Let_def length_map all True if_True unseen behind_matching)
  next
    case False
    then have len: "length (take lim ?m) = lim" and lim_le: "lim \<le> length ?m" by simp_all
    then have ne: "take lim ?m \<noteq> []" using lim by auto
    have page: "?new ?p" "behind id_of keep (id_of (snd ?p)) ps = drop lim ?m"
      "behind id_of keep start ps = filter ?new (take lim ?m) @ drop lim ?m"
      by (intro full_page asc ids lim lim_le; assumption)+
    have fin: "id_of (last (map (view \<circ> snd) (take lim ?m))) = id_of (snd ?p)"
      using ne by (simp add: last_map view)
    have "?p \<in> set (filter ?new (take lim ?m))" using page(1) last_in_set [OF ne] by simp
    then have "0 < length (filter ?new (take lim ?m))" by (rule length_pos_if_in_set)
    then have "length (behind id_of keep (id_of (snd ?p)) ps) < n"
      using Suc.prems unfolding page(2,3) length_append by linarith
    from Suc.IH [OF this] show ?thesis
      by (simp only: pages.simps Let_def length_map len less_irrefl if_False fin page(2,3) unseen map_append)
  qed
qed simp

text \<open>The same client, served with an exclusive bound.\<close>

lemma pages_exclusive:
  assumes asc: "ascending ps" and ids: "\<And>k v. (k, v) \<in> set ps \<Longrightarrow> id_of v = k \<and> k \<noteq> - 1"
    and view: "\<And>v. id_of (view v) = id_of v" and lim: "0 < lim"
  shows "length (behind id_of keep start ps) < n \<Longrightarrow>
    pages n (\<lambda>s. map (view \<circ> snd) (take lim (behind id_of keep s ps))) lim id_of start =
    map (view \<circ> snd) (behind id_of keep start ps)"
proof (induction n arbitrary: start)
  case (Suc n)
  let ?b = "behind id_of keep start ps"
  let ?p = "last (take lim ?b)"
  have unseen: "filter (\<lambda>v. start < id_of v) (map (view \<circ> snd) (take k ?b)) = map (view \<circ> snd) (take k ?b)" for k
    by (auto simp: view filter_id_conv dest: in_set_takeD)
  show ?case
  proof (cases "length ?b < lim")
    case True
    then have all: "take lim ?b = ?b" by simp
    show ?thesis
      using unseen [of lim] by (simp only: pages.simps Let_def length_map all True if_True)
  next
    case False
    then have len: "length (take lim ?b) = lim" and ne: "take lim ?b \<noteq> []" using lim by auto
    have start: "start \<noteq> - 1" using ne by (auto simp: word_order.extremum not_less)
    note split = split_at_last_taken [OF ne]
    have "?p \<in> set ps" using last_in_set [OF ne] by (auto dest: in_set_takeD)
    then have top: "id_of (snd ?p) \<noteq> - 1" using ids [of "fst ?p" "snd ?p"] by simp
    have rest: "behind id_of keep (id_of (snd ?p)) ps = drop lim ?b"
      unfolding behind_eq_matching [OF top]
      by (rule matching_after [OF asc ids split [unfolded behind_eq_matching [OF start]],
            folded behind_eq_matching [OF start]])
    have fin: "id_of (last (map (view \<circ> snd) (take lim ?b))) = id_of (snd ?p)"
      using ne by (simp add: last_map view)
    have "length (behind id_of keep (id_of (snd ?p)) ps) < n"
      using Suc.prems lim False unfolding rest by simp
    from Suc.IH [OF this] show ?thesis
      by (simp only: pages.simps Let_def length_map len less_irrefl if_False fin rest unseen
          append_take_drop_id flip: map_append)
  qed
qed simp

section \<open>The listing functions\<close>

locale listing =
  fixes lister :: "database \<Rightarrow> 'q \<Rightarrow> list_args \<Rightarrow> 'o list"
    and table :: "database \<Rightarrow> (u64, 'o) omap"
    and inv :: "database \<Rightarrow> bool"
    and skip :: "database \<Rightarrow> bool"
    and id_of :: "'o \<Rightarrow> u64"
    and keep :: "'q \<Rightarrow> 'o \<Rightarrow> bool"
    and view :: "bool \<Rightarrow> 'o \<Rightarrow> 'o"
  assumes lister_loop: "lister db q args =
      (if skip db then []
       else list_loop (\<lambda>v. keep q v \<and> \<not> id_of v < la_start args) (view (la_light args))
         (unat (clamp_limit (la_limit args))) [] (om_entries (table db)))"
    and table_ids: "inv db \<Longrightarrow> \<exists>n. table_ok id_of (table db) n"
    and view_id: "id_of (view light v) = id_of v"
begin

lemma page:
  "\<not> skip db \<Longrightarrow> lister db q args =
     map (view (la_light args) \<circ> snd) (take (unat (clamp_limit (la_limit args)))
       (matching id_of (keep q) (la_start args) (om_entries (table db))))"
  using clamp_limit_bounds [of "la_limit args"]
  by (simp add: lister_loop list_loop_eq matching_def comp_def)

lemma page_size: "length (lister db q args) \<le> 100"
proof (cases "skip db")
  case True
  then show ?thesis by (simp add: lister_loop)
next
  case False
  then show ?thesis
    using clamp_limit_bounds [of "la_limit args"] by (simp add: page min.coboundedI2)
qed

lemma skipped: "skip db \<Longrightarrow> lister db q args = []"
  by (simp add: lister_loop)

lemma all_pages:
  assumes inv: "inv db" and use: "\<not> skip db"
    and n: "om_size (table db) < n" and limit: "2 \<le> la_limit args"
  shows "pages n (\<lambda>s. lister db q (args\<lparr>la_start := s\<rparr>)) (unat (clamp_limit (la_limit args))) id_of 0 =
    map (view (la_light args) \<circ> snd) (filter (\<lambda>p. keep q (snd p)) (om_entries (table db)))"
proof -
  let ?lim = "unat (clamp_limit (la_limit args))" and ?ps = "om_entries (table db)"
  from table_ids [OF inv] obtain top where top: "table_ok id_of (table db) top" ..
  have ids: "id_of v = k \<and> k \<noteq> - 1" "0 < k" if "(k, v) \<in> set ?ps" for k v
  proof -
    from that have "om_find (table db) k = Some v" by (simp add: om_find_Some_iff)
    with top have "id_of v = k" "0 < k" "k < top" by (simp_all add: table_ok_def)
    moreover have "\<not> (- 1 :: u64) < top" by (simp add: word_order.extremum not_less)
    ultimately show "id_of v = k \<and> k \<noteq> - 1" "0 < k" by auto
  qed
  have "length (behind id_of (keep q) 0 ?ps) < n"
    using n unfolding om_size_def by (rule le_less_trans [OF length_filter_le])
  moreover have "2 \<le> ?lim" using limit by (auto simp: clamp_limit_def word_le_nat_alt)
  ultimately have "pages n (\<lambda>s. map (view (la_light args) \<circ> snd) (take ?lim (matching id_of (keep q) s ?ps)))
      ?lim id_of 0 = map (view (la_light args) \<circ> snd) (behind id_of (keep q) 0 ?ps)"
    by (intro pages_behind [OF om_entries_ascending ids(1)] view_id)
  moreover have "(\<lambda>s. lister db q (args\<lparr>la_start := s\<rparr>)) =
      (\<lambda>s. map (view (la_light args) \<circ> snd) (take ?lim (matching id_of (keep q) s ?ps)))"
    using use by (simp add: page fun_eq_iff)
  moreover have "behind id_of (keep q) 0 ?ps = filter (\<lambda>p. keep q (snd p)) ?ps"
    using ids by (intro filter_cong) (auto simp: word_greater_zero_iff)
  ultimately show ?thesis by simp
qed

text \<open>The bound is inclusive: asking for what follows a listed object returns that object first, so
  a client with a limit of one does not get past it.\<close>

lemma start_is_inclusive:
  assumes "inv db" and "\<not> skip db" and "om_find (table db) i = Some v" and "keep q v"
  shows "lister db q \<lparr>la_start = i, la_limit = 1, la_light = light\<rparr> = [view light v]"
proof -
  let ?ps = "om_entries (table db)"
  from table_ids [OF assms(1)] obtain top where top: "table_ok id_of (table db) top" ..
  have ids: "id_of (snd p) = fst p" if "p \<in> set ?ps" for p
    using that top by (cases p) (auto simp: table_ok_def om_find_Some_iff)
  let ?m = "matching id_of (keep q) i ?ps"
  have mem: "(i, v) \<in> set ?m"
    using assms(3,4) ids [of "(i, v)"] by (simp add: matching_def om_find_Some_iff)
  then obtain p rest where m: "?m = p # rest" by (cases ?m) auto
  then have "p \<in> set ?ps" "i \<le> fst p" using ids [of p] by (auto simp: matching_def not_less filter_eq_Cons_iff)
  moreover have "fst p < i" if "(i, v) \<noteq> p"
    using matching_ascending [OF om_entries_ascending, of id_of "keep q" i "table db"] mem that by (auto simp: m)
  ultimately have "p = (i, v)" by fastforce
  then show ?thesis using assms(2) by (simp add: page m clamp_limit_def)
qed

end

lemmas view_simps = maybe_light_nft_def maybe_light_htlc_def maybe_light_contract_def

interpretation by_owner: listing list_nfts_by_owner nfts nft_inv
  "\<lambda>db. nft_skip_state (config db)" n_id "\<lambda>q n. n_owner n = q" maybe_light_nft
  by unfold_locales (auto simp: list_nfts_by_owner_def view_simps nft_inv_def tokens_inv_def)

interpretation by_collection: listing list_nfts_by_collection nfts nft_inv
  "\<lambda>db. nft_skip_state (config db)" n_id "\<lambda>q n. n_collection n = q" maybe_light_nft
  by unfold_locales (auto simp: list_nfts_by_collection_def view_simps nft_inv_def tokens_inv_def)

interpretation by_from: listing list_htlcs_by_from htlcs htlc_inv
  "\<lambda>db. htlc_skip_state (config db)" h_id "\<lambda>q h. h_from h = q" maybe_light_htlc
  by unfold_locales (auto simp: list_htlcs_by_from_def view_simps htlc_inv_def)

interpretation by_to: listing list_htlcs_by_to htlcs htlc_inv
  "\<lambda>db. htlc_skip_state (config db)" h_id "\<lambda>q h. h_to h = q" maybe_light_htlc
  by unfold_locales (auto simp: list_htlcs_by_to_def view_simps htlc_inv_def)

interpretation by_expiration: listing list_htlcs_by_expiration htlcs htlc_inv
  "\<lambda>db. htlc_skip_state (config db)" h_id
  "\<lambda>q h. \<not> h_expiration h < q \<and> h_status h = Open" maybe_light_htlc
  by unfold_locales (auto simp: list_htlcs_by_expiration_def view_simps htlc_inv_def)

interpretation contracts_by_owner: listing list_contracts_by_owner contracts contract_inv
  "\<lambda>db. contracts_skip (config db)" k_id "\<lambda>q c. k_owner c = q" "\<lambda>_. maybe_light_contract True"
  by unfold_locales (auto simp: list_contracts_by_owner_def view_simps contract_inv_def)

section \<open>Storage round trip\<close>

lemma run_write_success:
  assumes "burn_or_return empty_result lim 50 (\<lambda>r. run_command lim r (Write_cmd k v)) = Inr res"
    and "r_success res"
  shows "r_storage_writes res = om_put om_empty k (bytes_of_string v)"
  using assms
  by (auto simp: burn_or_return_def burn_def Let_def empty_result_def split: if_splits)

lemma write_call_result:
  assumes "contract_inv db" and ok: "apply_contract_call db op = Done db'"
    and cmd: "parse_command (cc_args op) = Write_cmd k v"
  shows "om_find (contract_storage db') (cc_contract_id op) =
    Some (commit_writes (case om_find (contract_storage db) (cc_contract_id op) of None \<Rightarrow> om_empty | Some s \<Rightarrow> s)
      (om_put om_empty k (bytes_of_string v))) \<and> config db' = config db"
  using ok unfolding apply_contract_call_def
proof (rule dh.call_Done)
  fix c st and res :: call_result
  let ?lim = "default_host_limits\<lparr>l_fuel := cc_fuel_limit op\<rparr>"
  assume c: "om_find (contracts db) (cc_contract_id op) = Some c"
    and call: "eng_call default_engine (k_code c) (cc_export_name op) (cc_args op) st ?lim
      (cc_caller op) = Inr res"
    and ok: "r_success res" and others: "other_tables_same db db'"
    and st: "st = (case om_find (contract_storage db) (cc_contract_id op) of None \<Rightarrow> om_empty | Some s \<Rightarrow> s)"
    and after: "contract_storage db' =
       om_put (contract_storage db) (cc_contract_id op) (commit_writes st (r_storage_writes res))"
  have code: "k_code c \<noteq> []"
    using assms(1) c by (auto simp: contract_inv_def contract_ok_def)
  have "cc_export_name op \<noteq> []"
    using call ok by (auto simp: default_engine_def null_engine_def null_call_def empty_result_def
        Let_def split: if_splits)
  with call code cmd have "burn_or_return empty_result ?lim 50
      (\<lambda>r. run_command ?lim r (Write_cmd k v)) = Inr res"
    by (simp add: default_engine_def null_engine_def null_call_eq)
  from run_write_success [OF this ok] after others st show ?thesis by (simp add: other_tables_same_def)
qed

section \<open>Properties\<close>

text \<open>C27: paging is complete. A client that lists an owner's tokens page by page with a limit of two
  or more, passing the last id of each full page as the next \<open>start\<close> and dropping an object it has
  seen already, receives every token of that owner exactly once and in id order (without its \<open>uri\<close>
  in light mode). Paging through the refund view \<open>list_htlcs_by_expiration\<close> likewise yields
  exactly the open locks that expire at or after the given time. This is the documented use of
  \<open>start\<close>, and the client would get the same from a listing with an exclusive bound
  (\<open>pages_exclusive\<close>).\<close>

theorem paging_is_complete:
  assumes "2 \<le> la_limit args"
  shows "(nft_inv db \<and> \<not> nft_skip_state (config db) \<and> om_size (nfts db) < n \<longrightarrow>
      pages n (\<lambda>s. list_nfts_by_owner db owner (args\<lparr>la_start := s\<rparr>))
        (unat (clamp_limit (la_limit args))) n_id 0 =
      map (maybe_light_nft (la_light args) \<circ> snd)
        (filter (\<lambda>p. n_owner (snd p) = owner) (om_entries (nfts db)))) \<and>
   (htlc_inv db \<and> \<not> htlc_skip_state (config db) \<and> om_size (htlcs db) < n \<longrightarrow>
      pages n (\<lambda>s. list_htlcs_by_expiration db t (args\<lparr>la_start := s\<rparr>))
        (unat (clamp_limit (la_limit args))) h_id 0 =
      map (maybe_light_htlc (la_light args) \<circ> snd)
        (filter (\<lambda>p. \<not> h_expiration (snd p) < t \<and> h_status (snd p) = Open) (om_entries (htlcs db))))"
  using by_owner.all_pages [of db n args owner] by_expiration.all_pages [of db n args t] assms by blast

theorem paging_is_complete_witness:
  "pages 2 (\<lambda>s. list_nfts_by_owner demo_nft_db ''bob''
       (\<lparr>la_start = 0, la_limit = 2, la_light = False\<rparr>\<lparr>la_start := s\<rparr>)) 2 n_id 0 = [demo_token] \<and>
   pages 2 (\<lambda>s. list_htlcs_by_expiration demo_htlc_db 5
       (\<lparr>la_start = 0, la_limit = 2, la_light = False\<rparr>\<lparr>la_start := s\<rparr>)) 2 h_id 0 = [demo_htlc]"
proof
  let ?args = "\<lparr>la_start = 0, la_limit = 2, la_light = False\<rparr>"
  have "\<not> nft_skip_state (config demo_nft_db)" "om_size (nfts demo_nft_db) < 2"
    "om_entries (nfts demo_nft_db) = [(1, demo_token)]" "n_owner demo_token = ''bob''"
    by (simp_all add: demo_nft_simps)
  then show "pages 2 (\<lambda>s. list_nfts_by_owner demo_nft_db ''bob'' (?args\<lparr>la_start := s\<rparr>)) 2 n_id 0 = [demo_token]"
    using paging_is_complete [of ?args demo_nft_db 2 "''bob''"] nft_inv_demo
    by (simp add: clamp_limit_def maybe_light_nft_def)
  have "\<not> htlc_skip_state (config demo_htlc_db)" "om_size (htlcs demo_htlc_db) < 2"
    "om_entries (htlcs demo_htlc_db) = [(1, demo_htlc)]"
    "\<not> h_expiration demo_htlc < 5" "h_status demo_htlc = Open"
    by (simp_all add: demo_htlc_simps)
  then show "pages 2 (\<lambda>s. list_htlcs_by_expiration demo_htlc_db 5 (?args\<lparr>la_start := s\<rparr>)) 2 h_id 0 = [demo_htlc]"
    using paging_is_complete [of ?args demo_htlc_db 2 _ 5] htlc_inv_demo
    by (simp add: clamp_limit_def maybe_light_htlc_def)
qed

text \<open>C28: storage round trip. After a contract call with argument \<open>WRITE:key:value\<close> has been
  applied on a node that does not set \<open>contracts_skip\<close>, \<open>get_storage_key\<close> for that contract returns
  the bytes of the value under that key and what it returned before under every other key. A
  node that sets \<open>contracts_skip\<close> (a consensus node may, and still executes calls) answers no
  storage query.\<close>

theorem written_value_is_read_back:
  assumes "contract_inv db" and "apply_contract_call db op = Done db'"
    and "parse_command (cc_args op) = Write_cmd k v"
  shows "get_storage_key db' (cc_contract_id op) key =
    (if contracts_skip (config db) then None
     else if key = k then Some (bytes_of_string v)
     else get_storage_key db (cc_contract_id op) key)"
  using write_call_result [OF assms]
  by (auto simp: get_storage_key_def om_find_commit_writes split: option.split)

theorem written_value_is_read_back_witness:
  "\<exists>db'. apply_contract_call demo_contract_db (demo_call ''WRITE:k:v'') = Done db' \<and>
     get_storage_key db' 1 ''k'' = Some [118]"
proof -
  obtain db' where *: "apply_contract_call demo_contract_db (demo_call ''WRITE:k:v'') = Done db'"
    using demo_write_Done by blast
  have "\<not> contracts_skip (config demo_contract_db)"
    by (simp add: demo_contract_simps)
  moreover have "parse_command (cc_args (demo_call ''WRITE:k:v'')) = Write_cmd ''k'' ''v''"
    using parse_demo_args by (simp add: demo_call_def demo_args_def)
  ultimately have "get_storage_key db' (cc_contract_id (demo_call ''WRITE:k:v'')) ''k'' =
      Some (bytes_of_string ''v'')"
    using written_value_is_read_back [OF contract_inv_demo *] by simp
  with * show ?thesis
    by (simp add: demo_call_def bytes_of_string_def)
qed

end
