(* ===== verification/Double.thy ===== *)
theory Double
  imports Hive_Prelude Complex_Main "HOL-Library.Log_Nat"
begin

text \<open>
  The \<open>double\<close> arithmetic of the performance library. A finite \<open>double\<close> is the rational number it
  stands for; a literal, a conversion from an integer and an arithmetic operation give the exact
  result rounded to 53 significant bits, to nearest with ties to even, as IEEE 754 prescribes.
  The exponent is not bounded: no operation of the library meets the range limits before its
  result is clamped. Infinities and NaN are not represented.
\<close>

section \<open>Rounding\<close>

definition exponent_of :: "rat \<Rightarrow> int" where
  "exponent_of x =
     (let (a, b) = quotient_of x; e = bitlen a - bitlen b
      in if x < 2 powi e then e - 1 else e)"

definition round_even :: "rat \<Rightarrow> int" where
  "round_even y =
     (let f = \<lfloor>y\<rfloor>; d = y - of_int f
      in if d < 1 / 2 \<or> d = 1 / 2 \<and> even f then f else f + 1)"

definition round_double :: "rat \<Rightarrow> rat" where
  "round_double x =
     (if x = 0 then 0
      else let ulp = 2 powi (exponent_of \<bar>x\<bar> - 52) in of_int (round_even (x / ulp)) * ulp)"

definition double_of_nat :: "nat \<Rightarrow> rat" where
  "double_of_nat n = round_double (of_nat n)"

definition double_of_u64 :: "u64 \<Rightarrow> rat" where
  "double_of_u64 w = double_of_nat (unat w)"

definition double_div :: "rat \<Rightarrow> rat \<Rightarrow> rat" where
  "double_div x y = round_double (x / y)"

definition double_mul :: "rat \<Rightarrow> rat \<Rightarrow> rat" where
  "double_mul x y = round_double (x * y)"

text \<open>\<open>std::llround\<close>: to the nearest integer, halfway cases away from zero.\<close>

definition llround :: "rat \<Rightarrow> int" where
  "llround x = (if 0 \<le> x then \<lfloor>x + 1 / 2\<rfloor> else - \<lfloor>- x + 1 / 2\<rfloor>)"

section \<open>Accuracy\<close>

lemma exponent_of_bounds:
  assumes "0 < x"
  shows "2 powi exponent_of x \<le> x" and "x < 2 powi (exponent_of x + 1)"
proof -
  obtain a b where ab: "quotient_of x = (a, b)" by fastforce
  have b: "0 < b" using quotient_of_denom_pos [OF ab] .
  have x: "x = of_int a / of_int b" by (rule quotient_of_div [OF ab])
  have a: "0 < a" using assms b unfolding x by (simp add: zero_less_divide_iff)
  let ?e = "bitlen a - bitlen b"
  have pos: "1 \<le> bitlen a" "1 \<le> bitlen b"
    using a b bitlen_eq_zero_iff bitlen_nonneg by (smt (verit))+
  have powi: "(2 :: rat) powi bitlen y = of_int (2 ^ nat (bitlen y))"
    "1 \<le> bitlen y \<Longrightarrow> (2 :: rat) powi (bitlen y - 1) = of_int (2 ^ nat (bitlen y - 1))" for y
    by (simp_all add: power_int_def bitlen_nonneg)
  have lo: "(2 :: rat) powi (bitlen y - 1) \<le> of_int y" and hi: "of_int y < (2 :: rat) powi bitlen y"
    if "0 < y" "1 \<le> bitlen y" for y
    using bitlen_bounds [OF that(1)] that(2) unfolding powi(1) powi(2) [OF that(2)]
    by (simp_all only: of_int_le_iff of_int_less_iff)
  have "(2 :: rat) powi (?e - 1) = 2 powi (bitlen a - 1) / 2 powi bitlen b"
    by (simp flip: power_int_diff add: algebra_simps)
  also have "\<dots> \<le> of_int a / of_int b"
    using lo [OF a pos(1)] hi [OF b pos(2)] a b by (intro frac_le) auto
  finally have low: "(2 :: rat) powi (?e - 1) \<le> x" unfolding x .
  have "of_int a / of_int b < (2 :: rat) powi bitlen a / 2 powi (bitlen b - 1)"
    using hi [OF a pos(1)] lo [OF b pos(2)] b a by (intro frac_less) auto
  also have "\<dots> = 2 powi (?e + 1)" by (simp flip: power_int_diff add: algebra_simps)
  finally have high: "x < 2 powi (?e + 1)" unfolding x .
  show "2 powi exponent_of x \<le> x" "x < 2 powi (exponent_of x + 1)"
    using low high by (simp_all add: exponent_of_def ab Let_def)
qed

lemma round_even_error: "\<bar>of_int (round_even y) - y\<bar> \<le> 1 / 2"
proof -
  have "of_int \<lfloor>y\<rfloor> \<le> y" "y < of_int \<lfloor>y\<rfloor> + 1" by linarith+
  then show ?thesis by (auto simp: round_even_def Let_def abs_le_iff)
qed

text \<open>The standard model of floating-point arithmetic: a relative error of at most \<open>2^-53\<close>.\<close>

lemma round_double_error: "\<bar>round_double x - x\<bar> \<le> \<bar>x\<bar> / 2 ^ 53"
proof (cases "x = 0")
  case False
  let ?u = "2 powi (exponent_of \<bar>x\<bar> - 52) :: rat"
  have u: "0 < ?u" by simp
  have "?u = 2 powi exponent_of \<bar>x\<bar> / 2 ^ 52"
    by (simp add: power_int_diff)
  also have "\<dots> \<le> \<bar>x\<bar> / 2 ^ 52"
    using exponent_of_bounds(1) [of "\<bar>x\<bar>"] False by (intro divide_right_mono) auto
  finally have ulp: "?u \<le> \<bar>x\<bar> / 2 ^ 52" .
  have "round_double x - x = (of_int (round_even (x / ?u)) - x / ?u) * ?u"
    using False u by (simp add: round_double_def Let_def field_simps)
  then have "\<bar>round_double x - x\<bar> = \<bar>of_int (round_even (x / ?u)) - x / ?u\<bar> * ?u"
    using u by (simp add: abs_mult)
  also have "\<dots> \<le> 1 / 2 * ?u" using round_even_error u by (intro mult_right_mono) auto
  also have "\<dots> \<le> \<bar>x\<bar> / 2 ^ 53" using ulp by simp
  finally show ?thesis .
qed (simp add: round_double_def)

lemma llround_error: "\<bar>of_int (llround x) - x\<bar> \<le> 1 / 2"
proof -
  have "of_int \<lfloor>x + 1 / 2\<rfloor> \<le> x + 1 / 2" "x + 1 / 2 < of_int \<lfloor>x + 1 / 2\<rfloor> + 1"
    "of_int \<lfloor>- x + 1 / 2\<rfloor> \<le> - x + 1 / 2" "- x + 1 / 2 < of_int \<lfloor>- x + 1 / 2\<rfloor> + 1"
    by linarith+
  then have "- (1 / 2) \<le> of_int (llround x) - x \<and> of_int (llround x) - x \<le> 1 / 2"
    unfolding llround_def by (cases "0 \<le> x") (simp_all only: if_True if_False of_int_minus, linarith+)
  then show ?thesis by (intro abs_leI) linarith+
qed

text \<open>Rounding does not cross a power of two.\<close>

lemma round_even_ge: "of_int k \<le> y \<Longrightarrow> k \<le> round_even y"
proof -
  assume "of_int k \<le> y"
  then have "k \<le> \<lfloor>y\<rfloor>" by (simp add: le_floor_iff)
  then show ?thesis by (auto simp: round_even_def Let_def)
qed

lemma round_double_ge_one:
  assumes "1 \<le> x"
  shows "1 \<le> round_double x"
proof -
  let ?e = "exponent_of \<bar>x\<bar>"
  let ?u = "2 powi (?e - 52) :: rat"
  have "(2 :: rat) powi 0 < 2 powi (?e + 1)"
    using exponent_of_bounds(2) [of "\<bar>x\<bar>"] assms by auto
  then have "0 < ?e + 1"
    using power_int_increasing [of "?e + 1" 0 "2 :: rat"] by (cases "?e + 1 \<le> 0") auto
  then have one: "(1 :: rat) \<le> 2 powi ?e" by (intro one_le_power_int) auto
  have eu: "(2 :: rat) powi ?e = of_int (2 ^ 52) * ?u" by (simp add: power_int_diff)
  have "of_int (2 ^ 52) * ?u \<le> x"
    using exponent_of_bounds(1) [of "\<bar>x\<bar>"] assms eu by auto
  then have "of_int (2 ^ 52) \<le> x / ?u" by (simp add: pos_le_divide_eq)
  then have "2 ^ 52 \<le> round_even (x / ?u)" by (rule round_even_ge)
  then have "(of_int (2 ^ 52) :: rat) * ?u \<le> of_int (round_even (x / ?u)) * ?u"
    by (intro mult_right_mono) (simp_all only: of_int_le_iff, simp)
  with one eu have "1 \<le> of_int (round_even (x / ?u)) * ?u" by (simp only: order.trans)
  with assms show ?thesis by (simp add: round_double_def Let_def)
qed

text \<open>Integers below \<open>2^53\<close> are exact.\<close>

lemma round_even_int: "round_even (of_int k) = k"
  by (simp add: round_even_def)

lemma double_of_nat_exact:
  assumes "n < 2 ^ 53"
  shows "double_of_nat n = of_nat n"
proof (cases "n = 0")
  case False
  let ?e = "exponent_of (of_nat n)"
  have "2 powi ?e \<le> (of_nat n :: rat)" by (rule exponent_of_bounds) (use False in simp)
  also have "\<dots> < of_nat (2 ^ 53)" using assms by (simp only: of_nat_less_iff)
  also have "\<dots> = 2 powi 53" by simp
  finally have "?e < 53"
    using power_int_increasing [of 53 ?e "2 :: rat"] by (cases "53 \<le> ?e") auto
  then have "?e - 52 = - int (nat (52 - ?e))" by simp
  then obtain k where e: "?e - 52 = - int k" by (rule that)
  have unit: "(2 :: rat) powi (?e - 52) = 1 / 2 ^ k" unfolding e by (simp add: power_int_minus divide_inverse)
  have "(of_nat n :: rat) / 2 powi (?e - 52) = of_int (int n * 2 ^ k)" unfolding unit by simp
  then have "round_even (of_nat n / 2 powi (?e - 52)) = int n * 2 ^ k"
    by (simp only: round_even_int)
  then have "double_of_nat n = of_int (int n * 2 ^ k) * 2 powi (?e - 52)"
    using False unfolding double_of_nat_def round_double_def Let_def by simp
  also have "\<dots> = of_nat n" unfolding unit by simp
  finally show ?thesis .
qed (simp add: double_of_nat_def round_double_def)

lemma double_div_ge_one: "0 < y \<Longrightarrow> y \<le> x \<Longrightarrow> 1 \<le> double_div x y"
  unfolding double_div_def by (rule round_double_ge_one) simp

end
