(* ===== verification/Scheduler.thy ===== *)
theory Scheduler
  imports Contracts Double "HOL-Library.Multiset"
begin

text \<open>
  \<open>include/hive_native/perf/op_dependency.hpp\<close> and \<open>include/hive_native/perf/apply_scheduler.hpp\<close>:
  grouping of operations into layers and layered application. The three parallel vectors of
  \<open>build_parallel_schedule\<close> are the three lists of the record \<open>builder\<close>.
\<close>

section \<open>Dependency analysis\<close>

datatype op_class =
    Oc_transfer | Oc_nft_transfer | Oc_htlc_redeem | Oc_vote | Oc_custom_json | Oc_global | Oc_other

record op_touch =
  t_index :: nat
  t_cls :: op_class
  t_accounts :: "string list"
  t_touches_global :: bool

record schedule_layer =
  op_indices :: "nat list"

record builder =
  bu_layers :: "schedule_layer list"
  bu_accounts :: "string set list"
  bu_global :: "bool list"

definition empty_builder :: builder where
  "empty_builder = \<lparr>bu_layers = [], bu_accounts = [], bu_global = []\<rparr>"

definition layer_fits :: "builder \<Rightarrow> op_touch \<Rightarrow> nat \<Rightarrow> bool" where
  "layer_fits b op L \<longleftrightarrow>
     \<not> (t_touches_global op \<or> bu_global b ! L) \<and> (\<forall>a \<in> set (t_accounts op). a \<notin> bu_accounts b ! L)"

definition find_place :: "builder \<Rightarrow> op_touch \<Rightarrow> nat" where
  "find_place b op =
     (case find (layer_fits b op) [0..<length (bu_layers b)] of
        None \<Rightarrow> length (bu_layers b) | Some L \<Rightarrow> L)"

definition place_op :: "builder \<Rightarrow> op_touch \<Rightarrow> builder" where
  "place_op b op =
     (let place = find_place b op;
          b = (if place = length (bu_layers b)
               then \<lparr>bu_layers = bu_layers b @ [\<lparr>op_indices = []\<rparr>],
                     bu_accounts = bu_accounts b @ [{}], bu_global = bu_global b @ [False]\<rparr>
               else b);
          layer = bu_layers b ! place;
          b = b\<lparr>bu_layers := (bu_layers b)
                  [place := layer\<lparr>op_indices := op_indices layer @ [t_index op]\<rparr>]\<rparr>;
          b = b\<lparr>bu_accounts := (bu_accounts b)
                  [place := bu_accounts b ! place \<union> set (t_accounts op)]\<rparr>
      in if t_touches_global op then b\<lparr>bu_global := (bu_global b)[place := True]\<rparr> else b)"

definition build_parallel_schedule :: "op_touch list \<Rightarrow> schedule_layer list" where
  "build_parallel_schedule ops = bu_layers (foldl place_op empty_builder ops)"

definition parallelism_factor :: "op_touch list \<Rightarrow> rat" where
  "parallelism_factor ops =
     (if ops = [] then 1
      else double_div (double_of_nat (length ops)) (double_of_nat (length (build_parallel_schedule ops))))"

section \<open>Classification\<close>

record global_marker_operation =
  gm_name :: string

datatype scheduled_op =
    S_nft_transfer nft_transfer_operation
  | S_htlc_redeem htlc_redeem_operation
  | S_contract_call contract_call_operation
  | S_global global_marker_operation

definition classify_nft_transfer :: "nat \<Rightarrow> nft_transfer_operation \<Rightarrow> op_touch" where
  "classify_nft_transfer i op =
     \<lparr>t_index = i, t_cls = Oc_nft_transfer,
      t_accounts = [nt_from op, nt_to op] @ [''nft:'' @ dec_u64 (nt_nft_id op)],
      t_touches_global = False\<rparr>"

definition classify_htlc_redeem :: "nat \<Rightarrow> htlc_redeem_operation \<Rightarrow> op_touch" where
  "classify_htlc_redeem i op =
     \<lparr>t_index = i, t_cls = Oc_htlc_redeem,
      t_accounts = [hr_to op] @ [''htlc:'' @ dec_u64 (hr_htlc_id op)], t_touches_global = False\<rparr>"

definition classify_contract_call :: "nat \<Rightarrow> contract_call_operation \<Rightarrow> op_touch" where
  "classify_contract_call i op =
     \<lparr>t_index = i, t_cls = Oc_custom_json,
      t_accounts = [cc_caller op] @ [''contract:'' @ dec_u64 (cc_contract_id op)],
      t_touches_global = False\<rparr>"

definition classify_global :: "nat \<Rightarrow> op_touch" where
  "classify_global i =
     \<lparr>t_index = i, t_cls = Oc_global, t_accounts = [], t_touches_global = True\<rparr>"

datatype scheduled_op_kind = K_nft_transfer | K_htlc_redeem | K_contract_call | K_global

fun kind_of :: "scheduled_op \<Rightarrow> scheduled_op_kind" where
  "kind_of (S_nft_transfer op) = K_nft_transfer"
| "kind_of (S_htlc_redeem op) = K_htlc_redeem"
| "kind_of (S_contract_call op) = K_contract_call"
| "kind_of (S_global op) = K_global"

fun classify_scheduled_op :: "nat \<Rightarrow> scheduled_op \<Rightarrow> op_touch" where
  "classify_scheduled_op i (S_nft_transfer op) = classify_nft_transfer i op"
| "classify_scheduled_op i (S_htlc_redeem op) = classify_htlc_redeem i op"
| "classify_scheduled_op i (S_contract_call op) = classify_contract_call i op"
| "classify_scheduled_op i (S_global op) = classify_global i"

definition classify_all :: "scheduled_op list \<Rightarrow> op_touch list" where
  "classify_all ops = map (\<lambda>i. classify_scheduled_op i (ops ! i)) [0..<length ops]"

section \<open>Application\<close>

record apply_schedule_stats =
  st_layers :: "schedule_layer list"
  st_parallel_width :: nat
  st_parallelism_factor :: rat
  st_ops_applied :: nat
  st_layer_count :: nat

fun apply_one :: "database \<Rightarrow> scheduled_op \<Rightarrow> database outcome" where
  "apply_one db (S_nft_transfer op) = apply_nft_transfer db op"
| "apply_one db (S_htlc_redeem op) = apply_htlc_redeem db op"
| "apply_one db (S_contract_call op) = apply_contract_call db op"
| "apply_one db (S_global op) =
     Done (push_virtual db ''global_marker'' (''{\"name\":\"'' @ gm_name op @ ''\"}''))"

definition parallel_width :: "schedule_layer list \<Rightarrow> nat" where
  "parallel_width layers = foldl (\<lambda>w layer. if length (op_indices layer) > w
     then length (op_indices layer) else w) 0 layers"

definition plan_schedule :: "scheduled_op list \<Rightarrow> apply_schedule_stats" where
  "plan_schedule ops =
     (if ops = [] then \<lparr>st_layers = [], st_parallel_width = 0, st_parallelism_factor = 1, st_ops_applied = 0,
             st_layer_count = 0\<rparr>
      else let layers = build_parallel_schedule (classify_all ops)
        in \<lparr>st_layers = layers, st_parallel_width = parallel_width layers,
            st_parallelism_factor =
              double_div (double_of_nat (length ops)) (double_of_nat (length layers)),
            st_ops_applied = 0, st_layer_count = length layers\<rparr>)"

text \<open>The two nested loops: the operations in the order of the layers. The state carries
  \<open>ops_applied\<close>.\<close>

definition run_indices ::
  "scheduled_op list \<Rightarrow> (database \<times> nat) outcome \<Rightarrow> nat list \<Rightarrow> (database \<times> nat) outcome" where
  "run_indices ops = foldl (\<lambda>r idx. and_then r (\<lambda>(db, n).
     case apply_one db (ops ! idx) of Done db \<Rightarrow> Done (db, n + 1) | Threw e db \<Rightarrow> Threw e (db, n)))"

definition apply_scheduled ::
  "database \<Rightarrow> scheduled_op list \<Rightarrow> (database \<times> apply_schedule_stats) outcome" where
  "apply_scheduled db ops =
     (let stats = plan_schedule ops in
      if ops = [] then Done (db, stats)
      else case foldl (\<lambda>r layer. run_indices ops r (op_indices layer)) (Done (db, 0)) (st_layers stats) of
        Done (db, n) \<Rightarrow> Done (db, stats\<lparr>st_ops_applied := n\<rparr>)
      | Threw e (db, n) \<Rightarrow> Threw e (db, stats\<lparr>st_ops_applied := n\<rparr>))"

section \<open>Correctness of the layers\<close>

definition conflict :: "op_touch \<Rightarrow> op_touch \<Rightarrow> bool" where
  "conflict a b \<longleftrightarrow>
     t_touches_global a \<or> t_touches_global b \<or> set (t_accounts a) \<inter> set (t_accounts b) \<noteq> {}"

text \<open>\<open>builds b gs\<close>: the layers of \<open>b\<close> hold the groups of operations \<open>gs\<close>.\<close>

definition builds :: "builder \<Rightarrow> op_touch list list \<Rightarrow> bool" where
  "builds b gs \<longleftrightarrow>
     map op_indices (bu_layers b) = map (map t_index) gs \<and>
     bu_accounts b = map (\<lambda>g. \<Union> (set (map (set \<circ> t_accounts) g))) gs \<and>
     bu_global b = map (\<lambda>g. \<exists>op \<in> set g. t_touches_global op) gs \<and>
     (\<forall>g \<in> set gs. g \<noteq> [] \<and> sorted_wrt (\<lambda>x y. \<not> conflict x y) g)"

lemma builds_length: "builds b gs \<Longrightarrow> length (bu_layers b) = length gs"
  unfolding builds_def by (metis length_map)

lemma find_place_cases:
  obtains "find_place b op = length (bu_layers b)"
  | "find_place b op < length (bu_layers b)" "layer_fits b op (find_place b op)"
proof (cases "find (layer_fits b op) [0..<length (bu_layers b)]")
  case None
  then show ?thesis using that(1) by (simp add: find_place_def)
next
  case (Some L)
  then have "L < length (bu_layers b)" "layer_fits b op L"
    by (auto simp: find_Some_iff)
  then show ?thesis using that(2) Some by (simp add: find_place_def)
qed

text \<open>The groups after placing one more operation.\<close>

definition put_group :: "nat \<Rightarrow> op_touch \<Rightarrow> op_touch list list \<Rightarrow> op_touch list list" where
  "put_group p op gs = (if p = length gs then gs @ [[op]] else gs[p := gs ! p @ [op]])"

lemma layer_fits_no_conflict:
  assumes "builds b gs" "L < length gs" "layer_fits b op L" "x \<in> set (gs ! L)"
  shows "\<not> conflict x op"
  using assms by (auto simp: builds_def layer_fits_def conflict_def)

lemma builds_extend_layer:
  assumes b: "builds b gs" and p: "p < length gs" and place: "find_place b op = p"
    and fits: "layer_fits b op p"
  shows "builds (place_op b op) (gs[p := gs ! p @ [op]])"
proof -
  let ?F = "\<lambda>g. \<Union> (set (map (set \<circ> t_accounts) g))" and ?G = "\<lambda>g. \<exists>op \<in> set g. t_touches_global op"
  let ?l = "bu_layers b ! p"
  have layers: "map op_indices (bu_layers b) = map (map t_index) gs"
    and accs: "bu_accounts b = map ?F gs" and glob: "bu_global b = map ?G gs"
    and gs: "\<And>g. g \<in> set gs \<Longrightarrow> g \<noteq> [] \<and> sorted_wrt (\<lambda>x y. \<not> conflict x y) g"
    using b by (auto simp: builds_def)
  have len: "p < length (bu_layers b)" using builds_length [OF b] p by simp
  have g: "gs ! p \<noteq> []" "sorted_wrt (\<lambda>x y. \<not> conflict x y) (gs ! p @ [op])"
    using gs [OF nth_mem [OF p]] layer_fits_no_conflict [OF b p fits] by (auto simp: sorted_wrt_append)
  have idx: "op_indices ?l = map t_index (gs ! p)" using layers p len by (metis nth_map)
  have local: "\<not> t_touches_global op" using fits by (simp add: layer_fits_def)
  have new: "place_op b op = b
      \<lparr>bu_layers := (bu_layers b)[p := ?l\<lparr>op_indices := op_indices ?l @ [t_index op]\<rparr>],
       bu_accounts := (bu_accounts b)[p := bu_accounts b ! p \<union> set (t_accounts op)]\<rparr>"
    using len local by (simp add: place_op_def place Let_def)
  have "map op_indices (bu_layers (place_op b op)) = map (map t_index) (gs[p := gs ! p @ [op]])"
    by (simp add: new map_update layers idx)
  moreover have "bu_accounts (place_op b op) = map ?F (gs[p := gs ! p @ [op]])"
    using p by (simp add: new map_update accs Un_commute)
  moreover have "?G (gs ! p @ [op]) = map ?G gs ! p" using p local by simp
  then have "bu_global (place_op b op) = map ?G (gs[p := gs ! p @ [op]])"
    by (simp only: map_update list_update_id) (simp add: new glob)
  moreover have "\<forall>g \<in> set (gs[p := gs ! p @ [op]]). g \<noteq> [] \<and> sorted_wrt (\<lambda>x y. \<not> conflict x y) g"
    using g gs by (auto dest!: subsetD [OF set_update_subset_insert])
  ultimately show ?thesis unfolding builds_def by blast
qed

lemma builds_place_op:
  assumes b: "builds b gs"
  shows "builds (place_op b op) (put_group (find_place b op) op gs)"
proof (cases rule: find_place_cases [of b op])
  case 1
  then show ?thesis
    using b builds_length [OF b]
    by (auto simp: place_op_def put_group_def Let_def builds_def list_update_append nth_append)
next
  case 2
  have p: "find_place b op < length gs" using 2(1) builds_length [OF b] by simp
  from builds_extend_layer [OF b p refl 2(2)] p show ?thesis by (simp add: put_group_def)
qed

lemma mset_put_group: "p \<le> length gs \<Longrightarrow> mset (concat (put_group p op gs)) = add_mset op (mset (concat gs))"
proof (cases "p = length gs")
  case False
  assume "p \<le> length gs"
  with False have p: "p < length gs" by simp
  have "mset (concat (take p gs @ x # drop (Suc p) gs)) =
      mset (concat (take p gs)) + mset x + mset (concat (drop (Suc p) gs))" for x :: "op_touch list"
    by simp
  from this [of "gs ! p @ [op]"] this [of "gs ! p"] p False show ?thesis
    by (simp add: put_group_def upd_conv_take_nth_drop id_take_nth_drop [symmetric])
qed (simp add: put_group_def)

lemma builds_fold:
  "builds b gs \<Longrightarrow> \<exists>gs'. builds (foldl place_op b ops) gs' \<and>
     mset (concat gs') = mset (concat gs) + mset ops"
proof (induction ops arbitrary: b gs)
  case (Cons op ops)
  have "find_place b op \<le> length gs"
    using builds_length [OF Cons.prems] by (cases rule: find_place_cases [of b op]) simp_all
  from mset_put_group [OF this] Cons.IH [OF builds_place_op [OF Cons.prems, of op]]
  show ?case by fastforce
qed auto

lemma schedule_groups:
  "\<exists>gs. map op_indices (build_parallel_schedule ops) = map (map t_index) gs \<and>
     mset (concat gs) = mset ops \<and>
     (\<forall>g \<in> set gs. g \<noteq> [] \<and> sorted_wrt (\<lambda>x y. \<not> conflict x y) g)"
proof -
  have "builds empty_builder []" by (simp add: builds_def empty_builder_def)
  from builds_fold [OF this, of ops] show ?thesis
    by (auto simp: build_parallel_schedule_def builds_def)
qed

section \<open>Layered application\<close>

text \<open>Application one after the other, in the order of the indices given.\<close>

definition apply_in_order :: "database \<Rightarrow> scheduled_op list \<Rightarrow> database outcome" where
  "apply_in_order db = foldl (\<lambda>r op. and_then r (\<lambda>db. apply_one db op)) (Done db)"

lemma classify_fields [simp]:
  "t_index (classify_scheduled_op i op) = i"
  "t_touches_global (classify_scheduled_op i op) \<longleftrightarrow> kind_of op = K_global"
  by (cases op; simp add: classify_nft_transfer_def classify_htlc_redeem_def
      classify_contract_call_def classify_global_def)+

lemma classify_all_indices: "map t_index (classify_all ops) = [0..<length ops]"
  by (simp add: classify_all_def o_def)

lemma classify_all_mem:
  "t \<in> set (classify_all ops) \<Longrightarrow> t = classify_scheduled_op (t_index t) (ops ! t_index t)"
  by (auto simp: classify_all_def)

abbreviation touch_of :: "scheduled_op list \<Rightarrow> nat \<Rightarrow> op_touch" where
  "touch_of ops i \<equiv> classify_scheduled_op i (ops ! i)"

lemma schedule_layers:
  defines "layers ops \<equiv> map op_indices (build_parallel_schedule (classify_all ops))"
  shows "mset (concat (layers ops)) = mset [0..<length ops]"
    and "list_all (\<lambda>is. is \<noteq> [] \<and>
           sorted_wrt (\<lambda>i j. i \<noteq> j \<and> \<not> conflict (touch_of ops i) (touch_of ops j)) is) (layers ops)"
proof -
  obtain gs where gs: "layers ops = map (map t_index) gs" "mset (concat gs) = mset (classify_all ops)"
      "\<forall>g \<in> set gs. g \<noteq> [] \<and> sorted_wrt (\<lambda>x y. \<not> conflict x y) g"
    using schedule_groups [of "classify_all ops"] by (auto simp: layers_def)
  have "mset (concat (layers ops)) = image_mset t_index (mset (concat gs))"
    by (simp add: gs(1) map_concat [symmetric] mset_map [symmetric] del: mset_map)
  also have "\<dots> = mset (map t_index (classify_all ops))" by (simp only: gs(2) mset_map)
  finally show perm: "mset (concat (layers ops)) = mset [0..<length ops]"
    by (simp only: classify_all_indices)
  then have dist: "distinct (concat (layers ops))"
    by (metis distinct_upt mset_eq_imp_distinct_iff)
  have "set (concat gs) = set (classify_all ops)" using gs(2) by (metis set_mset_mset)
  then have mem: "g \<in> set gs \<Longrightarrow> t \<in> set g \<Longrightarrow> t = touch_of ops (t_index t)" for g t
    using classify_all_mem [of t ops] by auto
  have "sorted_wrt (\<lambda>i j. i \<noteq> j \<and> \<not> conflict (touch_of ops i) (touch_of ops j)) (map t_index g)"
    if g: "g \<in> set gs" for g
  proof -
    have "distinct (map t_index g)" using dist g by (auto simp: gs(1) distinct_concat_iff)
    then have "sorted_wrt (\<lambda>x y. t_index x \<noteq> t_index y) g"
      by (auto simp: distinct_map inj_on_def sorted_wrt_iff_nth_less distinct_conv_nth)
    with gs(3) g have "sorted_wrt (\<lambda>x y. t_index x \<noteq> t_index y \<and> \<not> conflict x y) g"
      by (simp add: sorted_wrt_iff_nth_less)
    then show ?thesis
      using mem [OF g] by (simp add: sorted_wrt_map) (rule sorted_wrt_mono_rel [rotated], auto)
  qed
  then show "list_all (\<lambda>is. is \<noteq> [] \<and>
      sorted_wrt (\<lambda>i j. i \<noteq> j \<and> \<not> conflict (touch_of ops i) (touch_of ops j)) is) (layers ops)"
    using gs(3) by (auto simp: gs(1) list_all_iff)
qed

lemma run_indices_append: "run_indices ops r (is @ js) = run_indices ops (run_indices ops r is) js"
  by (simp add: run_indices_def)

lemma run_indices_Nil [simp]: "run_indices ops r [] = r"
  by (simp add: run_indices_def)

lemma run_layers:
  "foldl (\<lambda>r layer. run_indices ops r (op_indices layer)) r layers =
     run_indices ops r (concat (map op_indices layers))"
  by (induction layers arbitrary: r) (simp_all add: run_indices_append)

lemma run_indices_Threw [simp]: "run_indices ops (Threw e s) is = Threw e s"
  by (induction "is") (simp_all add: run_indices_def)

lemma apply_in_order_Cons:
  "apply_in_order db (op # ops) = and_then (apply_one db op) (\<lambda>db. apply_in_order db ops)"
proof -
  have "foldl (\<lambda>r op. and_then r (\<lambda>db. apply_one db op)) (Threw e s) ops = Threw e s" for e s
    by (induction ops) simp_all
  then show ?thesis by (cases "apply_one db op") (simp_all add: apply_in_order_def)
qed

text \<open>The loop is application in the order of the indices; a completed run counts them all.\<close>

lemma run_indices_in_order:
  "case run_indices ops (Done (db, n)) is of
     Done (db', m) \<Rightarrow> apply_in_order db (map ((!) ops) is) = Done db' \<and> m = n + length is
   | Threw e (db', m) \<Rightarrow> apply_in_order db (map ((!) ops) is) = Threw e db' \<and> m < n + length is"
proof (induction "is" arbitrary: db n)
  case Nil
  then show ?case by (simp add: apply_in_order_def)
next
  case (Cons i "is")
  have step: "run_indices ops (Done (db, n)) (i # is) =
      run_indices ops (case apply_one db (ops ! i) of
        Done db \<Rightarrow> Done (db, n + 1) | Threw e db \<Rightarrow> Threw e (db, n)) is"
    by (simp add: run_indices_def)
  show ?case
  proof (cases "apply_one db (ops ! i)")
    case (Done db1)
    with Cons.IH [of db1 "Suc n"] show ?thesis
      unfolding step by (simp add: apply_in_order_Cons split: outcome.splits prod.splits)
  qed (simp add: step apply_in_order_Cons)
qed

lemma plan_schedule_layers: "st_layers (plan_schedule ops) = build_parallel_schedule (classify_all ops)"
  by (simp add: plan_schedule_def Let_def build_parallel_schedule_def classify_all_def empty_builder_def)

lemma apply_scheduled_in_order:
  defines "order ops \<equiv> map ((!) ops) (concat (map op_indices (build_parallel_schedule (classify_all ops))))"
  shows "case apply_scheduled db ops of
      Done (db', stats) \<Rightarrow> st_ops_applied stats = length ops \<and> apply_in_order db (order ops) = Done db'
    | Threw e (db', stats) \<Rightarrow> st_ops_applied stats < length ops \<and> apply_in_order db (order ops) = Threw e db'"
proof -
  let ?is = "concat (map op_indices (build_parallel_schedule (classify_all ops)))"
  have len: "length ?is = length ops"
    using schedule_layers(1) [of ops] by (metis diff_zero length_upt mset_eq_length)
  have empty: "concat (map op_indices (build_parallel_schedule (classify_all []))) = []"
    by (simp add: classify_all_def build_parallel_schedule_def empty_builder_def)
  show ?thesis
    using run_indices_in_order [of db ops ?is 0] len
    by (cases "ops = []") (auto simp: apply_scheduled_def Let_def run_layers plan_schedule_layers
        order_def apply_in_order_def empty plan_schedule_def split: outcome.splits prod.splits)
qed

text \<open>The reported factor is at least one: no layer is empty.\<close>

lemma parallelism_factor_ge_one:
  assumes "length ops < 2 ^ 53"
  shows "1 \<le> st_parallelism_factor (plan_schedule ops)"
proof (cases "ops = []")
  case False
  let ?layers = "map op_indices (build_parallel_schedule (classify_all ops))"
  have "length ls \<le> length (concat ls)" if "\<forall>l \<in> set ls. l \<noteq> []" for ls :: "nat list list"
    using that by (induction ls) (auto simp: Suc_le_eq add_pos_nonneg neq_Nil_conv)
  moreover have "\<forall>l \<in> set ?layers. l \<noteq> []" using schedule_layers(2) [of ops] by (auto simp: list_all_iff)
  ultimately have "length ?layers \<le> length (concat ?layers)" by blast
  moreover have total: "length (concat ?layers) = length ops"
    using schedule_layers(1) [of ops] by (metis diff_zero length_upt mset_eq_length)
  ultimately have le: "length (build_parallel_schedule (classify_all ops)) \<le> length ops" by simp
  have pos: "0 < length (build_parallel_schedule (classify_all ops))" using total False by auto
  have "st_parallelism_factor (plan_schedule ops) =
      double_div (of_nat (length ops)) (of_nat (length (build_parallel_schedule (classify_all ops))))"
    using False le assms by (simp add: plan_schedule_def Let_def double_of_nat_exact)
  also have "1 \<le> \<dots>"
    using le pos by (intro double_div_ge_one) simp_all
  finally show ?thesis .
qed (simp add: plan_schedule_def)

definition demo_moves :: "scheduled_op list" where
  "demo_moves =
     [S_nft_transfer \<lparr>nt_from = ''alice'', nt_to = ''bob'', nt_nft_id = 1, nt_memo = []\<rparr>,
      S_nft_transfer \<lparr>nt_from = ''bob'', nt_to = ''carol'', nt_nft_id = 2, nt_memo = []\<rparr>,
      S_nft_transfer \<lparr>nt_from = ''carol'', nt_to = ''op'', nt_nft_id = 2, nt_memo = []\<rparr>]"

definition demo_move_db :: database where
  "demo_move_db = demo_nft_db\<lparr>next_nft_id := 3,
     nfts := om_put (om_put om_empty 1 (demo_token\<lparr>n_owner := ''alice''\<rparr>)) 2
       (demo_token\<lparr>n_id := 2, n_token_serial := 2\<rparr>)\<rparr>"

lemma demo_moves_schedule:
  "map op_indices (build_parallel_schedule (classify_all demo_moves)) = [[0, 2], [1]]"
  by (simp add: build_parallel_schedule_def classify_all_def demo_moves_def upt_rec
      classify_nft_transfer_def place_op_def find_place_def layer_fits_def empty_builder_def)

lemma demo_moves_layered:
  "\<exists>db'. apply_in_order demo_move_db (map ((!) demo_moves) [0, 2, 1]) =
     Threw (Protocol_error ''not authorized to transfer'') db'"
proof -
  have "\<exists>db. apply_one demo_move_db (demo_moves ! 0) = Done db \<and>
      om_find (nfts db) 2 = Some (demo_token\<lparr>n_id := 2, n_token_serial := 2\<rparr>) \<and>
      nft_enabled db \<and> account_exists db ''op'' \<and> \<not> is_operator_approved db ''bob'' ''carol'' 1"
    by (simp add: demo_moves_def demo_move_db_def apply_nft_transfer_Done outcome_simps
        nft_enabled_def demo_nft_simps is_operator_approved_def)
  then obtain db where db: "apply_one demo_move_db (demo_moves ! 0) = Done db"
      "om_find (nfts db) 2 = Some (demo_token\<lparr>n_id := 2, n_token_serial := 2\<rparr>)"
      "nft_enabled db" "account_exists db ''op''" "\<not> is_operator_approved db ''bob'' ''carol'' 1"
    by blast
  have valid: "validate_nft_transfer \<lparr>nt_from = ''carol'', nt_to = ''op'', nt_nft_id = 2, nt_memo = []\<rparr> = Inr ()"
    by (simp add: outcome_simps hive_constants account_name_ok_def)
  from db(2-) have "apply_one db (demo_moves ! 2) = Threw (Protocol_error ''not authorized to transfer'') db"
    by (simp add: demo_moves_def apply_nft_transfer_def nft_enabled_def demo_token_def Let_def
        require_hardfork_def require_full_nft_state_def valid not_le [symmetric])
  with db(1) show ?thesis by (simp add: apply_in_order_Cons)
qed

section \<open>Properties\<close>

text \<open>C29: the schedule is a partition of the operations into layers without conflicts. Every
  operation is placed exactly once, no layer is empty, two operations of one layer share no
  account or object and no global operation shares a layer; layered application is the
  application one by one in the order of the layers, and when it completes it has applied
  all of them.\<close>

theorem schedule_is_conflict_free_partition:
  "mset (concat (map op_indices (st_layers (plan_schedule ops)))) = mset [0..<length ops] \<and>
   list_all (\<lambda>l. op_indices l \<noteq> [] \<and>
     sorted_wrt (\<lambda>i j. i \<noteq> j \<and> \<not> conflict (touch_of ops i) (touch_of ops j)) (op_indices l))
     (st_layers (plan_schedule ops)) \<and>
   (case apply_scheduled db ops of
      Done (db', stats) \<Rightarrow> st_ops_applied stats = length ops \<and>
        apply_in_order db (map ((!) ops) (concat (map op_indices (st_layers stats)))) = Done db'
    | Threw e (db', stats) \<Rightarrow> st_ops_applied stats < length ops \<and>
        apply_in_order db (map ((!) ops) (concat (map op_indices (st_layers stats)))) = Threw e db')"
proof -
  have "st_layers stats = build_parallel_schedule (classify_all ops)"
    if "apply_scheduled db ops = Done (db', stats) \<or> apply_scheduled db ops = Threw e (db', stats)" for db' stats e
    using that by (auto simp: apply_scheduled_def Let_def plan_schedule_layers
        split: outcome.splits if_splits prod.splits)
  with schedule_layers [of ops] apply_scheduled_in_order [of ops db] show ?thesis
    by (auto simp: plan_schedule_layers list_all_iff split: outcome.splits)
qed

text \<open>The schedule does not keep the order of conflicting operations. The second and the
  third transfer both move token 2, yet the third is placed in an earlier layer than the
  second: the operations succeed in the given order and the layered application throws,
  against the comment that layers preserve the causal order across conflicts.\<close>

lemma schedule_reorders_conflicting_operations:
  "conflict (touch_of demo_moves 1) (touch_of demo_moves 2) \<and>
   map op_indices (st_layers (plan_schedule demo_moves)) = [[0, 2], [1]] \<and>
   (\<exists>db'. apply_in_order demo_move_db demo_moves = Done db') \<and>
   (\<exists>s. apply_scheduled demo_move_db demo_moves = Threw (Protocol_error ''not authorized to transfer'') s)"
proof (intro conjI)
  show "conflict (touch_of demo_moves 1) (touch_of demo_moves 2)"
    by (simp add: conflict_def demo_moves_def classify_nft_transfer_def)
  show "map op_indices (st_layers (plan_schedule demo_moves)) = [[0, 2], [1]]"
    by (simp add: plan_schedule_layers demo_moves_schedule)
  show "\<exists>db'. apply_in_order demo_move_db demo_moves = Done db'"
    by (simp add: demo_moves_def demo_move_db_def apply_in_order_Cons apply_in_order_def
        and_then_Done apply_nft_transfer_Done outcome_simps nft_enabled_def demo_nft_simps)
  show "\<exists>s. apply_scheduled demo_move_db demo_moves = Threw (Protocol_error ''not authorized to transfer'') s"
    using demo_moves_layered apply_scheduled_in_order [of demo_moves demo_move_db]
    by (auto simp: demo_moves_schedule split: outcome.splits)
qed

end
