(* ===== verification/Serializability.thy ===== *)
theory Serializability
  imports Scheduler
begin

text \<open>
  What the layers of \<open>include/hive_native/perf/apply_scheduler.hpp\<close> are worth: operations that do
  not conflict commute, up to the order of the announced virtual operations and the last charge.
  Hence the operations of a layer may run in any order, and a schedule that keeps the order of
  conflicting operations is as good as applying them one after the other.

  The locale \<open>commuting\<close> states this for any partial interpretation of operations in which
  operations that do not clash commute; it is interpreted on the evaluators.
\<close>

section \<open>Reordering commuting operations\<close>

locale commuting =
  fixes interp :: "'a \<Rightarrow> 's \<Rightarrow> 's option"
    and clash :: "'a \<Rightarrow> 'a \<Rightarrow> bool"
  assumes swap: "\<not> clash x y \<Longrightarrow> Option.bind (interp x s) (interp y) = Option.bind (interp y s) (interp x)"
begin

fun run :: "'a list \<Rightarrow> 's \<Rightarrow> 's option" where
  "run [] s = Some s"
| "run (x # xs) s = Option.bind (interp x s) (run xs)"

lemma run_Cons: "run (x # xs) = (\<lambda>s. Option.bind (interp x s) (run xs))"
  by (rule ext) simp

lemma run_append: "run (xs @ ys) = (\<lambda>s. Option.bind (run xs s) (run ys))"
  by (induction xs) (simp_all add: run_Cons Option.bind_assoc run.simps(1) [abs_def])

lemma run_swap: "\<not> clash x y \<Longrightarrow> run (x # y # xs) s = run (y # x # xs) s"
  using arg_cong [OF swap [of x y s], of "\<lambda>r. Option.bind r (run xs)"]
  by (simp add: run_Cons Option.bind_assoc)

lemma run_insort:
  assumes "\<And>j. j \<in> set js \<Longrightarrow> j < i \<Longrightarrow> \<not> clash (f i) (f j)"
  shows "run (map f (insort i js)) s = run (map f (i # js)) s"
  using assms
proof (induction js arbitrary: s)
  case (Cons j js)
  show ?case
  proof (cases "i \<le> j")
    case False
    have "run (map f (insort i js)) = run (map f (i # js))"
      using Cons.IH Cons.prems by (intro ext) simp
    with False have "run (map f (insort i (j # js))) s = run (f j # map f (i # js)) s"
      by simp
    also have "\<dots> = run (f i # f j # map f js) s"
      using run_swap [of "f i" "f j"] Cons.prems False by simp
    finally show ?thesis by simp
  qed simp
qed simp

text \<open>A list of positions in which clashing operations are in ascending order.\<close>

definition keeps :: "(nat \<Rightarrow> 'a) \<Rightarrow> nat list \<Rightarrow> bool" where
  "keeps f is \<longleftrightarrow> sorted_wrt (\<lambda>i j. i < j \<or> \<not> clash (f i) (f j)) is"

lemma run_sorted: "keeps f is \<Longrightarrow> run (map f is) s = run (map f (sort is)) s"
proof (induction "is" arbitrary: s)
  case (Cons i "is")
  have "run (map f (i # is)) s = run (map f (i # sort is)) s"
    using Cons by (simp add: keeps_def cong: Option.bind_cong)
  also have "\<dots> = run (map f (insort i (sort is))) s"
    using Cons.prems by (intro run_insort [symmetric]) (force simp: keeps_def)
  finally show ?case by simp
qed simp

lemma run_permuted:
  assumes "mset is = mset js" and "keeps f is" and "keeps f js"
  shows "run (map f is) s = run (map f js) s"
  using run_sorted [OF assms(2)] run_sorted [OF assms(3)] assms(1)
  by (metis properties_for_sort mset_sort sorted_sort)

end

section \<open>The state without the announcements\<close>

definition core :: "database \<Rightarrow> database" where
  "core db = db\<lparr>pending_virtual_ops := [], last_rc_charged := 0\<rparr>"

definition core_apply :: "scheduled_op \<Rightarrow> database \<Rightarrow> database option" where
  "core_apply op db = (case apply_one db op of Done db' \<Rightarrow> Some (core db') | Threw e db' \<Rightarrow> None)"

lemma core_simps [simp]:
  "core (push_virtual db n p) = core db" "core (db\<lparr>last_rc_charged := c\<rparr>) = core db"
  "core (core db) = core db"
  "nfts (core db) = nfts db" "balances (core db) = balances db" "htlcs (core db) = htlcs db"
  "contract_storage (core db) = contract_storage db"
  "core ((core db)\<lparr>nfts := ns\<rparr>) = core (db\<lparr>nfts := ns\<rparr>)"
  "core ((core db)\<lparr>balances := bs, htlcs := hs\<rparr>) = core (db\<lparr>balances := bs, htlcs := hs\<rparr>)"
  "core ((core db)\<lparr>contract_storage := st\<rparr>) = core (db\<lparr>contract_storage := st\<rparr>)"
  by (simp_all add: core_def push_virtual_def)

text \<open>The new object an operation writes, as a function of the state it reads.\<close>

definition moved_token :: "nft_transfer_operation \<Rightarrow> database \<Rightarrow> nft_object option" where
  "moved_token op db =
     (if nft_enabled db \<and> validate_nft_transfer op = Inr () \<and> account_exists db (nt_to op)
      then case om_find (nfts db) (nt_nft_id op) of
          None \<Rightarrow> None
        | Some n \<Rightarrow>
            if (n_owner n = nt_from op \<or> n_approved n = nt_from op \<or>
                is_operator_approved db (n_owner n) (nt_from op) (n_collection n)) \<and> \<not> n_soulbound n
            then Some (n\<lparr>n_owner := nt_to op, n_approved := []\<rparr>) else None
      else None)"

lemma core_apply_transfer:
  "core_apply (S_nft_transfer op) db =
     map_option (\<lambda>n. core (db\<lparr>nfts := om_put (nfts db) (nt_nft_id op) n\<rparr>)) (moved_token op db)"
proof (cases "apply_nft_transfer db op")
  case (Done db')
  then show ?thesis
    by (simp add: core_apply_def) (auto simp: apply_nft_transfer_Done moved_token_def core_def push_virtual_def)
next
  case (Threw e db')
  then have "apply_nft_transfer db op \<noteq> Done d" for d by simp
  then have "moved_token op db = None"
    unfolding apply_nft_transfer_Done by (auto simp: moved_token_def split: option.splits)
  with Threw show ?thesis by (simp add: core_apply_def)
qed

text \<open>The balance after adding \<open>delta\<close>.\<close>

definition adjusted :: "asset \<Rightarrow> account_balance \<Rightarrow> account_balance option" where
  "adjusted delta b =
     (let sy = symbol delta; field = balance_field sy b in
      if sint (amount delta) < 0 \<and>
         (case i64_neg (amount delta) of Inl e \<Rightarrow> True | Inr need \<Rightarrow> sint field < sint need)
      then None
      else case i64_add field (amount delta) of
        Inl e \<Rightarrow> None | Inr v \<Rightarrow> Some (set_balance_field sy v b))"

lemma adjust_balance_adjusted:
  "adjust_balance db name delta = Done db' \<longleftrightarrow>
     (\<exists>b v. om_find (balances db) name = Some b \<and> adjusted delta b = Some v \<and>
        db' = db\<lparr>balances := om_put (balances db) name v\<rparr>)"
proof (cases "om_find (balances db) name")
  case (Some b)
  then show ?thesis
    by (cases "i64_neg (amount delta)"; cases "i64_add (balance_field (symbol delta) b) (amount delta)")
      (auto simp: adjust_balance_def adjusted_def Let_def attempt_def throw_if_def)
qed (simp add: adjust_balance_def)

definition redeemed :: "htlc_redeem_operation \<Rightarrow> database \<Rightarrow> (htlc_object \<times> account_balance) option" where
  "redeemed op db =
     (case (om_find (htlcs db) (hr_htlc_id op), om_find (balances db) (hr_to op)) of
        (Some h, Some b) \<Rightarrow>
          if redeem_ok db op h
          then map_option (\<lambda>v. (h\<lparr>h_status := Redeemed\<rparr>, v)) (adjusted (h_amount h) b) else None
      | _ \<Rightarrow> None)"

lemma core_apply_redeem:
  "core_apply (S_htlc_redeem op) db =
     map_option (\<lambda>(h, v). core (db\<lparr>balances := om_put (balances db) (hr_to op) v,
       htlcs := om_put (htlcs db) (hr_htlc_id op) h\<rparr>)) (redeemed op db)"
proof (cases "apply_htlc_redeem db op")
  case (Done db')
  then show ?thesis
    by (simp add: core_apply_def)
      (auto simp: apply_htlc_redeem_eq adjust_balance_adjusted redeemed_def redeem_ok_def core_def push_virtual_def)
next
  case (Threw e db')
  then have no: "apply_htlc_redeem db op \<noteq> Done d" for d by simp
  have "redeemed op db = None"
  proof (rule ccontr)
    assume "redeemed op db \<noteq> None"
    then obtain h b v where "redeem_ok db op h" "om_find (balances db) (hr_to op) = Some b"
        "adjusted (h_amount h) b = Some v" "h_to h = hr_to op"
      by (auto simp: redeemed_def redeem_ok_def split: option.splits if_splits)
    then show False using no unfolding apply_htlc_redeem_eq adjust_balance_adjusted by fastforce
  qed
  with Threw show ?thesis by (simp add: core_apply_def)
qed

definition called :: "contract_call_operation \<Rightarrow> database \<Rightarrow> storage option" where
  "called op db =
     (case checks [
         require_hardfork db HIVE_HARDFORK_CONTRACTS,
         throw_if (contracts_skip (config db) \<and> \<not> is_consensus_node (config db)) ''contracts skipped'',
         validate_contract_call op,
         throw_if (\<not> account_exists db (cc_caller op)) ''account missing''] of
        Inl e \<Rightarrow> None
      | Inr _ \<Rightarrow>
     case om_find (contracts db) (cc_contract_id op) of
       None \<Rightarrow> None
     | Some c \<Rightarrow>
     let storage = (case om_find (contract_storage db) (cc_contract_id op) of
                      None \<Rightarrow> om_empty | Some s \<Rightarrow> s)
     in case eng_call default_engine (k_code c) (cc_export_name op) (cc_args op) storage
          (default_host_limits\<lparr>l_fuel := cc_fuel_limit op\<rparr>) (cc_caller op) of
          Inl e \<Rightarrow> None
        | Inr res \<Rightarrow> if r_success res then Some (commit_writes storage (r_storage_writes res)) else None)"

lemma core_apply_call:
  "core_apply (S_contract_call op) db =
     map_option (\<lambda>st. core (db\<lparr>contract_storage := om_put (contract_storage db) (cc_contract_id op) st\<rparr>))
       (called op db)"
proof -
  have "apply_contract_call db op = Done db' \<Longrightarrow>
      \<exists>st. called op db = Some st \<and>
        core db' = core (db\<lparr>contract_storage := om_put (contract_storage db) (cc_contract_id op) st\<rparr>)" for db'
    by (auto simp: called_def apply_contract_call_def apply_contract_call_on_def Let_def attempt_def
        core_def push_virtual_def split: sum.splits option.splits if_splits)
  moreover have "apply_contract_call db op = Threw e db' \<Longrightarrow> called op db = None" for e db'
    by (auto simp: called_def apply_contract_call_def apply_contract_call_on_def Let_def attempt_def
        split: sum.splits option.splits if_splits)
  ultimately show ?thesis
    by (cases "apply_contract_call db op") (fastforce simp: core_apply_def)+
qed

section \<open>Operations that do not conflict commute\<close>

named_theorems frame_simps \<open>what an operation reads is not what another one writes\<close>

lemma moved_token_frame [frame_simps]:
  "moved_token op (core db) = moved_token op db"
  "k \<noteq> nt_nft_id op \<Longrightarrow> moved_token op (db\<lparr>nfts := om_put (nfts db) k n\<rparr>) = moved_token op db"
  "om_find (balances db) a \<noteq> None \<Longrightarrow>
     moved_token op (db\<lparr>balances := om_put (balances db) a v, htlcs := hs\<rparr>) = moved_token op db"
  "moved_token op (db\<lparr>contract_storage := st\<rparr>) = moved_token op db"
  by (auto simp: moved_token_def core_def nft_enabled_def account_exists_def is_operator_approved_def
      cong: option.case_cong)

lemma redeemed_frame [frame_simps]:
  "redeemed op (core db) = redeemed op db"
  "redeemed op (db\<lparr>nfts := ns\<rparr>) = redeemed op db"
  "a \<noteq> hr_to op \<Longrightarrow> k \<noteq> hr_htlc_id op \<Longrightarrow>
     redeemed op (db\<lparr>balances := om_put (balances db) a v, htlcs := om_put (htlcs db) k h\<rparr>) = redeemed op db"
  "redeemed op (db\<lparr>contract_storage := st\<rparr>) = redeemed op db"
  by (auto simp: redeemed_def redeem_ok_def core_def htlc_enabled_def cong: option.case_cong)

lemma called_reads:
  assumes "config db' = config db" "contracts db' = contracts db"
    "account_exists db' (cc_caller op) = account_exists db (cc_caller op)"
    "om_find (contract_storage db') (cc_contract_id op) = om_find (contract_storage db) (cc_contract_id op)"
  shows "called op db' = called op db"
  unfolding called_def require_hardfork_def assms by (rule refl)

lemma called_frame [frame_simps]:
  "called op (core db) = called op db"
  "called op (db\<lparr>nfts := ns\<rparr>) = called op db"
  "om_find (balances db) a \<noteq> None \<Longrightarrow>
     called op (db\<lparr>balances := om_put (balances db) a v, htlcs := hs\<rparr>) = called op db"
  "k \<noteq> cc_contract_id op \<Longrightarrow>
     called op (db\<lparr>contract_storage := om_put (contract_storage db) k st\<rparr>) = called op db"
  by (auto simp: core_def account_exists_def intro!: called_reads split: if_splits)

lemma redeemed_account: "redeemed op db = Some hv \<Longrightarrow> om_find (balances db) (hr_to op) \<noteq> None"
  by (auto simp: redeemed_def split: option.splits)

lemmas core_apply_eqs = core_apply_transfer core_apply_redeem core_apply_call

lemma core_apply_core: "core_apply op (core db) = core_apply op db"
proof (cases op)
  case (S_global g)
  then show ?thesis by (simp add: core_apply_def)
qed (simp_all add: core_apply_eqs frame_simps)

lemma conflict_keys:
  "\<not> conflict (classify_scheduled_op i (S_nft_transfer t)) (classify_scheduled_op j (S_nft_transfer t')) \<Longrightarrow>
     nt_nft_id t \<noteq> nt_nft_id t'"
  "\<not> conflict (classify_scheduled_op i (S_htlc_redeem r)) (classify_scheduled_op j (S_htlc_redeem r')) \<Longrightarrow>
     hr_htlc_id r \<noteq> hr_htlc_id r' \<and> hr_to r \<noteq> hr_to r'"
  "\<not> conflict (classify_scheduled_op i (S_contract_call c)) (classify_scheduled_op j (S_contract_call c')) \<Longrightarrow>
     cc_contract_id c \<noteq> cc_contract_id c'"
  by (auto simp: conflict_def classify_nft_transfer_def classify_htlc_redeem_def classify_contract_call_def)

definition op_clash :: "scheduled_op \<Rightarrow> scheduled_op \<Rightarrow> bool" where
  "op_clash x y \<longleftrightarrow> conflict (classify_scheduled_op 0 x) (classify_scheduled_op 0 y)"

lemma conflict_index:
  "conflict (classify_scheduled_op i x) (classify_scheduled_op j y) \<longleftrightarrow> op_clash x y"
  by (cases x; cases y) (simp_all add: op_clash_def conflict_def classify_nft_transfer_def
      classify_htlc_redeem_def classify_contract_call_def classify_global_def)

lemma op_clash_sym: "op_clash x y \<longleftrightarrow> op_clash y x"
  by (auto simp: op_clash_def conflict_def)

lemma op_clash_global [simp]: "op_clash (S_global n) y" "op_clash x (S_global n)"
  by (simp_all add: op_clash_def conflict_def classify_global_def)

text \<open>The three pairs of one kind and the three mixed pairs.\<close>

lemma commute_transfers:
  assumes "nt_nft_id t \<noteq> nt_nft_id t'"
  shows "Option.bind (core_apply (S_nft_transfer t) s) (core_apply (S_nft_transfer t')) =
    Option.bind (core_apply (S_nft_transfer t') s) (core_apply (S_nft_transfer t))"
  using assms
  by (cases "moved_token t s"; cases "moved_token t' s")
    (auto simp: core_apply_core core_apply_transfer frame_simps om_put_commute [OF assms])

lemma commute_calls:
  assumes "cc_contract_id c \<noteq> cc_contract_id c'"
  shows "Option.bind (core_apply (S_contract_call c) s) (core_apply (S_contract_call c')) =
    Option.bind (core_apply (S_contract_call c') s) (core_apply (S_contract_call c))"
  using assms
  by (cases "called c s"; cases "called c' s")
    (auto simp: core_apply_core core_apply_call frame_simps om_put_commute [OF assms])

lemma commute_redeems:
  assumes "hr_htlc_id r \<noteq> hr_htlc_id r'" and "hr_to r \<noteq> hr_to r'"
  shows "Option.bind (core_apply (S_htlc_redeem r) s) (core_apply (S_htlc_redeem r')) =
    Option.bind (core_apply (S_htlc_redeem r') s) (core_apply (S_htlc_redeem r))"
  using assms
  by (cases "redeemed r s"; cases "redeemed r' s")
    (auto simp: core_apply_core core_apply_redeem frame_simps om_put_commute [OF assms(1)]
      om_put_commute [OF assms(2)])

lemma commute_mixed:
  "Option.bind (core_apply (S_nft_transfer t) s) (core_apply (S_htlc_redeem r)) =
     Option.bind (core_apply (S_htlc_redeem r) s) (core_apply (S_nft_transfer t))"
  "Option.bind (core_apply (S_nft_transfer t) s) (core_apply (S_contract_call c)) =
     Option.bind (core_apply (S_contract_call c) s) (core_apply (S_nft_transfer t))"
  "Option.bind (core_apply (S_htlc_redeem r) s) (core_apply (S_contract_call c)) =
     Option.bind (core_apply (S_contract_call c) s) (core_apply (S_htlc_redeem r))"
proof -
  note simps = core_apply_core core_apply_eqs frame_simps
  show "Option.bind (core_apply (S_nft_transfer t) s) (core_apply (S_htlc_redeem r)) =
     Option.bind (core_apply (S_htlc_redeem r) s) (core_apply (S_nft_transfer t))"
    using redeemed_account [of r s]
    by (cases "moved_token t s"; cases "redeemed r s") (auto simp: simps, simp add: core_def)
  show "Option.bind (core_apply (S_nft_transfer t) s) (core_apply (S_contract_call c)) =
     Option.bind (core_apply (S_contract_call c) s) (core_apply (S_nft_transfer t))"
    by (cases "moved_token t s"; cases "called c s") (auto simp: simps, simp add: core_def)
  show "Option.bind (core_apply (S_htlc_redeem r) s) (core_apply (S_contract_call c)) =
     Option.bind (core_apply (S_contract_call c) s) (core_apply (S_htlc_redeem r))"
    using redeemed_account [of r s]
    by (cases "redeemed r s"; cases "called c s") (auto simp: simps, simp add: core_def)
qed

lemma core_apply_commute:
  assumes "\<not> op_clash x y"
  shows "Option.bind (core_apply x s) (core_apply y) = Option.bind (core_apply y s) (core_apply x)"
proof -
  note keys = conflict_keys [of 0 _ 0]
  have no: "\<not> conflict (classify_scheduled_op 0 x) (classify_scheduled_op 0 y)"
    using assms by (simp add: op_clash_def)
  show ?thesis
  proof (cases x)
    case (S_nft_transfer t)
    with no assms show ?thesis
      by (cases y) (simp_all add: commute_mixed commute_transfers keys(1))
  next
    case (S_htlc_redeem r)
    with no assms show ?thesis
      by (cases y) (simp_all add: commute_mixed commute_redeems keys(2))
  next
    case (S_contract_call c)
    with no assms show ?thesis
      by (cases y) (simp_all add: commute_mixed commute_calls keys(3))
  qed (use assms in simp)
qed

interpretation ops: commuting core_apply op_clash
  by unfold_locales (rule core_apply_commute)

lemma run_core:
  "ops.run xs (core db) = (case apply_in_order db xs of Done d \<Rightarrow> Some (core d) | Threw e d \<Rightarrow> None)"
proof (induction xs arbitrary: db)
  case Nil
  then show ?case by (simp add: apply_in_order_def)
next
  case (Cons x xs)
  have step: "core_apply x (core db) =
      (case apply_one db x of Done d \<Rightarrow> Some (core d) | Threw e d \<Rightarrow> None)"
    by (simp only: core_apply_core) (simp add: core_apply_def)
  show ?case
    by (cases "apply_one db x") (simp_all add: step Cons.IH apply_in_order_Cons)
qed

section \<open>Layers\<close>

text \<open>Both succeed, in states that differ only in announcements and the last charge, or both throw; of
  two exceptions nothing more is asked.\<close>

definition same_success :: "database outcome \<Rightarrow> database outcome \<Rightarrow> bool" where
  "same_success r r' \<longleftrightarrow>
     (case (r, r') of
        (Done d, Done d') \<Rightarrow> core d = core d'
      | (Threw e d, Threw e' d') \<Rightarrow> True
      | _ \<Rightarrow> False)"

lemma same_success_run:
  "same_success (apply_in_order db xs) (apply_in_order db ys) \<longleftrightarrow>
     ops.run xs (core db) = ops.run ys (core db)"
  by (auto simp: same_success_def run_core split: outcome.splits)

lemma layer_permutes:
  assumes layer: "sorted_wrt (\<lambda>i j. i \<noteq> j \<and> \<not> conflict (touch_of ops i) (touch_of ops j)) js"
    and perm: "mset is = mset js"
  shows "ops.run (map ((!) ops) is) = ops.run (map ((!) ops) js)"
proof -
  have distinct: "distinct js"
    using layer by (auto simp: distinct_conv_nth sorted_wrt_iff_nth_less) (metis linorder_neqE_nat)
  have free: "\<not> op_clash (ops ! i) (ops ! j)" if "i \<in> set js" "j \<in> set js" "i \<noteq> j" for i j
    using layer that op_clash_sym
    by (auto simp: sorted_wrt_iff_nth_less in_set_conv_nth conflict_index) (metis linorder_neqE_nat)
  have keeps: "ops.keeps ((!) ops) ks" if "mset ks = mset js" for ks
  proof -
    have "distinct ks" "set ks = set js"
      using that distinct mset_eq_imp_distinct_iff mset_eq_setD by blast+
    then have "\<not> op_clash (ops ! (ks ! a)) (ops ! (ks ! b))" if "a < b" "b < length ks" for a b
      using that by (intro free) (auto simp: distinct_conv_nth)
    then show ?thesis by (auto simp: ops.keeps_def sorted_wrt_iff_nth_less)
  qed
  show ?thesis
    by (rule ext, rule ops.run_permuted [OF perm keeps [OF perm] keeps [OF refl]])
qed

lemma layers_permute:
  assumes "list_all2 (\<lambda>is l. mset is = mset (op_indices l)) iss layers"
    and "list_all (\<lambda>l. sorted_wrt (\<lambda>i j. i \<noteq> j \<and> \<not> conflict (touch_of ops i) (touch_of ops j))
           (op_indices l)) layers"
  shows "ops.run (map ((!) ops) (concat iss)) = ops.run (map ((!) ops) (concat (map op_indices layers)))"
  using assms
proof (induction rule: list_all2_induct)
  case (Cons "is" iss l layers)
  have "ops.run (map ((!) ops) is) = ops.run (map ((!) ops) (op_indices l))"
    using Cons.prems Cons.hyps(1) by (intro layer_permutes) auto
  with Cons show ?case by (simp add: ops.run_append)
qed simp



section \<open>Schedules that keep the order\<close>












lemma scheduled_outcome:
  "map_outcome fst (apply_scheduled db ops) =
     apply_in_order db (map ((!) ops) (concat (map op_indices (st_layers (plan_schedule ops)))))"
  using apply_scheduled_in_order [of ops db]
  by (auto simp: plan_schedule_layers split: outcome.splits prod.splits)

section \<open>Two transfers\<close>

definition demo_pair :: "scheduled_op list" where
  "demo_pair =
     [S_nft_transfer \<lparr>nt_from = ''alice'', nt_to = ''op'', nt_nft_id = 1, nt_memo = []\<rparr>,
      S_nft_transfer \<lparr>nt_from = ''bob'', nt_to = ''carol'', nt_nft_id = 2, nt_memo = []\<rparr>]"

lemma demo_pair_layers: "map op_indices (st_layers (plan_schedule demo_pair)) = [[0, 1]]"
  unfolding plan_schedule_layers
  by (simp add: build_parallel_schedule_def classify_all_def demo_pair_def upt_rec
      classify_nft_transfer_def place_op_def find_place_def layer_fits_def empty_builder_def)


section \<open>Properties\<close>

text \<open>C30: operations of one layer may run in any order. However the operations are permuted
  within their layers, applying them succeeds exactly when the layered application does, and then
  ends in the same state up to the announced virtual operations and the last charge. When it does
  not, both throw; which exception comes first and what was applied before it may depend on the
  order, since nothing is rolled back.\<close>

theorem layer_order_is_irrelevant:
  assumes "list_all2 (\<lambda>is l. mset is = mset (op_indices l)) iss (st_layers (plan_schedule ops))"
  shows "same_success (apply_in_order db (map ((!) ops) (concat iss)))
    (map_outcome fst (apply_scheduled db ops))"
proof -
  have "list_all (\<lambda>l. sorted_wrt (\<lambda>i j. i \<noteq> j \<and> \<not> conflict (touch_of ops i) (touch_of ops j))
      (op_indices l)) (st_layers (plan_schedule ops))"
    using schedule_layers(2) [of ops] by (simp add: plan_schedule_layers list_all_iff)
  from layers_permute [OF assms this] show ?thesis
    by (simp only: scheduled_outcome same_success_run)
qed

theorem layer_order_is_irrelevant_witness:
  "same_success (apply_in_order demo_move_db [demo_pair ! 1, demo_pair ! 0])
     (map_outcome fst (apply_scheduled demo_move_db demo_pair))"
proof -
  have "list_all2 (\<lambda>is is'. mset is = mset is') [[1, 0]]
      (map op_indices (st_layers (plan_schedule demo_pair)))"
    by (simp add: demo_pair_layers)
  then have "list_all2 (\<lambda>is l. mset is = mset (op_indices l)) [[1, 0]] (st_layers (plan_schedule demo_pair))"
    by (simp only: list_all2_map2)
  from layer_order_is_irrelevant [OF this, of demo_move_db] show ?thesis by simp
qed



end
