(* ===== verification/Flat_Hash_Map.thy ===== *)
theory Flat_Hash_Map
  imports Xxhash
begin

text \<open>
  \<open>include/hive_native/perf/flat_hash_map.hpp\<close>: the open-addressing string map. A slot is
  \<open>Empty\<close>, \<open>Full key value\<close> or \<open>Tomb\<close>; the key and value of a slot that is not full are never
  read and are left out. \<open>insert\<close> probes in an unbounded loop and may rehash, which inserts
  again: the model bounds the probing by the number of slots and the nesting by fuel, with
  \<open>None\<close> for running out, and shows that neither bound is ever reached.

  \<open>fm_abs\<close> is the map a table stands for. \<open>find\<close> and \<open>erase\<close> implement lookup and deletion
  on every well-formed table; \<open>insert\<close> always returns and the next \<open>find\<close> sees its value; it
  implements update of the map when the key is new, the table has no tombstone or is rehashed. For
  a key that is present behind a tombstone it stores a second copy instead.
\<close>

section \<open>Operations\<close>

datatype 'v slot = Empty | Full string 'v | Tomb

record 'v flat_hash_map =
  fm_slots :: "'v slot list"
  fm_size :: nat

definition fm_home :: "nat \<Rightarrow> string \<Rightarrow> nat" where
  "fm_home cap key = unat (xxhash64 key 0) AND (cap - 1)"

definition fm_next :: "nat \<Rightarrow> nat \<Rightarrow> nat" where
  "fm_next cap i = (i + 1) AND (cap - 1)"

text \<open>\<open>while(cap < n) cap <<= 1;\<close> starting from 1; the first argument is the exponent.\<close>

function cap_loop :: "nat \<Rightarrow> nat \<Rightarrow> nat" where
  "cap_loop e n = (if 2 ^ e < n then cap_loop (Suc e) n else 2 ^ e)"
  by pat_completeness auto
termination
proof (relation "measure (\<lambda>(e, n). n - e)")
  fix e n :: nat
  assume "2 ^ e < n"
  then have "e < n" by (rule less_trans [OF less_exp])
  then show "((Suc e, n), (e, n)) \<in> measure (\<lambda>(e, n). n - e)" by simp
qed simp

declare cap_loop.simps [simp del]

fun fm_probe :: "nat \<Rightarrow> 'v slot list \<Rightarrow> nat \<Rightarrow> string \<Rightarrow> 'v \<Rightarrow> (bool \<times> 'v slot list) option" where
  "fm_probe 0 slots i key value = None"
| "fm_probe (Suc n) slots i key value =
     (case slots ! i of
        Full k _ \<Rightarrow>
          if k = key then Some (False, slots[i := Full key value])
          else fm_probe n slots (fm_next (length slots) i) key value
      | _ \<Rightarrow> Some (True, slots[i := Full key value]))"

definition fm_place :: "'v flat_hash_map \<Rightarrow> string \<Rightarrow> 'v \<Rightarrow> (bool \<times> 'v flat_hash_map) option" where
  "fm_place m key value =
     (case fm_probe (length (fm_slots m)) (fm_slots m) (fm_home (length (fm_slots m)) key) key value of
        None \<Rightarrow> None
      | Some (fresh, slots) \<Rightarrow>
          Some (fresh, \<lparr>fm_slots = slots, fm_size = (if fresh then fm_size m + 1 else fm_size m)\<rparr>))"

definition fm_rehash_with ::
  "('v flat_hash_map \<Rightarrow> string \<Rightarrow> 'v \<Rightarrow> (bool \<times> 'v flat_hash_map) option) \<Rightarrow> nat \<Rightarrow>
   'v flat_hash_map \<Rightarrow> 'v flat_hash_map option" where
  "fm_rehash_with ins n m =
     foldl (\<lambda>acc s. case acc of
         None \<Rightarrow> None
       | Some m' \<Rightarrow> (case s of Full k v \<Rightarrow> map_option snd (ins m' k v) | _ \<Rightarrow> Some m'))
       (Some \<lparr>fm_slots = replicate (cap_loop 0 n) Empty, fm_size = 0\<rparr>) (fm_slots m)"

primrec fm_insert_fuel ::
  "nat \<Rightarrow> 'v flat_hash_map \<Rightarrow> string \<Rightarrow> 'v \<Rightarrow> (bool \<times> 'v flat_hash_map) option" where
  "fm_insert_fuel 0 = (\<lambda>m key value. None)"
| "fm_insert_fuel (Suc f) = (\<lambda>m key value.
     case (if fm_size m * 10 \<ge> length (fm_slots m) * 7
           then fm_rehash_with (fm_insert_fuel f) (length (fm_slots m) * 2) m else Some m) of
       None \<Rightarrow> None
     | Some m \<Rightarrow> fm_place m key value)"

definition fm_insert :: "'v flat_hash_map \<Rightarrow> string \<Rightarrow> 'v \<Rightarrow> (bool \<times> 'v flat_hash_map) option" where
  "fm_insert m key value = fm_insert_fuel 2 m key value"

definition fm_new :: "nat \<Rightarrow> 'v flat_hash_map" where
  "fm_new cap = \<lparr>fm_slots = replicate (cap_loop 0 (if cap < 8 then 8 else cap)) Empty, fm_size = 0\<rparr>"

definition fm_clear :: "'v flat_hash_map \<Rightarrow> 'v flat_hash_map" where
  "fm_clear m = m\<lparr>fm_slots := map (\<lambda>_. Empty) (fm_slots m), fm_size := 0\<rparr>"

definition fm_capacity :: "'v flat_hash_map \<Rightarrow> nat" where
  "fm_capacity m = length (fm_slots m)"

text \<open>The bounded loop of \<open>find\<close> and \<open>erase\<close>: the index of the slot that holds the key.\<close>

fun fm_locate :: "nat \<Rightarrow> 'v slot list \<Rightarrow> nat \<Rightarrow> string \<Rightarrow> nat option" where
  "fm_locate 0 slots i key = None"
| "fm_locate (Suc n) slots i key =
     (case slots ! i of
        Empty \<Rightarrow> None
      | Full k _ \<Rightarrow> if k = key then Some i else fm_locate n slots (fm_next (length slots) i) key
      | Tomb \<Rightarrow> fm_locate n slots (fm_next (length slots) i) key)"

definition fm_find :: "'v flat_hash_map \<Rightarrow> string \<Rightarrow> 'v option" where
  "fm_find m key =
     (if fm_slots m = [] then None
      else case fm_locate (length (fm_slots m)) (fm_slots m) (fm_home (length (fm_slots m)) key) key of
        None \<Rightarrow> None
      | Some i \<Rightarrow> (case fm_slots m ! i of Full _ v \<Rightarrow> Some v | _ \<Rightarrow> None))"

definition fm_erase :: "'v flat_hash_map \<Rightarrow> string \<Rightarrow> bool \<times> 'v flat_hash_map" where
  "fm_erase m key =
     (if fm_slots m = [] then (False, m)
      else case fm_locate (length (fm_slots m)) (fm_slots m) (fm_home (length (fm_slots m)) key) key of
        None \<Rightarrow> (False, m)
      | Some i \<Rightarrow> (True, \<lparr>fm_slots = (fm_slots m)[i := Tomb], fm_size = fm_size m - 1\<rparr>))"

section \<open>Probe sequences\<close>

text \<open>The slot that a probe for \<open>key\<close> visits at step \<open>t\<close>, in a table of a power-of-two size.\<close>

definition at :: "nat \<Rightarrow> string \<Rightarrow> nat \<Rightarrow> nat" where
  "at cap key t = (fm_home cap key + t) mod cap"

definition pow2 :: "nat \<Rightarrow> bool" where
  "pow2 n \<longleftrightarrow> (\<exists>e. n = 2 ^ e)"

lemma pow2_pos: "pow2 n \<Longrightarrow> 0 < n"
  by (auto simp: pow2_def)

lemma and_mask_nat:
  assumes "pow2 cap"
  shows "(x :: nat) AND (cap - Suc 0) = x mod cap"
proof -
  from assms obtain e where "cap = 2 ^ e" by (auto simp: pow2_def)
  then have "x AND (cap - Suc 0) = take_bit e x" by (simp add: take_bit_eq_mask mask_nat_def)
  also have "\<dots> = x mod cap" using \<open>cap = 2 ^ e\<close> by (simp add: take_bit_nat_def)
  finally show ?thesis .
qed

lemma fm_home_at: "pow2 cap \<Longrightarrow> fm_home cap key = at cap key 0"
  by (simp add: at_def fm_home_def and_mask_nat)

lemma fm_next_at: "pow2 cap \<Longrightarrow> fm_next cap (at cap key t) = at cap key (Suc t)"
  by (simp add: fm_next_def and_mask_nat at_def mod_Suc_eq)

lemma at_less: "pow2 cap \<Longrightarrow> at cap key t < cap"
  by (simp add: at_def pow2_pos)

lemma mod_add_left_inject:
  fixes h s t cap :: nat
  assumes "s \<le> t" "t < cap" "(h + s) mod cap = (h + t) mod cap"
  shows "s = t"
proof -
  have "cap dvd (h + t) - (h + s)"
    using assms mod_eq_dvd_iff_nat [of "h + s" "h + t" cap] by simp
  then show ?thesis using assms(1,2) by (auto dest!: dvd_imp_le)
qed

lemma at_inj: "s < cap \<Longrightarrow> t < cap \<Longrightarrow> at cap key s = at cap key t \<Longrightarrow> s = t"
  using mod_add_left_inject [of s t cap "fm_home cap key"]
    mod_add_left_inject [of t s cap "fm_home cap key"]
  by (cases "s \<le> t") (auto simp: at_def)

lemma at_surj:
  assumes "pow2 cap" "j < cap"
  obtains t where "t < cap" "at cap key t = j"
proof
  let ?h = "fm_home cap key mod cap"
  let ?t = "(j + cap - ?h) mod cap"
  show "?t < cap" using pow2_pos [OF assms(1)] by simp
  have "at cap key ?t = (?h + (j + cap - ?h)) mod cap"
    by (simp add: at_def mod_simps)
  also have "\<dots> = j"
  proof -
    have "?h \<le> j + cap"
      using mod_less_divisor [OF pow2_pos [OF assms(1)], of "fm_home cap key"] by simp
    then have "?h + (j + cap - ?h) = j + cap" by simp
    then show ?thesis using assms(2) by simp
  qed
  finally show "at cap key ?t = j" .
qed

section \<open>Well-formed tables\<close>

text \<open>Every stored key is reachable: the probe for it meets no empty slot on the way.\<close>

definition reachable :: "'v slot list \<Rightarrow> bool" where
  "reachable slots \<longleftrightarrow>
     (\<forall>t key v. t < length slots \<longrightarrow> slots ! at (length slots) key t = Full key v \<longrightarrow>
        (\<forall>s < t. slots ! at (length slots) key s \<noteq> Empty))"

definition unique_keys :: "'v slot list \<Rightarrow> bool" where
  "unique_keys slots \<longleftrightarrow>
     (\<forall>i j key v w. i < length slots \<longrightarrow> j < length slots \<longrightarrow>
        slots ! i = Full key v \<longrightarrow> slots ! j = Full key w \<longrightarrow> i = j)"

definition is_full :: "'v slot \<Rightarrow> bool" where
  "is_full s \<longleftrightarrow> (\<exists>k v. s = Full k v)"

definition full_count :: "'v slot list \<Rightarrow> nat" where
  "full_count slots = length (filter is_full slots)"

definition fm_ok :: "'v flat_hash_map \<Rightarrow> bool" where
  "fm_ok m \<longleftrightarrow>
     pow2 (length (fm_slots m)) \<and> reachable (fm_slots m) \<and> unique_keys (fm_slots m) \<and>
     fm_size m = full_count (fm_slots m)"

definition entries :: "'v slot list \<Rightarrow> (string \<times> 'v) list" where
  "entries slots = concat (map (\<lambda>s. case s of Full k v \<Rightarrow> [(k, v)] | _ \<Rightarrow> []) slots)"

definition slots_abs :: "'v slot list \<Rightarrow> string \<rightharpoonup> 'v" where
  "slots_abs slots = map_of (entries slots)"

definition fm_abs :: "'v flat_hash_map \<Rightarrow> string \<rightharpoonup> 'v" where
  "fm_abs m = slots_abs (fm_slots m)"

definition tomb_free :: "'v slot list \<Rightarrow> bool" where
  "tomb_free slots \<longleftrightarrow> Tomb \<notin> set slots"

lemma unique_value:
  assumes "unique_keys slots" "Full key v \<in> set slots" "Full key w \<in> set slots"
  shows "v = w"
proof -
  from assms(2,3) obtain i j where "i < length slots" "slots ! i = Full key v"
    "j < length slots" "slots ! j = Full key w" by (auto simp: in_set_conv_nth)
  with assms(1) show ?thesis by (metis slot.inject unique_keys_def)
qed

lemma set_entries: "(k, v) \<in> set (entries slots) \<longleftrightarrow> Full k v \<in> set slots"
  by (induction slots) (auto simp: entries_def split: slot.splits)

lemma slots_abs_None: "slots_abs slots key = None \<longleftrightarrow> (\<forall>v. Full key v \<notin> set slots)"
  using set_entries [of key _ slots] by (force simp: slots_abs_def map_of_eq_None_iff)

lemma slots_abs_Some:
  assumes "unique_keys slots"
  shows "slots_abs slots key = Some v \<longleftrightarrow> Full key v \<in> set slots"
proof
  show "slots_abs slots key = Some v \<Longrightarrow> Full key v \<in> set slots"
    by (auto simp: slots_abs_def set_entries dest: map_of_SomeD)
  show "slots_abs slots key = Some v" if v: "Full key v \<in> set slots"
  proof -
    from v obtain w where w: "slots_abs slots key = Some w"
      using slots_abs_None [of slots key] by (cases "slots_abs slots key") auto
    then have "Full key w \<in> set slots"
      by (auto simp: slots_abs_def set_entries dest: map_of_SomeD)
    with unique_value [OF assms v] w show ?thesis by blast
  qed
qed

lemma slots_abs_eqI:
  assumes "unique_keys slots" and "\<And>key v. f key = Some v \<longleftrightarrow> Full key v \<in> set slots"
  shows "slots_abs slots = f"
proof
  fix key
  show "slots_abs slots key = f key"
    using assms slots_abs_Some [OF assms(1)] by (cases "f key") (metis not_None_eq)+
qed

section \<open>Locating a key\<close>

lemma fm_locate_None:
  assumes "\<forall>v. Full key v \<notin> set slots" and cap: "pow2 (length slots)"
  shows "fm_locate n slots (at (length slots) key t) key = None"
proof (induction n arbitrary: t)
  case (Suc n)
  have "slots ! at (length slots) key t \<in> set slots"
    using at_less [OF cap] by (rule nth_mem)
  then show ?case
    using assms(1) Suc by (auto simp: fm_next_at [OF cap] split: slot.splits)
qed simp

lemma fm_locate_Some:
  assumes cap: "pow2 (length slots)" and uniq: "unique_keys slots"
    and at: "slots ! at (length slots) key d = Full key v"
    and path: "\<forall>s < d. slots ! at (length slots) key s \<noteq> Empty"
  shows "t \<le> d \<Longrightarrow> d < t + n \<Longrightarrow>
    fm_locate n slots (at (length slots) key t) key = Some (at (length slots) key d)"
proof (induction n arbitrary: t)
  case (Suc n)
  show ?case
  proof (cases "slots ! at (length slots) key t")
    case Empty
    then show ?thesis using path Suc.prems at by (cases "t = d") auto
  next
    case (Full k w)
    show ?thesis
    proof (cases "k = key")
      case True
      then have "at (length slots) key t = at (length slots) key d"
        using uniq Full at at_less [OF cap] unfolding unique_keys_def by blast
      then show ?thesis using Full True by simp
    next
      case False
      then have "t \<noteq> d" using Full at by auto
      then show ?thesis using Suc Full False by (simp add: fm_next_at [OF cap])
    qed
  next
    case Tomb
    then have "t \<noteq> d" using at by auto
    then show ?thesis using Suc Tomb by (simp add: fm_next_at [OF cap])
  qed
qed simp

lemma fm_locate_home:
  assumes cap: "pow2 (length slots)" and uniq: "unique_keys slots" and reach: "reachable slots"
  shows "(\<forall>v. Full key v \<notin> set slots) \<and>
      fm_locate (length slots) slots (fm_home (length slots) key) key = None \<or>
    (\<exists>i v. i < length slots \<and> slots ! i = Full key v \<and>
      fm_locate (length slots) slots (fm_home (length slots) key) key = Some i)"
proof (cases "\<forall>v. Full key v \<notin> set slots")
  case True
  then show ?thesis
    using fm_locate_None [OF True cap, of _ 0] by (simp add: fm_home_at [OF cap])
next
  case False
  then obtain i v where i: "i < length slots" "slots ! i = Full key v"
    by (auto simp: in_set_conv_nth)
  obtain d where d: "d < length slots" "at (length slots) key d = i"
    using at_surj [OF cap i(1)] .
  have "\<forall>s < d. slots ! at (length slots) key s \<noteq> Empty"
    using reach d i unfolding reachable_def by blast
  from fm_locate_Some [OF cap uniq _ this, of v 0 "length slots"] d i
  have "fm_locate (length slots) slots (fm_home (length slots) key) key = Some i"
    by (simp add: fm_home_at [OF cap])
  with i show ?thesis by blast
qed

lemma fm_find_abs:
  assumes ok: "fm_ok m"
  shows "fm_find m key = fm_abs m key"
proof -
  have ne: "fm_slots m \<noteq> []"
    using ok pow2_pos by (force simp: fm_ok_def)
  have parts: "pow2 (length (fm_slots m))" "unique_keys (fm_slots m)" "reachable (fm_slots m)"
    using ok by (simp_all add: fm_ok_def)
  from fm_locate_home [OF parts, of key] show ?thesis
  proof
    assume "(\<forall>v. Full key v \<notin> set (fm_slots m)) \<and>
      fm_locate (length (fm_slots m)) (fm_slots m) (fm_home (length (fm_slots m)) key) key = None"
    then show ?thesis
      using slots_abs_None [of "fm_slots m" key] by (simp add: fm_find_def fm_abs_def)
  next
    assume "\<exists>i v. i < length (fm_slots m) \<and> fm_slots m ! i = Full key v \<and>
      fm_locate (length (fm_slots m)) (fm_slots m) (fm_home (length (fm_slots m)) key) key = Some i"
    then obtain i v where "i < length (fm_slots m)" "fm_slots m ! i = Full key v"
      "fm_locate (length (fm_slots m)) (fm_slots m) (fm_home (length (fm_slots m)) key) key = Some i"
      by blast
    moreover from this have "Full key v \<in> set (fm_slots m)"
      by (metis nth_mem)
    ultimately show ?thesis
      using slots_abs_Some [OF parts(2), of key v] ne by (simp add: fm_find_def fm_abs_def)
  qed
qed

section \<open>Writing one slot\<close>

lemma full_count_update:
  assumes "i < length slots"
  shows "full_count (slots[i := s]) + of_bool (is_full (slots ! i)) = full_count slots + of_bool (is_full s)"
proof -
  have "full_count (take i slots @ x # drop (Suc i) slots) =
      full_count (take i slots) + of_bool (is_full x) + full_count (drop (Suc i) slots)" for x
    by (simp add: full_count_def)
  from this [of s] this [of "slots ! i"] assms show ?thesis
    by (simp add: upd_conv_take_nth_drop id_take_nth_drop [symmetric])
qed

lemma full_count_le: "full_count slots \<le> length slots"
  by (simp add: full_count_def)

lemma set_update_iff:
  assumes "i < length slots" "unique_keys slots"
    and "\<And>k v. slots ! i = Full k v \<Longrightarrow> k = key"
    and "\<And>v. Full key v \<in> set slots \<Longrightarrow> slots ! i = Full key v"
  shows "Full k w \<in> set (slots[i := s]) \<longleftrightarrow>
    (if k = key then s = Full key w else Full k w \<in> set slots \<or> s = Full k w)"
proof -
  have "x \<in> set (slots[i := s]) \<longleftrightarrow> x = s \<or> (\<exists>j < length slots. j \<noteq> i \<and> slots ! j = x)" for x
    using assms(1) by (auto simp: in_set_conv_nth nth_list_update split: if_splits)
  moreover have "(\<exists>j < length slots. j \<noteq> i \<and> slots ! j = Full k w) \<longleftrightarrow>
      k \<noteq> key \<and> Full k w \<in> set slots"
  proof
    assume "\<exists>j < length slots. j \<noteq> i \<and> slots ! j = Full k w"
    then obtain j where j: "j < length slots" "j \<noteq> i" "slots ! j = Full k w" by blast
    then have mem: "Full k w \<in> set slots" by (metis nth_mem)
    moreover have "k \<noteq> key"
      using assms(1,2,4) j mem unfolding unique_keys_def by blast
    ultimately show "k \<noteq> key \<and> Full k w \<in> set slots" by simp
  next
    assume "k \<noteq> key \<and> Full k w \<in> set slots"
    with assms(3) show "\<exists>j < length slots. j \<noteq> i \<and> slots ! j = Full k w"
      by (metis in_set_conv_nth)
  qed
  ultimately show ?thesis by auto
qed

text \<open>Filling or refilling the slot that a probe stops at keeps the table well-formed.\<close>

lemma reachable_fill:
  assumes "reachable slots" "d < length slots" "pow2 (length slots)"
    and "\<forall>s < d. slots ! at (length slots) key s \<noteq> Empty"
  shows "reachable (slots[at (length slots) key d := Full key v])"
  unfolding reachable_def
proof (intro allI impI)
  let ?i = "at (length slots) key d"
  fix t k w s
  assume t: "t < length (slots[?i := Full key v])"
    and full: "slots[?i := Full key v] ! at (length (slots[?i := Full key v])) k t = Full k w"
    and s: "s < t"
  have i: "?i < length slots" by (rule at_less [OF assms(3)])
  have kept: "slots ! at (length slots) k s \<noteq> Empty \<Longrightarrow>
      slots[?i := Full key v] ! at (length slots) k s \<noteq> Empty"
    using i by (cases "at (length slots) k s = ?i") auto
  show "slots[?i := Full key v] ! at (length (slots[?i := Full key v])) k s \<noteq> Empty"
  proof (cases "at (length slots) k t = ?i")
    case True
    then have "k = key" using full i by simp
    with True t assms(2) have "t = d" using at_inj by simp
    with assms(4) s kept \<open>k = key\<close> show ?thesis by simp
  next
    case False
    then have "slots ! at (length slots) k t = Full k w" using full by simp
    with assms(1) t s kept show ?thesis unfolding reachable_def by simp
  qed
qed

lemma unique_keys_update:
  assumes "unique_keys slots" "i < length slots"
    and "\<And>v. Full key v \<in> set slots \<Longrightarrow> slots ! i = Full key v"
    and "s = Full key v \<or> s = Tomb"
  shows "unique_keys (slots[i := s])"
  unfolding unique_keys_def
proof (intro allI impI)
  fix a b k x y
  assume ab: "a < length (slots[i := s])" "b < length (slots[i := s])"
    and full: "slots[i := s] ! a = Full k x" "slots[i := s] ! b = Full k y"
  have other: "j = i" if "j < length slots" "slots ! j = Full key z" for j z
    using assms(1-3) that nth_mem [OF that(1)] unfolding unique_keys_def by metis
  show "a = b"
    using ab full assms(1,2,4) other unfolding unique_keys_def
    by (auto simp: nth_list_update split: if_splits)
qed

lemma nth_tomb:
  "slots[i := Tomb] ! j = Full k v \<Longrightarrow> slots ! j = Full k v"
  "slots ! j \<noteq> Empty \<Longrightarrow> slots[i := Tomb] ! j \<noteq> Empty"
  by (cases "i < length slots"; cases "j = i"; auto simp: list_update_beyond)+

lemma reachable_tomb:
  assumes "reachable slots"
  shows "reachable (slots[i := Tomb])"
  using assms nth_tomb [where slots = slots and i = i] unfolding reachable_def length_list_update by blast

section \<open>Erasing\<close>

lemma fm_erase_spec:
  assumes ok: "fm_ok m"
  shows "fm_ok (snd (fm_erase m key))" "fm_abs (snd (fm_erase m key)) = (fm_abs m)(key := None)"
    "fst (fm_erase m key) \<longleftrightarrow> fm_abs m key \<noteq> None"
proof -
  let ?sl = "fm_slots m"
  have parts: "pow2 (length ?sl)" "unique_keys ?sl" "reachable ?sl" "fm_size m = full_count ?sl"
    using ok by (simp_all add: fm_ok_def)
  have ne: "?sl \<noteq> []" using pow2_pos [OF parts(1)] by auto
  from fm_locate_home [OF parts(1-3), of key]
  have "fm_ok (snd (fm_erase m key)) \<and> fm_abs (snd (fm_erase m key)) = (fm_abs m)(key := None) \<and>
    (fst (fm_erase m key) \<longleftrightarrow> fm_abs m key \<noteq> None)"
  proof
    assume "(\<forall>v. Full key v \<notin> set ?sl) \<and> fm_locate (length ?sl) ?sl (fm_home (length ?sl) key) key = None"
    then show ?thesis
      using ok slots_abs_None [of ?sl key] by (auto simp: fm_erase_def fm_abs_def fun_upd_idem)
  next
    assume "\<exists>i v. i < length ?sl \<and> ?sl ! i = Full key v \<and>
      fm_locate (length ?sl) ?sl (fm_home (length ?sl) key) key = Some i"
    then obtain i v where i: "i < length ?sl" "?sl ! i = Full key v"
      and loc: "fm_locate (length ?sl) ?sl (fm_home (length ?sl) key) key = Some i"
      by blast
    have mem: "Full key v \<in> set ?sl" using i by (metis nth_mem)
    have here: "?sl ! i = Full key w" if "Full key w \<in> set ?sl" for w
      using unique_value [OF parts(2) mem that] i by simp
    have er: "fm_erase m key = (True, \<lparr>fm_slots = ?sl[i := Tomb], fm_size = fm_size m - 1\<rparr>)"
      using loc ne by (simp add: fm_erase_def)
    have uniq: "unique_keys (?sl[i := Tomb])"
      by (rule unique_keys_update [OF parts(2) i(1) here]) simp_all
    have count: "full_count (?sl[i := Tomb]) = fm_size m - 1"
      using full_count_update [OF i(1), of Tomb] i parts(4) by (simp add: is_full_def)
    have "slots_abs (?sl[i := Tomb]) = (slots_abs ?sl)(key := None)"
      using set_update_iff [OF i(1) parts(2) _ here, of _ _ Tomb] i(2) slots_abs_Some [OF parts(2)]
      by (intro slots_abs_eqI [OF uniq]) auto
    then show ?thesis
      using uniq reachable_tomb [OF parts(3)] parts(1) count slots_abs_Some [OF parts(2), of key v] mem
      by (simp add: er fm_ok_def fm_abs_def)
  qed
  then show "fm_ok (snd (fm_erase m key))" "fm_abs (snd (fm_erase m key)) = (fm_abs m)(key := None)"
    "fst (fm_erase m key) \<longleftrightarrow> fm_abs m key \<noteq> None"
    by simp_all
qed

section \<open>Placing\<close>

text \<open>The probe of an insertion stops at the first slot that is not full or holds the key.\<close>

lemma fm_probe_stops:
  assumes cap: "pow2 (length slots)"
    and stop: "\<not> is_full (slots ! at (length slots) key d) \<or>
      (\<exists>w. slots ! at (length slots) key d = Full key w)"
    and pass: "\<forall>s < d. is_full (slots ! at (length slots) key s) \<and>
      (\<forall>w. slots ! at (length slots) key s \<noteq> Full key w)"
  shows "t \<le> d \<Longrightarrow> d < t + n \<Longrightarrow>
    fm_probe n slots (at (length slots) key t) key v =
    Some (\<not> is_full (slots ! at (length slots) key d), slots[at (length slots) key d := Full key v])"
proof (induction n arbitrary: t)
  case (Suc n)
  show ?case
  proof (cases "t = d")
    case True
    then show ?thesis
      using stop by (auto simp: is_full_def split: slot.splits)
  next
    case False
    then have "t < d" using Suc.prems by simp
    with pass obtain k w where "slots ! at (length slots) key t = Full k w" "k \<noteq> key"
      by (auto simp: is_full_def)
    with Suc \<open>t < d\<close> show ?thesis by (simp add: fm_next_at [OF cap])
  qed
qed simp

lemma not_all_full:
  assumes "full_count slots < length slots"
  obtains i where "i < length slots" "\<not> is_full (slots ! i)"
proof -
  have "\<exists>x \<in> set slots. \<not> is_full x"
    using assms unfolding full_count_def by (metis filter_True less_irrefl)
  then show ?thesis using that by (auto simp: in_set_conv_nth)
qed

lemma probe_stop_exists:
  assumes cap: "pow2 (length slots)" and room: "full_count slots < length slots"
  obtains d where "d < length slots"
    "\<not> is_full (slots ! at (length slots) key d) \<or> (\<exists>w. slots ! at (length slots) key d = Full key w)"
    "\<forall>s < d. is_full (slots ! at (length slots) key s) \<and>
      (\<forall>w. slots ! at (length slots) key s \<noteq> Full key w)"
proof -
  let ?stop = "\<lambda>d. \<not> is_full (slots ! at (length slots) key d) \<or>
    (\<exists>w. slots ! at (length slots) key d = Full key w)"
  obtain i where i: "i < length slots" "\<not> is_full (slots ! i)"
    using not_all_full [OF room] .
  obtain e where e: "e < length slots" "at (length slots) key e = i"
    using at_surj [OF cap i(1)] .
  then have ex: "?stop e" using i by simp
  define d where "d = (LEAST d. ?stop d)"
  have "?stop d" unfolding d_def by (rule LeastI [of ?stop e, OF ex])
  moreover have "d \<le> e" unfolding d_def by (rule Least_le [of ?stop e, OF ex])
  moreover have "\<not> ?stop s" if "s < d" for s
    using that not_less_Least unfolding d_def by blast
  ultimately show ?thesis using e by (intro that [of d]) auto
qed

text \<open>A stored key lies where the probe for it stops, unless a tombstone stops the probe first.\<close>

lemma key_at_stop:
  fixes sl :: "'v slot list"
  defines "n \<equiv> length sl"
  assumes parts: "pow2 n" "unique_keys sl" "reachable sl" and d: "d < n"
    and stop: "\<not> is_full (sl ! at n key d) \<or> (\<exists>w. sl ! at n key d = Full key w)"
    and pass: "\<forall>s < d. is_full (sl ! at n key s) \<and> (\<forall>w. sl ! at n key s \<noteq> Full key w)"
    and live: "sl ! at n key d \<noteq> Tomb" and w: "Full key w \<in> set sl"
  shows "sl ! at n key d = Full key w"
proof -
  from w obtain j where j: "j < n" "sl ! j = Full key w" by (auto simp: in_set_conv_nth n_def)
  obtain e where e: "e < n" "at n key e = j" using at_surj [OF parts(1) j(1)] .
  have "\<not> e < d" using pass e j by auto
  moreover have "\<not> d < e"
  proof
    assume "d < e"
    with parts(3) e j have "sl ! at n key d \<noteq> Empty" unfolding reachable_def n_def by blast
    with live obtain u where "sl ! at n key d = Full key u"
      using stop by (cases "sl ! at n key d") (auto simp: is_full_def)
    with parts(2) at_less [OF parts(1)] j have "at n key d = j" unfolding unique_keys_def n_def by blast
    with e d \<open>d < e\<close> at_inj [of d n e key] show False by simp
  qed
  ultimately show ?thesis using e j by (metis linorder_neqE_nat)
qed

text \<open>Placing a key that is new, or into a table without tombstones, updates the map.\<close>

lemma fm_place_spec:
  assumes ok: "fm_ok m" and room: "full_count (fm_slots m) < length (fm_slots m)"
    and safe: "fm_abs m key = None \<or> tomb_free (fm_slots m)"
  shows "\<exists>m'. fm_place m key v = Some (fm_abs m key = None, m') \<and> fm_ok m' \<and>
    fm_abs m' = (fm_abs m)(key \<mapsto> v) \<and> length (fm_slots m') = length (fm_slots m) \<and>
    (tomb_free (fm_slots m) \<longrightarrow> tomb_free (fm_slots m'))"
proof -
  let ?sl = "fm_slots m" and ?n = "length (fm_slots m)"
  have parts: "pow2 ?n" "unique_keys ?sl" "reachable ?sl" "fm_size m = full_count ?sl"
    using ok by (simp_all add: fm_ok_def)
  obtain d where d: "d < ?n" and stop: "\<not> is_full (?sl ! at ?n key d) \<or> (\<exists>w. ?sl ! at ?n key d = Full key w)"
    and pass: "\<forall>s < d. is_full (?sl ! at ?n key s) \<and> (\<forall>w. ?sl ! at ?n key s \<noteq> Full key w)"
    using probe_stop_exists [OF parts(1) room] .
  let ?i = "at ?n key d"
  have i: "?i < ?n" by (rule at_less [OF parts(1)])
  have here: "?sl ! ?i = Full key w" if w: "Full key w \<in> set ?sl" for w
  proof (rule key_at_stop [OF parts(1-3) d stop pass _ w])
    show "?sl ! ?i \<noteq> Tomb"
      using safe w slots_abs_None [of ?sl key] nth_mem [OF i] by (auto simp: tomb_free_def fm_abs_def)
  qed
  let ?sl' = "?sl[?i := Full key v]"
  have fresh: "\<not> is_full (?sl ! ?i) \<longleftrightarrow> fm_abs m key = None"
    using stop here nth_mem [OF i] slots_abs_None [of ?sl key]
    by (auto simp: fm_abs_def is_full_def)
  have own: "k = key" if "?sl ! ?i = Full k w" for k w
    using stop that by (auto simp: is_full_def)
  have uniq: "unique_keys ?sl'"
    by (rule unique_keys_update [OF parts(2) i here]) simp_all
  have reach: "reachable ?sl'"
  proof (rule reachable_fill [OF parts(3) d parts(1)])
    show "\<forall>s < d. ?sl ! at ?n key s \<noteq> Empty" using pass by (auto simp: is_full_def)
  qed
  have abs: "slots_abs ?sl' = (slots_abs ?sl)(key \<mapsto> v)"
    using set_update_iff [OF i parts(2) own here, where s = "Full key v"] slots_abs_Some [OF parts(2)]
    by (intro slots_abs_eqI [OF uniq]) auto
  have count: "full_count ?sl' = (if fm_abs m key = None then fm_size m + 1 else fm_size m)"
    using full_count_update [OF i, of "Full key v"] fresh parts(4) by (auto simp: is_full_def)
  have "fm_probe ?n ?sl (fm_home ?n key) key v = Some (fm_abs m key = None, ?sl')"
    using fm_probe_stops [OF parts(1) stop pass, of 0 ?n v] d fresh
    by (simp add: fm_home_at [OF parts(1)])
  then have "fm_place m key v = Some (fm_abs m key = None,
      \<lparr>fm_slots = ?sl', fm_size = (if fm_abs m key = None then fm_size m + 1 else fm_size m)\<rparr>)"
    by (simp add: fm_place_def)
  moreover have "tomb_free ?sl \<Longrightarrow> tomb_free ?sl'"
    by (auto simp: tomb_free_def dest: subsetD [OF set_update_subset_insert])
  ultimately show ?thesis
    using uniq reach abs count parts(1) by (auto simp: fm_ok_def fm_abs_def)
qed

section \<open>Rehashing and inserting\<close>

lemma cap_loop_pow2: "pow2 (cap_loop e n) \<and> n \<le> cap_loop e n"
proof (induction e n rule: cap_loop.induct)
  case (1 e n)
  then show ?case by (cases "2 ^ e < n") (auto simp: cap_loop.simps [of e n] pow2_def)
qed

lemma fm_ok_replicate:
  "pow2 n \<Longrightarrow> fm_ok \<lparr>fm_slots = replicate n Empty, fm_size = 0\<rparr>"
  by (auto simp: fm_ok_def reachable_def unique_keys_def full_count_def is_full_def at_less)

lemma fm_abs_replicate: "fm_abs \<lparr>fm_slots = replicate n Empty, fm_size = k\<rparr> = Map.empty"
proof
  fix key
  show "fm_abs \<lparr>fm_slots = replicate n Empty, fm_size = k\<rparr> key = None"
    using slots_abs_None [of "replicate n Empty" key] by (simp add: fm_abs_def)
qed

text \<open>The fuelled insertion with room does no rehash.\<close>

lemma fm_insert_fuel_room:
  "fm_size m * 10 < length (fm_slots m) * 7 \<Longrightarrow> fm_insert_fuel (Suc f) m key v = fm_place m key v"
  by simp

lemma room_of_load: "fm_ok m \<Longrightarrow> fm_size m * 10 < length (fm_slots m) * 7 \<Longrightarrow>
    full_count (fm_slots m) < length (fm_slots m)"
  by (simp add: fm_ok_def)

text \<open>Reinserting slots whose keys are not in the table yet.\<close>

definition reinsert ::
  "('v flat_hash_map \<Rightarrow> string \<Rightarrow> 'v \<Rightarrow> (bool \<times> 'v flat_hash_map) option) \<Rightarrow>
   'v flat_hash_map option \<Rightarrow> 'v slot \<Rightarrow> 'v flat_hash_map option" where
  "reinsert ins acc s =
     (case acc of None \<Rightarrow> None
      | Some m' \<Rightarrow> (case s of Full k v \<Rightarrow> map_option snd (ins m' k v) | _ \<Rightarrow> Some m'))"

lemma full_count_simps [simp]:
  "full_count [] = 0" "full_count (s # ss) = of_bool (is_full s) + full_count ss"
  by (simp_all add: full_count_def)

lemma is_full_simps [simp]: "is_full (Full k v)" "\<not> is_full Empty" "\<not> is_full Tomb"
  by (simp_all add: is_full_def)

lemma entries_simps [simp]:
  "entries [] = []" "entries (Full k v # ss) = (k, v) # entries ss"
  "entries (Empty # ss) = entries ss" "entries (Tomb # ss) = entries ss"
  by (simp_all add: entries_def)

lemma reinsert_all:
  assumes "fm_ok m" "tomb_free (fm_slots m)"
    and "(fm_size m + full_count ss) * 10 \<le> length (fm_slots m) * 7"
    and "distinct (map fst (entries ss))" "\<And>k. k \<in> fst ` set (entries ss) \<Longrightarrow> fm_abs m k = None"
  shows "\<exists>m'. foldl (reinsert (fm_insert_fuel (Suc f))) (Some m) ss = Some m' \<and> fm_ok m' \<and>
    tomb_free (fm_slots m') \<and> fm_abs m' = fm_abs m ++ map_of (entries ss) \<and>
    fm_size m' = fm_size m + full_count ss \<and> length (fm_slots m') = length (fm_slots m)"
  using assms
proof (induction ss arbitrary: m)
  case (Cons s ss)
  show ?case
  proof (cases s)
    case (Full k v)
    have load: "fm_size m * 10 < length (fm_slots m) * 7"
      using Cons.prems(3) by (simp add: Full)
    have absent: "fm_abs m k = None"
      using Cons.prems(5) by (simp add: Full)
    from fm_place_spec [OF Cons.prems(1) room_of_load [OF Cons.prems(1) load], of k v] absent
    obtain m1 where m1: "fm_place m k v = Some (True, m1)" "fm_ok m1"
      "fm_abs m1 = (fm_abs m)(k \<mapsto> v)" "length (fm_slots m1) = length (fm_slots m)"
      "tomb_free (fm_slots m1)"
      using Cons.prems(2) by auto
    have size: "fm_size m1 = fm_size m + 1"
      using m1(1) by (auto simp: fm_place_def split: option.splits prod.splits)
    have IH: "\<exists>m'. foldl (reinsert (fm_insert_fuel (Suc f))) (Some m1) ss = Some m' \<and> fm_ok m' \<and>
      tomb_free (fm_slots m') \<and> fm_abs m' = fm_abs m1 ++ map_of (entries ss) \<and>
      fm_size m' = fm_size m1 + full_count ss \<and> length (fm_slots m') = length (fm_slots m1)"
    proof (rule Cons.IH [OF m1(2,5)])
      show "(fm_size m1 + full_count ss) * 10 \<le> length (fm_slots m1) * 7"
        using Cons.prems(3) by (simp add: Full size m1(4))
      show "distinct (map fst (entries ss))" using Cons.prems(4) by (simp add: Full)
      show "fm_abs m1 k' = None" if "k' \<in> fst ` set (entries ss)" for k'
        using Cons.prems(4,5) that by (auto simp: Full m1(3))
    qed
    have step: "reinsert (fm_insert_fuel (Suc f)) (Some m) s = Some m1"
      using load by (simp add: reinsert_def Full m1(1))
    have "map_of (entries ss) k = None"
      using Cons.prems(4) by (simp add: Full map_of_eq_None_iff)
    then have upd: "(fm_abs m)(k \<mapsto> v) ++ map_of (entries ss) = fm_abs m ++ map_of (entries (s # ss))"
      by (intro ext) (auto simp: Full map_add_def split: option.split)
    have count: "fm_size m1 + full_count ss = fm_size m + full_count (s # ss)"
      by (simp add: Full size)
    show ?thesis
      using IH unfolding foldl.simps step m1(3,4) upd count .
  qed (use Cons in \<open>auto simp: reinsert_def\<close>)
qed auto

lemma distinct_entries:
  assumes "unique_keys slots"
  shows "distinct (map fst (entries slots))"
  using assms
proof (induction slots)
  case (Cons s ss)
  have tail: "unique_keys ss"
    unfolding unique_keys_def
  proof (intro allI impI)
    fix i j key v w
    assume "i < length ss" "j < length ss" "ss ! i = Full key v" "ss ! j = Full key w"
    then show "i = j"
      using Cons.prems [unfolded unique_keys_def, rule_format, of "Suc i" "Suc j" key v w] by simp
  qed
  have new: "k \<notin> fst ` set (entries ss)" if "s = Full k v" for k v
  proof
    assume "k \<in> fst ` set (entries ss)"
    then obtain w where "Full k w \<in> set ss"
      by (auto simp: set_entries)
    then obtain j where "j < length ss" "ss ! j = Full k w"
      by (auto simp: in_set_conv_nth)
    with Cons.prems [unfolded unique_keys_def, rule_format, of 0 "Suc j" k v w] that
    show False by simp
  qed
  show ?case using Cons.IH [OF tail] new by (cases s) auto
qed simp

lemma fm_rehash_spec:
  assumes ok: "fm_ok m"
  shows "\<exists>m'. fm_rehash_with (fm_insert_fuel (Suc f)) (length (fm_slots m) * 2) m = Some m' \<and> fm_ok m' \<and>
    tomb_free (fm_slots m') \<and> fm_abs m' = fm_abs m \<and> fm_size m' = fm_size m \<and>
    length (fm_slots m) * 2 \<le> length (fm_slots m')"
proof -
  let ?n = "cap_loop 0 (length (fm_slots m) * 2)"
  let ?m0 = "\<lparr>fm_slots = replicate ?n Empty, fm_size = 0\<rparr> :: 'a flat_hash_map"
  have n: "pow2 ?n" "length (fm_slots m) * 2 \<le> ?n"
    using cap_loop_pow2 by simp_all
  have "\<exists>m'. foldl (reinsert (fm_insert_fuel (Suc f))) (Some ?m0) (fm_slots m) = Some m' \<and> fm_ok m' \<and>
    tomb_free (fm_slots m') \<and> fm_abs m' = fm_abs ?m0 ++ map_of (entries (fm_slots m)) \<and>
    fm_size m' = fm_size ?m0 + full_count (fm_slots m) \<and> length (fm_slots m') = length (fm_slots ?m0)"
  proof (rule reinsert_all)
    show "fm_ok ?m0" by (rule fm_ok_replicate [OF n(1)])
    show "tomb_free (fm_slots ?m0)" by (simp add: tomb_free_def)
    show "(fm_size ?m0 + full_count (fm_slots m)) * 10 \<le> length (fm_slots ?m0) * 7"
      using n(2) full_count_le [of "fm_slots m"] by simp
    show "distinct (map fst (entries (fm_slots m)))"
      using ok by (simp add: fm_ok_def distinct_entries)
  qed (simp add: fm_abs_replicate)
  then show ?thesis
    using ok n(2)
    by (auto simp: fm_rehash_with_def reinsert_def [abs_def] fm_abs_replicate fm_ok_def
        fm_abs_def [of m] slots_abs_def)
qed

text \<open>An insertion into a table at its load limit goes into the larger table without tombstones.\<close>

lemma fm_insert_rehashed:
  assumes ok: "fm_ok m" and load: "\<not> fm_size m * 10 < length (fm_slots m) * 7"
  obtains m1 where "fm_insert m key v = fm_place m1 key v" "fm_ok m1" "tomb_free (fm_slots m1)"
    "fm_abs m1 = fm_abs m" "full_count (fm_slots m1) < length (fm_slots m1)"
proof -
  from fm_rehash_spec [OF ok, of 0] obtain m1 where m1:
    "fm_rehash_with (fm_insert_fuel (Suc 0)) (length (fm_slots m) * 2) m = Some m1" "fm_ok m1"
    "tomb_free (fm_slots m1)" "fm_abs m1 = fm_abs m" "fm_size m1 = fm_size m"
    "length (fm_slots m) * 2 \<le> length (fm_slots m1)"
    by blast
  have "0 < length (fm_slots m)" using ok pow2_pos by (auto simp: fm_ok_def)
  moreover have "full_count (fm_slots m1) = full_count (fm_slots m)"
    using m1(2,5) ok by (simp add: fm_ok_def)
  ultimately have "full_count (fm_slots m1) < length (fm_slots m1)"
    using m1(6) full_count_le [of "fm_slots m"] by linarith
  moreover have "fm_insert m key v = fm_place m1 key v"
    using load m1(1) by (simp add: fm_insert_def numeral_2_eq_2)
  ultimately show ?thesis using that m1(2-4) by blast
qed

lemma fm_insert_room:
  "fm_size m * 10 < length (fm_slots m) * 7 \<Longrightarrow> fm_insert m key v = fm_place m key v"
  by (simp add: fm_insert_def numeral_2_eq_2)

lemma fm_insert_spec:
  assumes ok: "fm_ok m"
    and safe: "fm_abs m key = None \<or> tomb_free (fm_slots m) \<or> \<not> fm_size m * 10 < length (fm_slots m) * 7"
  shows "\<exists>m'. fm_insert m key v = Some (fm_abs m key = None, m') \<and> fm_ok m' \<and>
    fm_abs m' = (fm_abs m)(key \<mapsto> v) \<and> (tomb_free (fm_slots m) \<longrightarrow> tomb_free (fm_slots m'))"
proof (cases "fm_size m * 10 < length (fm_slots m) * 7")
  case True
  with fm_place_spec [OF ok room_of_load [OF ok True], of key v] safe fm_insert_room [OF True] show ?thesis by metis
next
  case False
  from fm_insert_rehashed [OF ok False, of key v] obtain m1 where m1:
    "fm_insert m key v = fm_place m1 key v" "fm_ok m1" "tomb_free (fm_slots m1)"
    "fm_abs m1 = fm_abs m" "full_count (fm_slots m1) < length (fm_slots m1)" .
  with fm_place_spec [OF m1(2,5), of key v] show ?thesis by auto
qed

text \<open>Also behind a tombstone: writing the slot that the probe stops at always makes the key found
  with its new value and does not change what is found under any other key.\<close>

lemma fm_locate_stop:
  assumes cap: "pow2 (length slots)" and stop: "slots ! at (length slots) key d = Full key v"
    and pass: "\<forall>s < d. is_full (slots ! at (length slots) key s) \<and>
      (\<forall>w. slots ! at (length slots) key s \<noteq> Full key w)"
  shows "t \<le> d \<Longrightarrow> d < t + n \<Longrightarrow>
    fm_locate n slots (at (length slots) key t) key = Some (at (length slots) key d)"
proof (induction n arbitrary: t)
  case (Suc n)
  show ?case
  proof (cases "t = d")
    case False
    then have "t < d" using Suc.prems by simp
    with pass obtain k w where "slots ! at (length slots) key t = Full k w" "k \<noteq> key"
      by (auto simp: is_full_def)
    with Suc \<open>t < d\<close> show ?thesis by (simp add: fm_next_at [OF cap])
  qed (simp add: stop)
qed simp

lemma fm_locate_full: "fm_locate n slots i key = Some j \<Longrightarrow> \<exists>v. slots ! j = Full key v"
  by (induction n slots i key rule: fm_locate.induct) (auto split: slot.splits if_splits)

lemma fm_locate_other:
  assumes "k \<noteq> key" and "slots ! i \<noteq> Empty" "\<forall>w. slots ! i \<noteq> Full k w" and "i < length slots"
  shows "fm_locate n (slots[i := Full key v]) j k = fm_locate n slots j k"
proof (induction n arbitrary: j)
  case (Suc n)
  then show ?case
    using assms by (cases "j = i"; cases "slots ! i") (auto split: slot.split)
qed simp

lemma probe_stop_not_empty:
  assumes cap: "pow2 (length slots)" and reach: "reachable slots" and "Full key w \<in> set slots"
    and pass: "\<forall>s < d. \<forall>w. slots ! at (length slots) key s \<noteq> Full key w"
  shows "slots ! at (length slots) key d \<noteq> Empty"
proof -
  from assms(3) obtain j where j: "j < length slots" "slots ! j = Full key w" by (auto simp: in_set_conv_nth)
  obtain e where e: "e < length slots" "at (length slots) key e = j" using at_surj [OF cap j(1)] .
  then have "d \<le> e" using pass j by (meson not_less)
  then show ?thesis using reach e j unfolding reachable_def by (cases "e = d") auto
qed

lemma fm_place_behind_tombstone:
  assumes ok: "fm_ok m" and room: "full_count (fm_slots m) < length (fm_slots m)" and "fm_abs m key \<noteq> None"
  shows "\<exists>fresh m'. fm_place m key v = Some (fresh, m') \<and> fm_find m' key = Some v \<and>
    (\<forall>k. k \<noteq> key \<longrightarrow> fm_find m' k = fm_find m k)"
proof -
  let ?sl = "fm_slots m"
  have parts: "pow2 (length ?sl)" "unique_keys ?sl" "reachable ?sl" using ok by (simp_all add: fm_ok_def)
  have ne: "?sl \<noteq> []" using pow2_pos [OF parts(1)] by auto
  obtain d where d: "d < length ?sl" and stop: "\<not> is_full (?sl ! at (length ?sl) key d) \<or>
      (\<exists>w. ?sl ! at (length ?sl) key d = Full key w)"
    and pass: "\<forall>s < d. is_full (?sl ! at (length ?sl) key s) \<and> (\<forall>w. ?sl ! at (length ?sl) key s \<noteq> Full key w)"
    using probe_stop_exists [OF parts(1) room] .
  let ?i = "at (length ?sl) key d"
  let ?sl' = "?sl[?i := Full key v]"
  have i: "?i < length ?sl" by (rule at_less [OF parts(1)])
  from assms(3) obtain w where "Full key w \<in> set ?sl"
    by (metis fm_abs_def slots_abs_None)
  then have "?sl ! ?i \<noteq> Empty"
    using pass by (intro probe_stop_not_empty [OF parts(1,3)]) auto
  moreover have here: "?sl ! ?i \<noteq> Full k x" if "k \<noteq> key" for k x
    using stop that by (auto simp: is_full_def)
  ultimately have other: "fm_locate n ?sl' a k = fm_locate n ?sl a k" if "k \<noteq> key" for n a k
    using fm_locate_other [of k key ?sl ?i] that i by blast
  have elsewhere: "?sl' ! b = ?sl ! b" if "k \<noteq> key" "fm_locate n ?sl a k = Some b" for n a k b
    using fm_locate_full [OF that(2)] here [OF that(1)] by (cases "b = ?i") auto
  have "at (length ?sl) key s \<noteq> ?i" if "s < d" for s
    using at_inj [of s "length ?sl" d key] that d by auto
  then have "?sl' ! at (length ?sl) key s = ?sl ! at (length ?sl) key s" if "s < d" for s
    using that by (metis nth_list_update_neq)
  with pass have "\<forall>s < d. is_full (?sl' ! at (length ?sl') key s) \<and> (\<forall>w. ?sl' ! at (length ?sl') key s \<noteq> Full key w)"
    by simp
  from fm_locate_stop [of ?sl', OF _ _ this, of v 0 "length ?sl"] parts(1) d i
  have found: "fm_locate (length ?sl) ?sl' (fm_home (length ?sl) key) key = Some ?i"
    by (simp add: fm_home_at)
  obtain m' where m': "fm_place m key v = Some (\<not> is_full (?sl ! ?i), m')" "fm_slots m' = ?sl'"
    using fm_probe_stops [OF parts(1) stop pass, of 0 "length ?sl" v] d
    by (simp add: fm_place_def fm_home_at [OF parts(1)])
  have "fm_find m' k = fm_find m k" if "k \<noteq> key" for k
    using other [OF that] elsewhere [OF that] ne m'(2) by (simp add: fm_find_def split: option.split)
  moreover have "fm_find m' key = Some v" using found i ne m'(2) by (simp add: fm_find_def)
  ultimately show ?thesis using m'(1) by blast
qed

lemma fm_insert_lookup:
  assumes ok: "fm_ok m"
  shows "\<exists>fresh m'. fm_insert m key v = Some (fresh, m') \<and> fm_find m' key = Some v \<and>
    (\<forall>k. k \<noteq> key \<longrightarrow> fm_find m' k = fm_find m k)"
proof (cases "fm_abs m key = None \<or> \<not> fm_size m * 10 < length (fm_slots m) * 7")
  case True
  then obtain m' where "fm_insert m key v = Some (fm_abs m key = None, m')" "fm_ok m'"
    "fm_abs m' = (fm_abs m)(key \<mapsto> v)"
    using fm_insert_spec [OF ok, of key v] by blast
  then show ?thesis using fm_find_abs [OF ok] fm_find_abs [of m'] by simp
next
  case False
  with fm_place_behind_tombstone [OF ok room_of_load [OF ok], of key v] fm_insert_room show ?thesis by metis
qed

lemma fm_ok_new: "fm_ok (fm_new cap)"
  unfolding fm_new_def by (rule fm_ok_replicate) (simp add: cap_loop_pow2)

lemma fm_clear_eq: "fm_clear m = \<lparr>fm_slots = replicate (length (fm_slots m)) Empty, fm_size = 0\<rparr>"
  by (simp add: fm_clear_def map_replicate_const)

section \<open>Properties\<close>

text \<open>C32: refinement. On every well-formed table \<open>find\<close> is lookup in the abstract map; \<open>erase\<close>
  deletes the key and reports whether it was there, \<open>clear\<close> empties the map, and both keep the
  table well-formed, as a new table is. \<open>insert\<close> always returns, growing the table when needed;
  afterwards \<open>find\<close> returns the new value for that key and what it returned before for every
  other key. If the key is new, or the table has no tombstone or is at its load limit, \<open>insert\<close>
  also keeps the table well-formed, stores exactly that binding and reports whether the key was
  new; for a key that is present behind a tombstone it need not (see the last lemma).\<close>

theorem flat_hash_map_implements_map:
  assumes "fm_ok m"
  shows "fm_ok (fm_new cap) \<and> fm_find m key = fm_abs m key \<and>
    (let (found, m') = fm_erase m key
     in fm_ok m' \<and> fm_abs m' = (fm_abs m)(key := None) \<and> (found \<longleftrightarrow> fm_abs m key \<noteq> None)) \<and>
    (fm_ok (fm_clear m) \<and> fm_abs (fm_clear m) = Map.empty) \<and>
    (\<exists>fresh m'. fm_insert m key v = Some (fresh, m') \<and> fm_find m' key = Some v \<and>
       (\<forall>k. k \<noteq> key \<longrightarrow> fm_find m' k = fm_find m k)) \<and>
    (fm_abs m key = None \<or> tomb_free (fm_slots m) \<or> \<not> fm_size m * 10 < length (fm_slots m) * 7 \<longrightarrow>
       (\<exists>m'. fm_insert m key v = Some (fm_abs m key = None, m') \<and> fm_ok m' \<and>
          fm_abs m' = (fm_abs m)(key \<mapsto> v)))"
proof -
  have "pow2 (length (fm_slots m))" using assms by (simp add: fm_ok_def)
  then have "fm_ok (fm_clear m) \<and> fm_abs (fm_clear m) = Map.empty"
    by (simp add: fm_clear_eq fm_ok_replicate fm_abs_replicate)
  moreover have "let (found, m') = fm_erase m key
     in fm_ok m' \<and> fm_abs m' = (fm_abs m)(key := None) \<and> (found \<longleftrightarrow> fm_abs m key \<noteq> None)"
    using fm_erase_spec [OF assms, of key] by (simp add: case_prod_beta Let_def)
  ultimately show ?thesis
    using fm_find_abs [OF assms] fm_ok_new fm_insert_spec [OF assms, of key v]
      fm_insert_lookup [OF assms, of key v] by blast
qed

theorem flat_hash_map_implements_map_witness:
  "\<exists>m'. fm_insert (fm_new 8) ''alice'' (7 :: nat) = Some (True, m') \<and>
     fm_abs m' = [''alice'' \<mapsto> 7]"
proof -
  have "fm_abs (fm_new 8) = (Map.empty :: string \<rightharpoonup> nat)"
    by (simp add: fm_new_def fm_abs_replicate)
  with flat_hash_map_implements_map [OF fm_ok_new, of 8 8 "''alice''" "7 :: nat"] show ?thesis
    by auto
qed

lemma fm_home_a: "fm_home 8 ''a'' = 3"
  by (simp add: fm_home_def xxhash64_eval)

lemma fm_home_b: "fm_home 8 ''b'' = 3"
  by (simp add: fm_home_def xxhash64_eval)

lemma cap_loop_8: "cap_loop 0 8 = 8"
  by (simp add: cap_loop.simps)

lemma fm_eight:
  "fm_home (Suc (Suc (Suc (Suc (Suc (Suc (Suc (Suc 0)))))))) ''a'' = 3"
  "fm_home (Suc (Suc (Suc (Suc (Suc (Suc (Suc (Suc 0)))))))) ''b'' = 3"
  "fm_next (Suc (Suc (Suc (Suc (Suc (Suc (Suc (Suc 0)))))))) 3 = 4"
proof -
  have 8: "Suc (Suc (Suc (Suc (Suc (Suc (Suc (Suc 0))))))) = 8" by simp
  show "fm_home (Suc (Suc (Suc (Suc (Suc (Suc (Suc (Suc 0)))))))) ''a'' = 3"
    "fm_home (Suc (Suc (Suc (Suc (Suc (Suc (Suc (Suc 0)))))))) ''b'' = 3"
    "fm_next (Suc (Suc (Suc (Suc (Suc (Suc (Suc (Suc 0)))))))) 3 = 4"
    unfolding 8 by (rule fm_home_a fm_home_b | simp add: fm_next_def)+
qed

lemmas fm_eval = fm_insert_room fm_place_def fm_erase_def fm_find_def fm_eight

definition demo_table :: "nat slot \<Rightarrow> nat slot \<Rightarrow> nat \<Rightarrow> nat flat_hash_map" where
  "demo_table s t n = \<lparr>fm_slots = [Empty, Empty, Empty, s, t, Empty, Empty, Empty], fm_size = n\<rparr>"

lemma update_3_4:
  "[a, b, c, d, e, f, g, h][3 := x] = [a, b, c, x, e, f, g, h]"
  "[a, b, c, d, e, f, g, h][4 := x] = [a, b, c, d, x, f, g, h]"
  by (simp_all add: eval_nat_numeral)

lemma demo_new: "fm_new 8 = demo_table Empty Empty 0"
proof -
  have "replicate 8 (Empty :: nat slot) = [Empty, Empty, Empty, Empty, Empty, Empty, Empty, Empty]"
    by (simp add: eval_nat_numeral)
  then show ?thesis by (simp add: fm_new_def cap_loop_8 demo_table_def)
qed

lemma demo_steps:
  "fm_insert (demo_table Empty Empty 0) ''a'' 1 = Some (True, demo_table (Full ''a'' 1) Empty 1)"
  "fm_insert (demo_table (Full ''a'' 1) Empty 1) ''b'' 2 =
     Some (True, demo_table (Full ''a'' 1) (Full ''b'' 2) 2)"
  "fm_erase (demo_table (Full ''a'' 1) (Full ''b'' 2) 2) ''a'' = (True, demo_table Tomb (Full ''b'' 2) 1)"
  "fm_insert (demo_table Tomb (Full ''b'' 2) 1) ''b'' 3 =
     Some (True, demo_table (Full ''b'' 3) (Full ''b'' 2) 2)"
  "fm_find (demo_table (Full ''b'' 3) (Full ''b'' 2) 2) ''b'' = Some 3"
  "fm_erase (demo_table (Full ''b'' 3) (Full ''b'' 2) 2) ''b'' = (True, demo_table Tomb (Full ''b'' 2) 1)"
  "fm_find (demo_table Tomb (Full ''b'' 2) 1) ''b'' = Some 2"
  by (simp_all add: demo_table_def fm_eval update_3_4)

text \<open>A key can be stored twice. \<open>insert\<close> takes the first tombstone on its probe path without
  looking further for the key. With \<open>a\<close> and \<open>b\<close> colliding, insert \<open>a\<close>, insert \<open>b\<close>, erase \<open>a\<close>
  and updating \<open>b\<close> leaves two copies of \<open>b\<close>; the update is reported as a new key, and erasing
  \<open>b\<close> brings back its old value.\<close>

lemma insert_after_erase_duplicates_key:
  "\<exists>m1 m2 m3 m4 m5. fm_insert (fm_new 8) ''a'' (1 :: nat) = Some (True, m1) \<and>
     fm_insert m1 ''b'' 2 = Some (True, m2) \<and> fm_erase m2 ''a'' = (True, m3) \<and>
     fm_insert m3 ''b'' 3 = Some (True, m4) \<and> fm_find m4 ''b'' = Some 3 \<and>
     fm_erase m4 ''b'' = (True, m5) \<and> fm_find m5 ''b'' = Some 2"
  unfolding demo_new using demo_steps by blast

end
