(* ===== verification/Account_Index.thy ===== *)
theory Account_Index
  imports Database Flat_Hash_Map Double
begin

text \<open>
  \<open>include/hive_native/perf/account_cache.hpp\<close> and \<open>include/hive_native/chain/account_index.hpp\<close>:
  the primary-key cache over the account balances and the index that keeps it. The \<open>mutable\<close>
  members make \<open>find\<close> an operation on the state, and \<open>find_mut\<close> is the same code. An
  operation is \<open>None\<close> where the table's \<open>insert\<close> would not return, which is shown not to happen.

  The locale \<open>lookaside\<close> states what the index relies on in a cache, and that filling it only
  on a miss and dropping the entry of a changed key keeps it coherent with its source.
\<close>

section \<open>The cache\<close>

record account_cache =
  ac_map :: "account_balance flat_hash_map"
  ac_hits :: u64
  ac_misses :: u64
  ac_inserts :: u64
  ac_invalidations :: u64

definition account_cache_new :: "nat \<Rightarrow> account_cache" where
  "account_cache_new cap =
     \<lparr>ac_map = fm_new cap, ac_hits = 0, ac_misses = 0, ac_inserts = 0, ac_invalidations = 0\<rparr>"

definition cache_clear :: "account_cache \<Rightarrow> account_cache" where
  "cache_clear c = c\<lparr>ac_map := fm_clear (ac_map c), ac_hits := 0, ac_misses := 0, ac_inserts := 0,
     ac_invalidations := 0\<rparr>"

definition cache_size :: "account_cache \<Rightarrow> nat" where
  "cache_size c = fm_size (ac_map c)"

definition cache_put ::
  "account_cache \<Rightarrow> account_name_type \<Rightarrow> account_balance \<Rightarrow> account_cache option" where
  "cache_put c name v =
     (case fm_insert (ac_map c) name v of
        None \<Rightarrow> None
      | Some (_, m) \<Rightarrow> Some (c\<lparr>ac_map := m, ac_inserts := ac_inserts c + 1\<rparr>))"

definition cache_find :: "account_cache \<Rightarrow> string \<Rightarrow> account_balance option \<times> account_cache" where
  "cache_find c name =
     (case fm_find (ac_map c) name of
        Some p \<Rightarrow> (Some p, c\<lparr>ac_hits := ac_hits c + 1\<rparr>)
      | None \<Rightarrow> (None, c\<lparr>ac_misses := ac_misses c + 1\<rparr>))"

definition cache_hit_rate :: "account_cache \<Rightarrow> rat" where
  "cache_hit_rate c =
     (let t = ac_hits c + ac_misses c
      in if t = 0 then 0 else double_div (double_of_u64 (ac_hits c)) (double_of_u64 t))"

definition cache_invalidate :: "account_cache \<Rightarrow> string \<Rightarrow> bool \<times> account_cache" where
  "cache_invalidate c name =
     (let (found, m) = fm_erase (ac_map c) name; c = c\<lparr>ac_map := m\<rparr>
      in if found then (True, c\<lparr>ac_invalidations := ac_invalidations c + 1\<rparr>) else (False, c))"

section \<open>The index\<close>

record account_index =
  ai_db :: database
  ai_cache_enabled :: bool
  ai_cache :: account_cache

definition account_index_new :: "database \<Rightarrow> bool \<Rightarrow> account_index" where
  "account_index_new db enable_cache =
     \<lparr>ai_db = db, ai_cache_enabled = enable_cache, ai_cache = account_cache_new 64\<rparr>"

definition set_cache_enabled :: "account_index \<Rightarrow> bool \<Rightarrow> account_index" where
  "set_cache_enabled ix on =
     (let ix = ix\<lparr>ai_cache_enabled := on\<rparr>
      in if \<not> on then ix\<lparr>ai_cache := cache_clear (ai_cache ix)\<rparr> else ix)"

definition clear_cache :: "account_index \<Rightarrow> account_index" where
  "clear_cache ix = ix\<lparr>ai_cache := cache_clear (ai_cache ix)\<rparr>"

definition fill_cache :: "account_index \<Rightarrow> string \<Rightarrow> account_balance \<Rightarrow> account_index option" where
  "fill_cache ix name v =
     (if ai_cache_enabled ix
      then map_option (\<lambda>c. ix\<lparr>ai_cache := c\<rparr>) (cache_put (ai_cache ix) name v)
      else Some ix)"

definition index_create ::
  "account_index \<Rightarrow> account_name_type \<Rightarrow> share_type \<Rightarrow> share_type \<Rightarrow> account_index outcome option" where
  "index_create ix name hive hbd =
     (case create_account (ai_db ix) name hive hbd of
        Threw e db \<Rightarrow> Some (Threw e (ix\<lparr>ai_db := db\<rparr>))
      | Done db \<Rightarrow> map_option Done (fill_cache (ix\<lparr>ai_db := db\<rparr>) name \<lparr>b_hive = hive, b_hbd = hbd\<rparr>))"

definition index_load ::
  "account_index \<Rightarrow> string \<Rightarrow> (account_balance option \<times> account_index) option" where
  "index_load ix name =
     (case om_find (balances (ai_db ix)) name of
        None \<Rightarrow> Some (None, ix)
      | Some v \<Rightarrow> map_option (\<lambda>ix. (Some v, ix)) (fill_cache ix name v))"

definition index_find ::
  "account_index \<Rightarrow> string \<Rightarrow> (account_balance option \<times> account_index) option" where
  "index_find ix name =
     (if ai_cache_enabled ix
      then (case cache_find (ai_cache ix) name of
              (Some hit, c) \<Rightarrow> Some (Some hit, ix\<lparr>ai_cache := c\<rparr>)
            | (None, c) \<Rightarrow> index_load (ix\<lparr>ai_cache := c\<rparr>) name)
      else index_load ix name)"

definition index_exists :: "account_index \<Rightarrow> account_name_type \<Rightarrow> (bool \<times> account_index) option" where
  "index_exists ix name = map_option (\<lambda>(v, ix). (v \<noteq> None, ix)) (index_find ix name)"

definition index_get_balance ::
  "account_index \<Rightarrow> account_name_type \<Rightarrow> asset_symbol \<Rightarrow> ((exn + share_type) \<times> account_index) option" where
  "index_get_balance ix name sy =
     map_option (\<lambda>(v, ix).
       (case v of
          None \<Rightarrow> Inl (Protocol_error ''account missing'')
        | Some v \<Rightarrow> Inr (if sy = HIVE then b_hive v else b_hbd v), ix)) (index_find ix name)"

definition index_adjust_balance ::
  "account_index \<Rightarrow> account_name_type \<Rightarrow> asset \<Rightarrow> account_index outcome" where
  "index_adjust_balance ix name delta =
     (case adjust_balance (ai_db ix) name delta of
        Threw e db \<Rightarrow> Threw e (ix\<lparr>ai_db := db\<rparr>)
      | Done db \<Rightarrow>
          let ix = ix\<lparr>ai_db := db\<rparr>
          in Done (if ai_cache_enabled ix
                   then ix\<lparr>ai_cache := snd (cache_invalidate (ai_cache ix) name)\<rparr> else ix))"

section \<open>Coherence of a cache with its source\<close>

locale lookaside =
  fixes ok :: "'c \<Rightarrow> bool"
    and view :: "'c \<Rightarrow> 'k \<rightharpoonup> 'v"
    and lookup :: "'c \<Rightarrow> 'k \<Rightarrow> 'v option \<times> 'c"
    and store :: "'c \<Rightarrow> 'k \<Rightarrow> 'v \<Rightarrow> 'c option"
    and discard :: "'c \<Rightarrow> 'k \<Rightarrow> bool \<times> 'c"
  assumes lookup_view: "ok c \<Longrightarrow> fst (lookup c k) = view c k"
    and lookup_same: "ok c \<Longrightarrow> ok (snd (lookup c k)) \<and> view (snd (lookup c k)) = view c"
    and store_new: "ok c \<Longrightarrow> view c k = None \<Longrightarrow>
      \<exists>c'. store c k v = Some c' \<and> ok c' \<and> view c' = (view c)(k \<mapsto> v)"
    and discard_view: "ok c \<Longrightarrow> ok (snd (discard c k)) \<and> view (snd (discard c k)) = (view c)(k := None)"
begin

definition coherent :: "'c \<Rightarrow> ('k \<rightharpoonup> 'v) \<Rightarrow> bool" where
  "coherent c src \<longleftrightarrow> ok c \<and> view c \<subseteq>\<^sub>m src"

lemma hit_is_fresh: "coherent c src \<Longrightarrow> fst (lookup c k) = Some v \<Longrightarrow> src k = Some v"
  by (auto simp: coherent_def lookup_view map_le_def dom_def)

lemma lookup_coherent: "coherent c src \<Longrightarrow> coherent (snd (lookup c k)) src"
  using lookup_same by (auto simp: coherent_def)

lemma fill_coherent:
  assumes c: "coherent c src" and miss: "view c k = None" and v: "src k = Some v"
  shows "\<exists>c'. store c k v = Some c' \<and> coherent c' src"
proof -
  obtain c' where "store c k v = Some c'" "ok c'" "view c' = (view c)(k \<mapsto> v)"
    using store_new [of c k v] c miss by (auto simp: coherent_def)
  with c v show ?thesis by (auto simp: coherent_def map_le_def)
qed

lemma discard_coherent:
  assumes c: "coherent c src" and others: "\<And>j. j \<noteq> k \<Longrightarrow> src' j = src j"
  shows "coherent (snd (discard c k)) src'"
  using discard_view [of c k] assms by (auto simp: coherent_def map_le_def dom_def)

lemma update_uncached:
  assumes c: "coherent c src" and miss: "view c k = None" and others: "\<And>j. j \<noteq> k \<Longrightarrow> src' j = src j"
  shows "coherent c src'"
  using assms by (auto simp: coherent_def map_le_def dom_def) (metis option.distinct(1) others)

end

definition cache_ok :: "account_cache \<Rightarrow> bool" where
  "cache_ok c \<longleftrightarrow> fm_ok (ac_map c)"

definition cache_view :: "account_cache \<Rightarrow> string \<rightharpoonup> account_balance" where
  "cache_view c = fm_abs (ac_map c)"

interpretation cached: lookaside cache_ok cache_view cache_find cache_put cache_invalidate
proof (unfold_locales, goal_cases)
  case (1 c k)
  then show ?case
    by (simp add: cache_ok_def cache_view_def cache_find_def fm_find_abs split: option.splits)
next
  case (2 c k)
  then show ?case
    by (simp add: cache_ok_def cache_view_def cache_find_def split: option.splits)
next
  case (3 c k v)
  then show ?case
    using fm_insert_spec [of "ac_map c" k v]
    by (auto simp: cache_ok_def cache_view_def cache_put_def)
next
  case (4 c k)
  then show ?case
    using fm_erase_spec [of "ac_map c" k]
    by (simp add: cache_ok_def cache_view_def cache_invalidate_def case_prod_beta Let_def)
qed

section \<open>The index answers from the database\<close>

abbreviation accounts_of :: "account_index \<Rightarrow> string \<rightharpoonup> account_balance" where
  "accounts_of ix \<equiv> om_find (balances (ai_db ix))"

definition index_ok :: "account_index \<Rightarrow> bool" where
  "index_ok ix \<longleftrightarrow>
     cache_ok (ai_cache ix) \<and> cache_view (ai_cache ix) \<subseteq>\<^sub>m accounts_of ix \<and>
     (\<not> ai_cache_enabled ix \<longrightarrow> cache_view (ai_cache ix) = Map.empty)"

lemma index_ok_coherent:
  "index_ok ix \<longleftrightarrow> cached.coherent (ai_cache ix) (accounts_of ix) \<and>
     (\<not> ai_cache_enabled ix \<longrightarrow> cache_view (ai_cache ix) = Map.empty)"
  by (simp add: index_ok_def cached.coherent_def)

lemma fill_cache_ok:
  assumes ix: "index_ok ix" and miss: "cache_view (ai_cache ix) name = None"
    and v: "accounts_of ix name = Some v"
  shows "\<exists>ix'. fill_cache ix name v = Some ix' \<and> ai_db ix' = ai_db ix \<and> index_ok ix'"
  using cached.fill_coherent [of "ai_cache ix" "accounts_of ix" name v] assms
  by (auto simp: index_ok_coherent fill_cache_def)

lemma index_load_ok:
  assumes "index_ok ix" and "cache_view (ai_cache ix) name = None"
  shows "\<exists>ix'. index_load ix name = Some (accounts_of ix name, ix') \<and> ai_db ix' = ai_db ix \<and> index_ok ix'"
  using fill_cache_ok [OF assms] assms(1)
  by (cases "accounts_of ix name") (auto simp: index_load_def)

lemma index_find_ok:
  assumes ix: "index_ok ix"
  shows "\<exists>ix'. index_find ix name = Some (accounts_of ix name, ix') \<and> ai_db ix' = ai_db ix \<and> index_ok ix'"
proof (cases "ai_cache_enabled ix")
  case False
  with ix have "cache_view (ai_cache ix) name = None" by (simp add: index_ok_def)
  with index_load_ok [OF ix] False show ?thesis by (simp add: index_find_def)
next
  case True
  obtain r c where rc: "cache_find (ai_cache ix) name = (r, c)" by fastforce
  let ?ix = "ix\<lparr>ai_cache := c\<rparr>"
  have ok: "index_ok ?ix" and view: "r = cache_view (ai_cache ix) name"
      "cache_view c = cache_view (ai_cache ix)"
    using ix True cached.lookup_coherent [of "ai_cache ix" "accounts_of ix" name]
      cached.lookup_view [of "ai_cache ix" name] cached.lookup_same [of "ai_cache ix" name]
    by (simp_all add: index_ok_coherent rc cached.coherent_def)
  show ?thesis
  proof (cases r)
    case None
    with index_load_ok [OF ok, of name] view show ?thesis by (simp add: index_find_def True rc)
  next
    case (Some v)
    then have "accounts_of ix name = Some v"
      using cached.hit_is_fresh [of "ai_cache ix" "accounts_of ix" name v] ix
      by (simp add: index_ok_coherent rc)
    with Some ok show ?thesis by (simp add: index_find_def True rc)
  qed
qed

lemma adjust_balance_frame:
  "adjust_balance db name delta = Done db' \<Longrightarrow> j \<noteq> name \<Longrightarrow>
     om_find (balances db') j = om_find (balances db) j"
  by (elim adjust_balance_Done) simp

lemma index_adjust_ok:
  assumes ix: "index_ok ix"
  shows "case adjust_balance (ai_db ix) name delta of
      Done db \<Rightarrow> \<exists>ix'. index_adjust_balance ix name delta = Done ix' \<and> ai_db ix' = db \<and> index_ok ix'
    | Threw e db \<Rightarrow> index_adjust_balance ix name delta = Threw e ix"
proof (cases "adjust_balance (ai_db ix) name delta")
  case (Done db)
  note frame = adjust_balance_frame [OF Done]
  then have "cached.coherent (snd (cache_invalidate (ai_cache ix) name)) (om_find (balances db))"
    using cached.discard_coherent [of "ai_cache ix" "accounts_of ix" name "om_find (balances db)"] ix
    by (auto simp: index_ok_coherent)
  with Done ix show ?thesis
    by (auto simp: index_adjust_balance_def Let_def index_ok_coherent cached.coherent_def)
next
  case (Threw e db)
  with adjust_balance_Threw [OF Threw] show ?thesis
    by (simp add: index_adjust_balance_def)
qed

lemma index_create_ok:
  assumes ix: "index_ok ix" and new: "\<not> account_exists (ai_db ix) name"
  shows "case create_account (ai_db ix) name hive hbd of
      Done db \<Rightarrow> \<exists>ix'. index_create ix name hive hbd = Some (Done ix') \<and> ai_db ix' = db \<and> index_ok ix'
    | Threw e db \<Rightarrow> index_create ix name hive hbd = Some (Threw e ix)"
proof (cases "create_account (ai_db ix) name hive hbd")
  case (Done db)
  let ?v = "\<lparr>b_hive = hive, b_hbd = hbd\<rparr>" and ?ix = "ix\<lparr>ai_db := db\<rparr>"
  have db: "balances db = om_put (balances (ai_db ix)) name ?v"
    using Done by (auto simp: create_account_def outcome_simps)
  have miss: "cache_view (ai_cache ix) name = None"
    using ix new by (auto simp: index_ok_def account_exists_def map_le_def dom_def)
  then have "index_ok ?ix"
    using cached.update_uncached [of "ai_cache ix" "accounts_of ix" name "om_find (balances db)"] ix
    by (auto simp: index_ok_coherent db)
  from fill_cache_ok [OF this, of name ?v] miss Done show ?thesis
    by (auto simp: index_create_def db)
next
  case (Threw e db)
  then have "db = ai_db ix" by (auto simp: create_account_def outcome_simps)
  with Threw show ?thesis by (simp add: index_create_def)
qed

lemma cache_clear_empty:
  assumes "cache_ok c"
  shows "cache_ok (cache_clear c)" "cache_view (cache_clear c) = Map.empty"
  using assms
  by (simp_all add: cache_ok_def cache_view_def cache_clear_def fm_clear_eq fm_ok_replicate
      fm_abs_replicate fm_ok_def [of "ac_map c"])

lemma index_ok_new: "index_ok (account_index_new db on)"
  by (simp add: index_ok_def account_index_new_def account_cache_new_def cache_ok_def cache_view_def
      fm_ok_new) (simp add: fm_new_def fm_abs_replicate)

section \<open>Properties\<close>

text \<open>C33: the account index is transparent. Starting from an index on any database, as long as
  accounts are only created once and balances only change through the index, every lookup
  always returns, and returns the balance the database holds, from the cache or not; creating,
  adjusting, disabling and clearing act on the database as without a cache, report the same
  errors, and keep the cache coherent.\<close>

theorem account_index_is_transparent:
  assumes "index_ok ix"
  shows "index_ok (account_index_new db on) \<and>
    index_ok (set_cache_enabled ix on) \<and> index_ok (clear_cache ix) \<and>
    (\<exists>ix'. index_find ix name = Some (om_find (balances (ai_db ix)) name, ix') \<and>
       ai_db ix' = ai_db ix \<and> index_ok ix') \<and>
    (\<exists>ix'. index_get_balance ix name sy = Some (get_balance (ai_db ix) name sy, ix') \<and>
       ai_db ix' = ai_db ix \<and> index_ok ix') \<and>
    (case adjust_balance (ai_db ix) name delta of
       Done db \<Rightarrow> \<exists>ix'. index_adjust_balance ix name delta = Done ix' \<and> ai_db ix' = db \<and> index_ok ix'
     | Threw e db \<Rightarrow> index_adjust_balance ix name delta = Threw e ix) \<and>
    (\<not> account_exists (ai_db ix) name \<longrightarrow>
      (case create_account (ai_db ix) name hive hbd of
         Done db \<Rightarrow> \<exists>ix'. index_create ix name hive hbd = Some (Done ix') \<and> ai_db ix' = db \<and> index_ok ix'
       | Threw e db \<Rightarrow> index_create ix name hive hbd = Some (Threw e ix)))"
proof -
  have "\<exists>ix'. index_get_balance ix name sy = Some (get_balance (ai_db ix) name sy, ix') \<and>
       ai_db ix' = ai_db ix \<and> index_ok ix'"
    using index_find_ok [OF assms, of name]
    by (cases "accounts_of ix name") (auto simp: index_get_balance_def get_balance_def balance_field_def)
  moreover have "index_ok (clear_cache ix)" "index_ok (set_cache_enabled ix on)"
    using cache_clear_empty [of "ai_cache ix"] assms
    by (auto simp: clear_cache_def set_cache_enabled_def index_ok_def Let_def)
  ultimately show ?thesis
    using index_ok_new index_find_ok [OF assms, of name] index_adjust_ok [OF assms, of name delta]
      index_create_ok [OF assms, of name hive hbd] by blast
qed

theorem account_index_is_transparent_witness:
  "\<exists>ix ix'. index_create (account_index_new empty_database True) ''alice'' 10 0 = Some (Done ix) \<and>
     index_get_balance ix ''alice'' HIVE = Some (Inr 10, ix')"
proof -
  let ?ix = "account_index_new empty_database True"
  have new: "\<not> account_exists (ai_db ?ix) ''alice''"
    by (simp add: account_index_new_def empty_database_def account_exists_def)
  have name: "create_account empty_database ''alice'' 10 0 =
      Done (empty_database\<lparr>balances := om_put om_empty ''alice'' \<lparr>b_hive = 10, b_hbd = 0\<rparr>\<rparr>)"
    by (simp add: create_account_def outcome_simps empty_database_def account_name_ok_def hive_constants)
  obtain ix where ix: "index_create ?ix ''alice'' 10 0 = Some (Done ix)" "index_ok ix"
      "ai_db ix = empty_database\<lparr>balances := om_put om_empty ''alice'' \<lparr>b_hive = 10, b_hbd = 0\<rparr>\<rparr>"
    using account_index_is_transparent [OF index_ok_new, of empty_database True empty_database
        True "''alice''" HIVE undefined 10 0] new name
    by (auto simp: account_index_new_def)
  show ?thesis
    using account_index_is_transparent [OF ix(2), of empty_database True "''alice''" HIVE undefined 10 0]
      ix by (auto simp: get_balance_def balance_field_def)
qed

end
