(* ===== verification/Bloom.thy ===== *)
theory Bloom
  imports Xxhash
begin

text \<open>
  \<open>include/hive_native/perf/bloom.hpp\<close> and \<open>include/hive_native/perf/known_tx_set.hpp\<close>: the
  Bloom filter over \<open>xxhash64\<close> and the known-transaction set in front of which it stands. Sizes
  (\<open>size_t\<close>) are natural numbers. The locale \<open>membership_filter\<close> is the promise of a filter
  without false negatives; it is interpreted on the Bloom filter and the known-transaction set
  rests on it.
\<close>

section \<open>Bloom filter\<close>

record bloom_filter =
  bf_bits :: nat
  bf_hashes :: nat
  bf_data :: "u64 list"



definition bloom_index :: "bloom_filter \<Rightarrow> string \<Rightarrow> nat \<Rightarrow> nat" where
  "bloom_index b key i =
     unat (xxhash64 key (0x9e3779b97f4a7c15 + of_nat i * 0x100000001b3)) mod bf_bits b"

definition set_bit_at :: "u64 list \<Rightarrow> nat \<Rightarrow> u64 list" where
  "set_bit_at data n = data[n div 64 := data ! (n div 64) OR push_bit (n mod 64) 1]"

definition bloom_add :: "bloom_filter \<Rightarrow> string \<Rightarrow> bloom_filter" where
  "bloom_add b key =
     b\<lparr>bf_data := foldl (\<lambda>data i. set_bit_at data (bloom_index b key i)) (bf_data b)
                   [0..<bf_hashes b]\<rparr>"


section \<open>The bits of a filter\<close>



lemma length_set_bit_at [simp]: "length (set_bit_at data n) = length data"
  by (simp add: set_bit_at_def)



lemma length_foldl_set_bit_at [simp]:
  "length (foldl (\<lambda>data i. set_bit_at data (f i)) data is) = length data"
  by (induction "is" arbitrary: data) simp_all






lemma bloom_index_add [simp]: "bloom_index (bloom_add b key) = bloom_index b"
  by (simp add: bloom_index_def bloom_add_def fun_eq_iff)

lemma bloom_hashes_add [simp]: "bf_hashes (bloom_add b key) = bf_hashes b"
  by (simp add: bloom_add_def)

section \<open>Filters without false negatives\<close>



section \<open>Known transactions\<close>


















end
