(* ===== verification/Selective_Undo.thy ===== *)
theory Selective_Undo
  imports Hive_Prelude
begin

text \<open>
  \<open>include/hive_native/perf/selective_undo.hpp\<close>: balance changes under an undo session. The
  session keeps a reference to the balances; the state is the pair of the session's stack and
  the map. \<open>operator[]\<close> inserts a zero balance for an account that is not in the map. The two
  additions of \<open>adjust_balance\<close> are in \<open>int64_t\<close>: overflow is undefined behaviour, reported
  in the state reached before it.
\<close>

section \<open>Operations\<close>

record undo_balance =
  ub_hive :: i64
  ub_hbd :: i64

type_synonym balance_map = "string \<rightharpoonup> undo_balance"

record balance_change =
  bc_account :: string
  bc_old_hive :: i64
  bc_old_hbd :: i64

record undo_session =
  us_stack :: "balance_change list"

type_synonym undo_state = "undo_session \<times> balance_map"

definition undo_session_new :: undo_session where
  "undo_session_new = \<lparr>us_stack = []\<rparr>"

definition zero_balance :: undo_balance where
  "zero_balance = \<lparr>ub_hive = 0, ub_hbd = 0\<rparr>"

text \<open>The value \<open>balances[account]\<close> refers to.\<close>

definition balance_at :: "balance_map \<Rightarrow> string \<Rightarrow> undo_balance" where
  "balance_at m a = (case m a of None \<Rightarrow> zero_balance | Some b \<Rightarrow> b)"

definition push_balance_change :: "undo_session \<Rightarrow> string \<Rightarrow> i64 \<Rightarrow> i64 \<Rightarrow> undo_session" where
  "push_balance_change s account old_hive old_hbd =
     s\<lparr>us_stack := us_stack s @
       [\<lparr>bc_account = account, bc_old_hive = old_hive, bc_old_hbd = old_hbd\<rparr>]\<rparr>"

definition restore_change :: "balance_map \<Rightarrow> balance_change \<Rightarrow> balance_map" where
  "restore_change m ch =
     m(bc_account ch \<mapsto> (balance_at m (bc_account ch))\<lparr>ub_hive := bc_old_hive ch, ub_hbd := bc_old_hbd ch\<rparr>)"

definition rollback :: "undo_state \<Rightarrow> undo_state" where
  "rollback st = (case st of (s, m) \<Rightarrow>
     (s\<lparr>us_stack := []\<rparr>, foldl restore_change m (rev (us_stack s))))"

definition commit :: "undo_state \<Rightarrow> undo_state" where
  "commit st = (case st of (s, m) \<Rightarrow> (s\<lparr>us_stack := []\<rparr>, m))"

definition undo_size :: "undo_session \<Rightarrow> nat" where
  "undo_size s = length (us_stack s)"

definition undo_empty :: "undo_session \<Rightarrow> bool" where
  "undo_empty s \<longleftrightarrow> us_stack s = []"

definition session_adjust :: "undo_state \<Rightarrow> string \<Rightarrow> i64 \<Rightarrow> i64 \<Rightarrow> undo_state outcome" where
  "session_adjust st account hive_delta hbd_delta = (case st of (s, m) \<Rightarrow>
     let b = balance_at m account;
         m = m(account \<mapsto> b);
         s = push_balance_change s account (ub_hive b) (ub_hbd b)
     in attempt (s, m) (i64_add (ub_hive b) hive_delta) (\<lambda>hive.
        let b = b\<lparr>ub_hive := hive\<rparr>; m = m(account \<mapsto> b)
        in attempt (s, m) (i64_add (ub_hbd b) hbd_delta) (\<lambda>hbd.
           Done (s, m(account \<mapsto> b\<lparr>ub_hbd := hbd\<rparr>)))))"

text \<open>A client that adjusts balances one after the other.\<close>

definition session_run :: "undo_state \<Rightarrow> (string \<times> i64 \<times> i64) list \<Rightarrow> undo_state outcome" where
  "session_run st = foldl (\<lambda>r (a, dh, dd). and_then r (\<lambda>st. session_adjust st a dh dd)) (Done st)"

section \<open>Undoing\<close>

text \<open>The map that the records of a stack restore.\<close>

definition undone :: "undo_state \<Rightarrow> balance_map" where
  "undone st = foldl restore_change (snd st) (rev (us_stack (fst st)))"

definition recorded :: "undo_state \<Rightarrow> string set" where
  "recorded st = set (map bc_account (us_stack (fst st)))"

definition old_balance :: "balance_change \<Rightarrow> undo_balance" where
  "old_balance ch = \<lparr>ub_hive = bc_old_hive ch, ub_hbd = bc_old_hbd ch\<rparr>"

lemma restore_change_eq: "restore_change m ch = m(bc_account ch \<mapsto> old_balance ch)"
  by (cases "balance_at m (bc_account ch)") (simp add: restore_change_def old_balance_def)

text \<open>Of several records of one account the oldest one wins.\<close>

lemma undone_map_of:
  "undone st = snd st ++ map_of (map (\<lambda>ch. (bc_account ch, old_balance ch)) (us_stack (fst st)))"
proof -
  have "foldl restore_change m (rev chs) = m ++ map_of (map (\<lambda>ch. (bc_account ch, old_balance ch)) chs)"
    for m chs by (induction chs arbitrary: m) (simp_all add: restore_change_eq)
  then show ?thesis by (simp add: undone_def)
qed

text \<open>The stack leads back to the balances \<open>m\<close> the session was opened on.\<close>

definition leads_back :: "balance_map \<Rightarrow> undo_state \<Rightarrow> bool" where
  "leads_back m st \<longleftrightarrow>
     undone st = (\<lambda>a. if a \<in> recorded st then Some (balance_at m a) else m a) \<and>
     (\<forall>a. a \<notin> recorded st \<longrightarrow> snd st a = m a)"

lemma recorded_None:
  "map_of (map (\<lambda>ch. (bc_account ch, old_balance ch)) (us_stack (fst st))) a = None \<longleftrightarrow>
     a \<notin> recorded st"
  by (simp add: recorded_def map_of_eq_None_iff image_image)

text \<open>One adjustment, whatever its outcome, adds one record and changes one account.\<close>

lemma session_adjust_shape:
  "\<exists>b. outcome_state (session_adjust (s, m) a dh dd) =
     (push_balance_change s a (ub_hive (balance_at m a)) (ub_hbd (balance_at m a)), m(a \<mapsto> b))"
  by (auto simp: session_adjust_def Let_def attempt_def split: sum.splits)

lemma leads_back_adjust:
  assumes "leads_back m st"
  shows "leads_back m (outcome_state (session_adjust st a dh dd))"
proof -
  obtain s m1 where st: "st = (s, m1)" by fastforce
  obtain b where shape: "outcome_state (session_adjust st a dh dd) =
      (push_balance_change s a (ub_hive (balance_at m1 a)) (ub_hbd (balance_at m1 a)), m1(a \<mapsto> b))"
    using session_adjust_shape unfolding st by blast
  have rec: "recorded (outcome_state (session_adjust st a dh dd)) = insert a (recorded st)"
    unfolding shape by (auto simp: recorded_def push_balance_change_def st)
  let ?recs = "map_of (map (\<lambda>ch. (bc_account ch, old_balance ch)) (us_stack s))"
  have "undone (outcome_state (session_adjust st a dh dd)) x =
      (case ?recs x of Some v \<Rightarrow> Some v | None \<Rightarrow> if x = a then Some (balance_at m1 a) else m1 x)" for x
    by (simp add: shape undone_map_of push_balance_change_def map_add_def old_balance_def split: option.splits)
  moreover have "?recs x = (if x \<in> recorded st then Some (balance_at m x) else None)" for x
    using fun_cong [OF conjunct1 [OF assms [unfolded leads_back_def]], of x] recorded_None [of st x]
    by (auto simp: undone_map_of st map_add_def split: option.splits)
  moreover have "m1 x = m x" "balance_at m1 x = balance_at m x" if "x \<notin> recorded st" for x
    using assms that by (simp_all add: leads_back_def st balance_at_def)
  moreover have "snd (outcome_state (session_adjust st a dh dd)) = m1(a \<mapsto> b)"
    unfolding shape by simp
  ultimately show ?thesis
    by (auto simp: leads_back_def rec fun_eq_iff)
qed

lemma session_run_Nil [simp]: "session_run st [] = Done st"
  by (simp add: session_run_def)

lemma session_run_snoc:
  "session_run st (xs @ [(a, dh, dd)]) = and_then (session_run st xs) (\<lambda>st. session_adjust st a dh dd)"
  by (simp add: session_run_def)

lemma leads_back_run: "leads_back m (outcome_state (session_run (undo_session_new, m) xs))"
proof (induction xs rule: rev_induct)
  case Nil
  then show ?case by (simp add: leads_back_def undone_def recorded_def undo_session_new_def)
next
  case (snoc x xs)
  obtain a dh dd where x: "x = (a, dh, dd)" by (cases x)
  show ?case
    using snoc.IH leads_back_adjust
    by (cases "session_run (undo_session_new, m) xs") (simp_all add: x session_run_snoc)
qed

text \<open>What a completed run does to the balances.\<close>

lemma session_adjust_Done:
  assumes "session_adjust (s, m) a dh dd = Done (s', m')"
  shows "sint (ub_hive (balance_at m' c)) = sint (ub_hive (balance_at m c)) + (if c = a then sint dh else 0)"
    and "sint (ub_hbd (balance_at m' c)) = sint (ub_hbd (balance_at m c)) + (if c = a then sint dd else 0)"
    and "us_stack s' = us_stack s @
      [\<lparr>bc_account = a, bc_old_hive = ub_hive (balance_at m a), bc_old_hbd = ub_hbd (balance_at m a)\<rparr>]"
proof -
  from assms obtain h d where hd: "i64_add (ub_hive (balance_at m a)) dh = Inr h"
      "i64_add (ub_hbd (balance_at m a)) dd = Inr d"
      "m' = m(a \<mapsto> (balance_at m a)\<lparr>ub_hive := h, ub_hbd := d\<rparr>)"
      "s' = push_balance_change s a (ub_hive (balance_at m a)) (ub_hbd (balance_at m a))"
    by (auto simp: session_adjust_def Let_def attempt_def split: sum.splits)
  show "us_stack s' = us_stack s @
      [\<lparr>bc_account = a, bc_old_hive = ub_hive (balance_at m a), bc_old_hbd = ub_hbd (balance_at m a)\<rparr>]"
    by (simp add: hd(4) push_balance_change_def)
  show "sint (ub_hive (balance_at m' c)) = sint (ub_hive (balance_at m c)) + (if c = a then sint dh else 0)"
    "sint (ub_hbd (balance_at m' c)) = sint (ub_hbd (balance_at m c)) + (if c = a then sint dd else 0)"
    using sint_i64_add [OF hd(1)] sint_i64_add [OF hd(2)] by (auto simp: hd(3) balance_at_def)
qed

definition delta_of :: "(i64 \<times> i64 \<Rightarrow> i64) \<Rightarrow> string \<Rightarrow> (string \<times> i64 \<times> i64) list \<Rightarrow> int" where
  "delta_of f a xs = sum_list (map (\<lambda>(b, d). if b = a then sint (f d) else 0) xs)"

lemma session_run_Done:
  assumes "session_run (undo_session_new, m) xs = Done (s', m')"
  shows "map bc_account (us_stack s') = map fst xs \<and>
    sint (ub_hive (balance_at m' c)) = sint (ub_hive (balance_at m c)) + delta_of fst c xs \<and>
    sint (ub_hbd (balance_at m' c)) = sint (ub_hbd (balance_at m c)) + delta_of snd c xs"
  using assms
proof (induction xs arbitrary: s' m' rule: rev_induct)
  case Nil
  then show ?case by (auto simp: undo_session_new_def delta_of_def)
next
  case (snoc x xs)
  obtain a dh dd where x: "x = (a, dh, dd)" by (cases x)
  from snoc.prems obtain s1 m1 where run: "session_run (undo_session_new, m) xs = Done (s1, m1)"
      and step: "session_adjust (s1, m1) a dh dd = Done (s', m')"
    by (auto simp: x session_run_snoc and_then_Done)
  from snoc.IH [OF run] session_adjust_Done [OF step] show ?case
    by (auto simp: x delta_of_def)
qed

text \<open>The session holds one record per adjustment until it is closed either way.\<close>

lemma undo_size_run:
  assumes "session_run (undo_session_new, m) xs = Done st"
  shows "undo_size (fst st) = length xs" "undo_empty (fst (rollback st))" "undo_empty (fst (commit st))"
proof -
  obtain s' m' where st: "st = (s', m')" by fastforce
  with session_run_Done [of m xs s' m'] assms have "map bc_account (us_stack s') = map fst xs" by simp
  from map_eq_imp_length_eq [OF this] show "undo_size (fst st) = length xs" by (simp add: undo_size_def st)
qed (simp_all add: undo_empty_def rollback_def commit_def split: prod.splits)

section \<open>Properties\<close>

text \<open>C35: selective undo is exact. After any sequence of adjustments under a new session,
  completed or stopped by an overflow, \<open>rollback\<close> gives every account the balance it had when
  the session was opened (an account the session created stays, with balance zero) and \<open>commit\<close>
  keeps the balances as they are; both leave an empty stack. A completed sequence has one record
  per adjustment and changes each balance by the sum of its deltas.\<close>

theorem rollback_restores_balances:
  "(let st = outcome_state (session_run (undo_session_new, m) xs)
    in rollback st = (undo_session_new,
         \<lambda>a. if a \<in> set (map bc_account (us_stack (fst st))) then Some (balance_at m a) else m a) \<and>
       commit st = (undo_session_new, snd st)) \<and>
   (case session_run (undo_session_new, m) xs of
      Threw e st \<Rightarrow> True
    | Done (s', m') \<Rightarrow> map bc_account (us_stack s') = map fst xs \<and>
        sint (ub_hive (balance_at m' a)) = sint (ub_hive (balance_at m a)) + delta_of fst a xs \<and>
        sint (ub_hbd (balance_at m' a)) = sint (ub_hbd (balance_at m a)) + delta_of snd a xs)"
proof -
  let ?st = "outcome_state (session_run (undo_session_new, m) xs)"
  have "rollback ?st = (undo_session_new, undone ?st)" "commit ?st = (undo_session_new, snd ?st)"
    by (cases ?st; simp add: rollback_def commit_def undone_def undo_session_new_def)+
  with leads_back_run [of m xs] show ?thesis
    using session_run_Done [of m xs _ _ a]
    by (simp add: leads_back_def recorded_def Let_def split: outcome.splits prod.splits)
qed

end
