(* ===== verification/Compact_Block.thy ===== *)
theory Compact_Block
  imports Crypto
begin

text \<open>
  \<open>include/hive_native/perf/compact_block.hpp\<close>: announcing a block by short transaction ids and
  rebuilding it from the local mempool. The mempool, an \<open>unordered_map\<close> that is only looked up,
  is a partial function. The loop of \<open>reconstruct\<close> is a fold over the slots of the block;
  \<open>None\<close> is its early return for a malformed announcement.
\<close>

section \<open>Operations\<close>

type_synonym short_tx_id = bytes
fun short_tx_id_hash_loop :: "u64 \<Rightarrow> bytes \<Rightarrow> u64" where
  "short_tx_id_hash_loop h [] = h"
| "short_tx_id_hash_loop h (b # bs) = short_tx_id_hash_loop (push_bit 8 h OR ucast b) bs"

definition short_tx_id_hash :: "short_tx_id \<Rightarrow> u64" where
  "short_tx_id_hash = short_tx_id_hash_loop 0"

type_synonym mempool_map = "short_tx_id \<rightharpoonup> bytes"

definition make_short_tx_id_of_digest :: "bytes \<Rightarrow> short_tx_id" where
  "make_short_tx_id_of_digest digest = take 6 digest"

definition make_short_tx_id :: "bytes \<Rightarrow> short_tx_id" where
  "make_short_tx_id tx_bytes = make_short_tx_id_of_digest (sha256 tx_bytes)"

record prefilled_tx =
  px_index :: u32
  px_tx :: bytes

record compact_block =
  cb_header_hash :: bytes
  cb_short_ids :: "short_tx_id list"
  cb_prefilled :: "prefilled_tx list"

definition tx_count :: "compact_block \<Rightarrow> nat" where
  "tx_count cb = length (cb_short_ids cb) + length (cb_prefilled cb)"

record reconstruct_result =
  rr_txs :: "bytes list"
  rr_missing :: "short_tx_id list"

definition rr_ok :: "reconstruct_result \<Rightarrow> bool" where
  "rr_ok r \<longleftrightarrow> rr_missing r = []"

definition full_list :: "reconstruct_result \<Rightarrow> bytes list option" where
  "full_list r = (if rr_missing r \<noteq> [] then None else Some (rr_txs r))"

definition malformed :: "compact_block \<Rightarrow> reconstruct_result" where
  "malformed cb = \<lparr>rr_txs = [], rr_missing = cb_short_ids cb\<rparr>"

definition prefilled_valid :: "nat \<Rightarrow> prefilled_tx list \<Rightarrow> bool" where
  "prefilled_valid n pfs \<longleftrightarrow> list_all (\<lambda>p.
     \<not> unat (px_index (pfs ! p)) \<ge> n \<and>
     \<not> (p > 0 \<and> px_index (pfs ! p) \<le> px_index (pfs ! (p - 1)))) [0..<length pfs]"

record fill_state =
  fs_txs :: "bytes list"
  fs_missing :: "short_tx_id list"
  fs_short_i :: nat
  fs_pref_i :: nat

definition fill_slot :: "compact_block \<Rightarrow> mempool_map \<Rightarrow> fill_state \<Rightarrow> nat \<Rightarrow> fill_state option" where
  "fill_slot cb pool s i =
     (if fs_pref_i s < length (cb_prefilled cb) \<and> unat (px_index (cb_prefilled cb ! fs_pref_i s)) = i
      then Some (s\<lparr>fs_txs := (fs_txs s)[i := px_tx (cb_prefilled cb ! fs_pref_i s)],
                   fs_pref_i := fs_pref_i s + 1\<rparr>)
      else if fs_short_i s \<ge> length (cb_short_ids cb) then None
      else let sid = cb_short_ids cb ! fs_short_i s; s = s\<lparr>fs_short_i := fs_short_i s + 1\<rparr>
        in case pool sid of
             None \<Rightarrow> Some (s\<lparr>fs_missing := fs_missing s @ [sid]\<rparr>)
           | Some tx \<Rightarrow> Some (s\<lparr>fs_txs := (fs_txs s)[i := tx]\<rparr>))"

definition fill_slots :: "compact_block \<Rightarrow> mempool_map \<Rightarrow> nat list \<Rightarrow> fill_state \<Rightarrow> fill_state option" where
  "fill_slots cb pool is s =
     foldl (\<lambda>acc i. case acc of None \<Rightarrow> None | Some s \<Rightarrow> fill_slot cb pool s i) (Some s) is"

definition reconstruct :: "compact_block \<Rightarrow> mempool_map \<Rightarrow> reconstruct_result" where
  "reconstruct cb pool =
     (let n = tx_count cb in
      if n = 0 then \<lparr>rr_txs = [], rr_missing = []\<rparr>
      else if \<not> prefilled_valid n (cb_prefilled cb) then malformed cb
      else case fill_slots cb pool [0..<n]
          \<lparr>fs_txs = replicate n [], fs_missing = [], fs_short_i = 0, fs_pref_i = 0\<rparr> of
        None \<Rightarrow> malformed cb
      | Some s \<Rightarrow>
          if fs_pref_i s \<noteq> length (cb_prefilled cb) \<or> fs_short_i s \<noteq> length (cb_short_ids cb)
          then malformed cb
          else \<lparr>rr_txs = (if fs_missing s \<noteq> [] then [] else fs_txs s), rr_missing = fs_missing s\<rparr>)"

definition mark_prefilled :: "nat \<Rightarrow> u32 list \<Rightarrow> bool list" where
  "mark_prefilled n prefill_indexes =
     foldl (\<lambda>marks idx. if unat idx < n then marks[unat idx := True] else marks)
       (replicate n False) prefill_indexes"

definition announce_tx :: "bool list \<Rightarrow> bytes list \<Rightarrow> compact_block \<Rightarrow> nat \<Rightarrow> compact_block" where
  "announce_tx is_prefilled txs cb i =
     (if is_prefilled ! i
      then cb\<lparr>cb_prefilled := cb_prefilled cb @ [\<lparr>px_index = of_nat i, px_tx = txs ! i\<rparr>]\<rparr>
      else cb\<lparr>cb_short_ids := cb_short_ids cb @ [make_short_tx_id (txs ! i)]\<rparr>)"

definition make_compact_block :: "bytes \<Rightarrow> bytes list \<Rightarrow> u32 list \<Rightarrow> compact_block" where
  "make_compact_block header_hash txs prefill_indexes =
     foldl (announce_tx (mark_prefilled (length txs) prefill_indexes) txs)
       \<lparr>cb_header_hash = header_hash, cb_short_ids = [], cb_prefilled = []\<rparr> [0..<length txs]"

section \<open>The announcement\<close>

lemma mark_prefilled_spec:
  "length (mark_prefilled n idxs) = n \<and>
   (\<forall>i < n. mark_prefilled n idxs ! i \<longleftrightarrow> i \<in> unat ` set idxs)"
  by (induction idxs rule: rev_induct) (auto simp: mark_prefilled_def nth_list_update)

text \<open>The slots below \<open>i\<close> carried in full, and the others.\<close>

abbreviation full_slots :: "bool list \<Rightarrow> nat \<Rightarrow> nat list" where
  "full_slots marks i \<equiv> filter ((!) marks) [0..<i]"

abbreviation short_slots :: "bool list \<Rightarrow> nat \<Rightarrow> nat list" where
  "short_slots marks i \<equiv> filter (\<lambda>j. \<not> marks ! j) [0..<i]"

abbreviation prefilled_of :: "bytes list \<Rightarrow> nat \<Rightarrow> prefilled_tx" where
  "prefilled_of txs i \<equiv> \<lparr>px_index = of_nat i, px_tx = txs ! i\<rparr>"

definition announced :: "bytes \<Rightarrow> bool list \<Rightarrow> bytes list \<Rightarrow> nat \<Rightarrow> compact_block" where
  "announced h marks txs i =
     \<lparr>cb_header_hash = h,
      cb_short_ids = map (\<lambda>j. make_short_tx_id (txs ! j)) (short_slots marks i),
      cb_prefilled = map (prefilled_of txs) (full_slots marks i)\<rparr>"

lemma make_compact_block_eq:
  "make_compact_block h txs idxs = announced h (mark_prefilled (length txs) idxs) txs (length txs)"
proof -
  have "foldl (announce_tx marks txs) \<lparr>cb_header_hash = h, cb_short_ids = [], cb_prefilled = []\<rparr> [0..<i] =
      announced h marks txs i" for marks i
    by (induction i) (simp_all add: announce_tx_def announced_def)
  then show ?thesis by (simp add: make_compact_block_def)
qed

lemma filter_upt_at:
  assumes "i < n"
  shows "P i \<Longrightarrow> length (filter P [0..<i]) < length (filter P [0..<n]) \<and>
      filter P [0..<n] ! length (filter P [0..<i]) = i"
    and "\<not> P i \<Longrightarrow> length (filter P [0..<i]) < length (filter P [0..<n]) \<Longrightarrow>
      filter P [0..<n] ! length (filter P [0..<i]) \<noteq> i"
proof -
  have "filter P [0..<n] = filter P [0..<i] @ filter P (i # [Suc i..<n])"
    using assms upt_add_eq_append [of 0 i "n - i"] upt_conv_Cons [OF assms] by simp
  then show "P i \<Longrightarrow> length (filter P [0..<i]) < length (filter P [0..<n]) \<and>
      filter P [0..<n] ! length (filter P [0..<i]) = i"
    by (simp add: nth_append)
  show "filter P [0..<n] ! length (filter P [0..<i]) \<noteq> i"
    if "\<not> P i" "length (filter P [0..<i]) < length (filter P [0..<n])"
    using nth_mem [OF that(2)] that(1) by auto
qed

lemma unat_of_nat_u32: "i < 2 ^ 32 \<Longrightarrow> unat (of_nat i :: u32) = i"
  by (simp add: unat_of_nat take_bit_nat_eq_self)

lemma prefilled_valid_announced:
  assumes "length txs \<le> 2 ^ 32"
  shows "prefilled_valid (length txs) (map (prefilled_of txs) (filter P [0..<length txs]))"
proof -
  let ?fs = "filter P [0..<length txs]"
  have bound: "?fs ! p < length txs" if "p < length ?fs" for p
    using nth_mem [OF that] by auto
  have word: "unat (of_nat (?fs ! p) :: u32) = ?fs ! p" if "p < length ?fs" for p
    using bound [OF that] assms by (intro unat_of_nat_u32) simp
  have "sorted_wrt (<) ?fs" by (rule sorted_wrt_filter) simp
  then have "?fs ! (p - 1) < ?fs ! p" if "0 < p" "p < length ?fs" for p
    using that by (simp add: sorted_wrt_iff_nth_less)
  then show ?thesis
    using bound word by (auto simp: prefilled_valid_def list_all_iff word_le_nat_alt not_le) force
qed

text \<open>The hash packs the six bytes without loss, so the mempool's buckets never see two ids with
  one hash value.\<close>

lemma byte_digits:
  assumes "(h :: nat) * 256 + b = g * 256 + c" "b < 256" "c < 256"
  shows "h = g \<and> b = c"
proof -
  have "(h * 256 + b) div 256 = h" "(g * 256 + c) div 256 = g" using assms(2,3) by simp_all
  with assms(1) have "h = g" by simp
  with assms(1) show ?thesis by simp
qed

lemma shift_or_byte:
  assumes "unat (h :: u64) < 2 ^ 56"
  shows "unat (push_bit 8 h OR ucast (b :: u8)) = unat h * 256 + unat b"
proof -
  have "push_bit 8 h AND (ucast b :: u64) = 0"
    by (rule bit_word_eqI) (auto simp: bit_simps dest: bit_imp_le_length)
  then have "push_bit 8 h OR ucast b = push_bit 8 h + ucast b"
    by (simp add: disjunctive_add_eq_or)
  moreover have "unat (push_bit 8 h) = unat h * 256"
    using assms by (simp add: push_bit_eq_mult unat_word_ariths)
  moreover have small: "unat b < 256" using unsigned_less [of b, where 'a = nat] by simp
  moreover from small have "unat (ucast b :: u64) = unat b"
    by (simp add: unsigned_ucast_eq take_bit_nat_eq_self)
  ultimately show ?thesis using assms by (simp add: unat_word_ariths)
qed

lemma short_tx_id_hash_loop_inject:
  assumes "length bs = length cs" "(unat h + 1) * 256 ^ length bs \<le> 2 ^ 64"
    "(unat g + 1) * 256 ^ length cs \<le> 2 ^ 64"
    "short_tx_id_hash_loop h bs = short_tx_id_hash_loop g cs"
  shows "h = g \<and> bs = cs"
  using assms
proof (induction bs cs arbitrary: h g rule: list_induct2)
  case (Cons b bs c cs)
  have room: "unat x < 2 ^ 56 \<and> (unat (push_bit 8 x OR ucast y :: u64) + 1) * 256 ^ length bs \<le> 2 ^ 64"
    if "(unat x + 1) * 256 ^ length (y # bs) \<le> 2 ^ 64" for x :: u64 and y :: u8
  proof -
    have le: "(unat x + 1) * 256 * 256 ^ length bs \<le> 2 ^ 64" using that by (simp add: algebra_simps)
    have "(unat x + 1) * 256 \<le> (unat x + 1) * 256 * 256 ^ length bs" by simp
    from le_trans [OF this le] have x: "unat x < 2 ^ 56" by simp
    have "unat x * 256 + unat y + 1 \<le> (unat x + 1) * 256" using unsigned_less [of y, where 'a = nat] by simp
    with le have "(unat x * 256 + unat y + 1) * 256 ^ length bs \<le> 2 ^ 64"
      by (meson le_trans mult_le_mono1)
    with x show ?thesis by (simp add: shift_or_byte)
  qed
  note rh = room [of h b] and rg = room [of g c]
  have "push_bit 8 h OR ucast b = push_bit 8 g OR ucast c \<and> bs = cs"
    using Cons rh rg by (intro Cons.IH) simp_all
  with rh rg Cons.prems Cons.hyps have "unat h * 256 + unat b = unat g * 256 + unat c" "bs = cs"
    by (metis length_Cons shift_or_byte)+
  moreover have "unat b < 256" "unat c < 256" using unsigned_less [of b, where 'a = nat] unsigned_less [of c, where 'a = nat] by simp_all
  ultimately have "unat h = unat g" "unat b = unat c" "bs = cs" using byte_digits by blast+
  then show ?case by (simp add: word_unat_eq_iff)
qed simp

lemma short_tx_id_hash_inject:
  "length i = 6 \<Longrightarrow> length j = 6 \<Longrightarrow> short_tx_id_hash i = short_tx_id_hash j \<Longrightarrow> i = j"
  using short_tx_id_hash_loop_inject [of i j 0 0] by (simp add: short_tx_id_hash_def)

section \<open>The reconstruction\<close>

text \<open>What is put into slot \<open>j\<close>: the transaction itself if it was sent in full, and otherwise whatever
  the mempool holds under its short id. \<open>filled\<close> is the loop's state after \<open>i\<close> slots.\<close>

definition rebuilt :: "(nat \<Rightarrow> bool) \<Rightarrow> bytes list \<Rightarrow> mempool_map \<Rightarrow> nat \<Rightarrow> bytes" where
  "rebuilt in_full txs pool j =
     (if in_full j then txs ! j
      else case pool (make_short_tx_id (txs ! j)) of Some tx \<Rightarrow> tx | None \<Rightarrow> [])"

definition filled :: "bool list \<Rightarrow> bytes list \<Rightarrow> mempool_map \<Rightarrow> nat \<Rightarrow> fill_state" where
  "filled marks txs pool i =
     \<lparr>fs_txs = map (\<lambda>j. if j < i then rebuilt ((!) marks) txs pool j else []) [0..<length txs],
      fs_missing = filter (\<lambda>sid. pool sid = None)
        (map (\<lambda>j. make_short_tx_id (txs ! j)) (short_slots marks i)),
      fs_short_i = length (short_slots marks i), fs_pref_i = length (full_slots marks i)\<rparr>"

lemma map_upt_update:
  "i < n \<Longrightarrow> (\<And>j. j < n \<Longrightarrow> j \<noteq> i \<Longrightarrow> f j = g j) \<Longrightarrow> (map f [0..<n])[i := g i] = map g [0..<n]"
  by (rule nth_equalityI) (auto simp: nth_list_update)

lemma slot_not_prefilled:
  assumes "n \<le> 2 ^ 32" "i < n" "\<not> marks ! i"
  shows "\<not> (length (full_slots marks i) < length (full_slots marks n) \<and>
    unat (of_nat (full_slots marks n ! length (full_slots marks i)) :: u32) = i)"
proof
  assume a: "length (full_slots marks i) < length (full_slots marks n) \<and>
    unat (of_nat (full_slots marks n ! length (full_slots marks i)) :: u32) = i"
  then have "full_slots marks n ! length (full_slots marks i) < n"
    using nth_mem [of "length (full_slots marks i)" "full_slots marks n"] by auto
  with a show False
    using filter_upt_at(2) [of i n "(!) marks", OF assms(2,3)] assms(1) by (simp add: unat_of_nat_u32)
qed

lemma fill_slot_step:
  fixes txs :: "bytes list" and marks :: "bool list"
  defines "n \<equiv> length txs"
  assumes small: "n \<le> 2 ^ 32" and i: "i < n"
  shows "fill_slot (announced h marks txs n) pool (filled marks txs pool i) i =
    Some (filled marks txs pool (Suc i))"
proof -
  let ?f = "\<lambda>k j. if j < k then rebuilt ((!) marks) txs pool j else []"
  have put: "(map (?f i) [0..<n])[i := rebuilt ((!) marks) txs pool i] = map (?f (Suc i)) [0..<n]"
    using map_upt_update [OF i, of "?f i" "?f (Suc i)"] by (simp add: less_Suc_eq)
  show ?thesis
  proof (cases "marks ! i")
    case True
    note at = filter_upt_at(1) [of i n "(!) marks", OF i True]
    then have "unat (of_nat (full_slots marks n ! length (full_slots marks i)) :: u32) = i"
      using small i by (simp add: unat_of_nat_u32)
    with at True put show ?thesis
      by (simp add: fill_slot_def announced_def filled_def n_def [symmetric] rebuilt_def [of _ _ _ i])
  next
    case False
    note pre = slot_not_prefilled [OF small i False]
    note at = filter_upt_at(1) [of i n "\<lambda>j. \<not> marks ! j", OF i False]
    show ?thesis
    proof (cases "pool (make_short_tx_id (txs ! i))")
      case None
      then have "map (?f (Suc i)) [0..<n] = map (?f i) [0..<n]"
        using False by (auto simp: less_Suc_eq rebuilt_def)
      with None pre at False show ?thesis
        by (auto simp: fill_slot_def announced_def filled_def n_def [symmetric] Let_def)
    next
      case (Some t)
      with False put have "(map (?f i) [0..<n])[i := t] = map (?f (Suc i)) [0..<n]"
        by (simp add: rebuilt_def [of _ _ _ i])
      with Some pre at False show ?thesis
        by (auto simp: fill_slot_def announced_def filled_def n_def [symmetric] Let_def)
    qed
  qed
qed

lemma fill_slots_snoc:
  "fill_slots cb pool (is @ [i]) s =
     (case fill_slots cb pool is s of None \<Rightarrow> None | Some s \<Rightarrow> fill_slot cb pool s i)"
  by (simp add: fill_slots_def)

lemma fill_slots_filled:
  assumes "length txs \<le> 2 ^ 32" and "i \<le> length txs"
  shows "fill_slots (announced h marks txs (length txs)) pool [0..<i] (filled marks txs pool 0) =
    Some (filled marks txs pool i)"
  using assms(2)
proof (induction i)
  case 0
  then show ?case by (simp add: fill_slots_def)
next
  case (Suc i)
  with fill_slot_step [of txs i h marks pool, OF assms(1)] show ?case
    by (simp add: fill_slots_snoc)
qed

lemma tx_count_announced: "tx_count (announced h marks txs i) = i"
  using sum_length_filter_compl [of "(!) marks" "[0..<i]"] by (simp add: tx_count_def announced_def)

lemma reconstruct_announced:
  fixes marks :: "bool list" and pool :: mempool_map
  assumes small: "length txs \<le> 2 ^ 32"
  defines "missing \<equiv> fs_missing (filled marks txs pool (length txs))"
  shows "reconstruct (announced h marks txs (length txs)) pool =
    \<lparr>rr_txs = (if missing \<noteq> [] then [] else map (rebuilt ((!) marks) txs pool) [0..<length txs]),
     rr_missing = missing\<rparr>"
proof (cases "txs = []")
  case True
  then show ?thesis by (simp add: reconstruct_def tx_count_announced missing_def filled_def)
next
  case False
  let ?n = "length txs" and ?cb = "announced h marks txs (length txs)"
  let ?last = "filled marks txs pool ?n"
  have start: "\<lparr>fs_txs = replicate ?n [], fs_missing = [], fs_short_i = 0, fs_pref_i = 0\<rparr> =
      filled marks txs pool 0"
    by (simp add: filled_def map_replicate_const)
  have valid: "prefilled_valid ?n (cb_prefilled ?cb)"
    using prefilled_valid_announced [OF small] by (simp add: announced_def)
  have counts: "fs_pref_i ?last = length (cb_prefilled ?cb)" "fs_short_i ?last = length (cb_short_ids ?cb)"
    by (simp_all add: filled_def announced_def)
  have "fs_txs ?last = map (rebuilt ((!) marks) txs pool) [0..<?n]"
    by (simp add: filled_def)
  then show ?thesis
    using False valid fill_slots_filled [OF small order.refl, of h marks pool] counts
    by (simp add: reconstruct_def tx_count_announced Let_def start missing_def)
qed

section \<open>Properties\<close>

text \<open>C34: round trip. Reconstructing an announcement made from a block asks for exactly the short
  ids of the transactions that were neither sent in full nor have an entry in the mempool, in
  block order. If there are none it returns a body in which every position has the transaction
  sent in full for it or the mempool's entry for its short id; when the mempool files
  transactions under their own short ids the body has the short ids of the block at every
  position, and it is the block body when the mempool has no other transaction under the short
  id of one that was not sent in full (six bytes of a digest, which do not exclude it). The
  announcement is never taken to be malformed, whatever indexes are asked to be sent in full.\<close>

theorem compact_block_round_trip:
  assumes "length txs \<le> 2 ^ 32"
  shows "let by_id = filter (\<lambda>i. i \<notin> unat ` set idxs) [0..<length txs];
      missing = filter (\<lambda>sid. pool sid = None) (map (\<lambda>i. make_short_tx_id (txs ! i)) by_id);
      body = map (rebuilt (\<lambda>i. i \<in> unat ` set idxs) txs pool) [0..<length txs]
    in reconstruct (make_compact_block h txs idxs) pool =
        \<lparr>rr_txs = (if missing = [] then body else []), rr_missing = missing\<rparr> \<and>
      (missing = [] \<and> (\<forall>sid tx. pool sid = Some tx \<longrightarrow> make_short_tx_id tx = sid) \<longrightarrow>
        map make_short_tx_id body = map make_short_tx_id txs) \<and>
      (missing = [] \<and> (\<forall>i \<in> set by_id. pool (make_short_tx_id (txs ! i)) \<in> {None, Some (txs ! i)}) \<longrightarrow>
        body = txs)"
proof -
  let ?marks = "mark_prefilled (length txs) idxs" and ?full = "\<lambda>i. i \<in> unat ` set idxs"
  define by_id where "by_id = filter (\<lambda>i. i \<notin> unat ` set idxs) [0..<length txs]"
  define missing where "missing = filter (\<lambda>sid. pool sid = None) (map (\<lambda>i. make_short_tx_id (txs ! i)) by_id)"
  define body where "body = map (rebuilt ?full txs pool) [0..<length txs]"
  have marks: "?marks ! i \<longleftrightarrow> ?full i" if "i < length txs" for i
    using mark_prefilled_spec [of "length txs" idxs] that by simp
  have "short_slots ?marks (length txs) = by_id"
    unfolding by_id_def using marks by (intro filter_cong) auto
  then have "fs_missing (filled ?marks txs pool (length txs)) = missing"
    by (simp add: filled_def missing_def)
  moreover have "map (rebuilt ((!) ?marks) txs pool) [0..<length txs] = body"
    unfolding body_def using marks by (intro map_cong) (auto simp: rebuilt_def)
  ultimately have "reconstruct (make_compact_block h txs idxs) pool =
      \<lparr>rr_txs = (if missing = [] then body else []), rr_missing = missing\<rparr>"
    using reconstruct_announced [OF assms, of h ?marks pool] by (simp add: make_compact_block_eq)
  moreover have held: "\<exists>tx. pool (make_short_tx_id (txs ! i)) = Some tx"
    if "missing = []" "i < length txs" "\<not> ?full i" for i
    using that by (auto simp: missing_def by_id_def filter_empty_conv)
  then have "map make_short_tx_id body = map make_short_tx_id txs"
    if "missing = []" "\<forall>sid tx. pool sid = Some tx \<longrightarrow> make_short_tx_id tx = sid"
    using that by (intro nth_equalityI) (fastforce simp: body_def rebuilt_def)+
  moreover have "body = txs"
    if "missing = []" "\<forall>i \<in> set by_id. pool (make_short_tx_id (txs ! i)) \<in> {None, Some (txs ! i)}"
    using that held [OF that(1)] by (intro nth_equalityI) (fastforce simp: body_def rebuilt_def by_id_def)+
  ultimately show ?thesis by (simp add: Let_def by_id_def missing_def body_def)
qed

theorem compact_block_round_trip_witness:
  "reconstruct (make_compact_block [] [[1], [1]] [1]) [make_short_tx_id [1] \<mapsto> [1]] =
     \<lparr>rr_txs = [[1], [1]], rr_missing = []\<rparr> \<and>
   reconstruct (make_compact_block [] [[1], [2]] [0]) Map.empty =
     \<lparr>rr_txs = [], rr_missing = [make_short_tx_id [2]]\<rparr>"
  using conjunct1 [OF compact_block_round_trip [of "[[1], [1]]" "[1]" "[make_short_tx_id [1] \<mapsto> [1]]" "[]",
        unfolded Let_def]]
    conjunct1 [OF compact_block_round_trip [of "[[1], [2]]" "[0]" Map.empty "[]", unfolded Let_def]]
  by (simp add: upt_rec rebuilt_def)

text \<open>A malformed announcement can pass for a complete empty block. A prefilled index out
  of range makes \<open>reconstruct\<close> return the short ids as missing so that the caller falls back,
  but an announcement with only prefilled transactions has none: the result is \<open>ok()\<close> with an
  empty body although the announcement counts one transaction.\<close>

lemma malformed_announcement_accepted:
  "let cb = \<lparr>cb_header_hash = [], cb_short_ids = [], cb_prefilled = [\<lparr>px_index = 5, px_tx = [1]\<rparr>]\<rparr>
   in tx_count cb = 1 \<and> \<not> prefilled_valid (tx_count cb) (cb_prefilled cb) \<and>
      rr_ok (reconstruct cb pool) \<and> full_list (reconstruct cb pool) = Some []"
  by (simp add: Let_def tx_count_def prefilled_valid_def reconstruct_def malformed_def rr_ok_def full_list_def)

end
