(* ===== verification/Worker_Pool.thy ===== *)
theory Worker_Pool
  imports Hive_Prelude "HOL-Library.Multiset"
begin

text \<open>
  \<open>include/hive_native/perf/worker_pool.hpp\<close>: the priority worker pool as a step relation. Every
  access to the queues and counters is in a critical section of \<open>mu_\<close>, so a step is one critical
  section: \<open>submit\<close>, the part of \<open>loop\<close> that falls asleep, takes a task or leaves the thread, the
  part after \<open>fn()\<close>, and the destructor's setting of \<open>stop_\<close>. The condition variable \<open>cv_\<close> is
  modelled: a thread whose predicate is false goes to sleep in \<open>wait\<close> and takes no step until it
  is notified or wakes up spuriously, when it re-evaluates the predicate under the lock. The
  notifications are steps of their own, after the lock has been released, and so are the joins
  of the destructor. A task is an opaque value that does not throw; running it is the time
  between its start and its finish. The one-millisecond waits of \<open>wait_idle\<close> on \<open>idle_cv_\<close> are not
  modelled: they time out whether notified or not.
\<close>

section \<open>State and critical sections\<close>

datatype task_priority = Prio_apply | Prio_high | Prio_medium | Prio_low

fun prio_index :: "task_priority \<Rightarrow> nat" where
  "prio_index Prio_apply = 0"
| "prio_index Prio_high = 1"
| "prio_index Prio_medium = 2"
| "prio_index Prio_low = 3"

text \<open>The underlying values of the enumeration order the priorities, the most urgent first.\<close>

instantiation task_priority :: linorder
begin

definition less_eq_task_priority :: "task_priority \<Rightarrow> task_priority \<Rightarrow> bool" where
  "less_eq_task_priority p q \<longleftrightarrow> prio_index p \<le> prio_index q"

definition less_task_priority :: "task_priority \<Rightarrow> task_priority \<Rightarrow> bool" where
  "less_task_priority p q \<longleftrightarrow> prio_index p < prio_index q"

instance
proof
  fix p q :: task_priority
  show "p \<le> q \<Longrightarrow> q \<le> p \<Longrightarrow> p = q"
    by (cases p; cases q) (simp_all add: less_eq_task_priority_def)
qed (auto simp: less_eq_task_priority_def less_task_priority_def)

end

text \<open>A thread is about to evaluate the predicate of \<open>cv_.wait\<close> (\<open>Waiting\<close>), blocked in it (\<open>Asleep\<close>),
  running a task, or has returned from \<open>loop\<close>. \<open>wp_notices\<close> counts the calls of \<open>submit\<close> that have
  released the lock and not yet reached \<open>cv_.notify_one()\<close>; \<open>wp_dtor\<close> is how far the destructor is.\<close>

datatype 't worker = Waiting | Asleep | Running 't | Exited

datatype dtor_state = Not_called | Notifying | Joining nat

record 't worker_pool =
  wp_workers :: "'t worker list"
  wp_queues :: "'t list list"
  wp_stop :: bool
  wp_submitted :: u64
  wp_completed :: u64
  wp_inflight :: nat
  wp_notices :: nat
  wp_dtor :: dtor_state

definition worker_pool_new :: "nat \<Rightarrow> nat \<Rightarrow> 't worker_pool" where
  "worker_pool_new hardware_concurrency n =
     (let n = (if n = 0 then max 1 hardware_concurrency else n)
      in \<lparr>wp_workers = replicate n Waiting, wp_queues = replicate 4 [], wp_stop = False,
          wp_submitted = 0, wp_completed = 0, wp_inflight = 0, wp_notices = 0, wp_dtor = Not_called\<rparr>)"

definition submit :: "'t worker_pool \<Rightarrow> task_priority \<Rightarrow> 't \<Rightarrow> 't worker_pool" where
  "submit s p fn =
     s\<lparr>wp_queues := (wp_queues s)[prio_index p := wp_queues s ! prio_index p @ [fn]],
       wp_submitted := wp_submitted s + 1, wp_notices := wp_notices s + 1\<rparr>"

text \<open>The end of \<open>submit\<close>: \<open>notify_one\<close> unblocks some sleeping thread (the choice is the argument),
  or does nothing when no thread sleeps.\<close>

definition notify_one :: "'t worker_pool \<Rightarrow> nat option \<Rightarrow> 't worker_pool option" where
  "notify_one s choice =
     (if wp_notices s = 0 then None
      else case choice of
        None \<Rightarrow> if Asleep \<in> set (wp_workers s) then None else Some (s\<lparr>wp_notices := wp_notices s - 1\<rparr>)
      | Some w \<Rightarrow>
          if w < length (wp_workers s) \<and> wp_workers s ! w = Asleep
          then Some (s\<lparr>wp_workers := (wp_workers s)[w := Waiting], wp_notices := wp_notices s - 1\<rparr>)
          else None)"

definition all_empty :: "'t worker_pool \<Rightarrow> bool" where
  "all_empty s \<longleftrightarrow> list_all (\<lambda>q. q = []) (wp_queues s)"

fun pop_from :: "nat list \<Rightarrow> 't list list \<Rightarrow> ('t \<times> nat \<times> 't list list) option" where
  "pop_from [] qs = None"
| "pop_from (i # is) qs =
     (case qs ! i of fn # rest \<Rightarrow> Some (fn, i, qs[i := rest]) | [] \<Rightarrow> pop_from is qs)"

definition pop :: "'t worker_pool \<Rightarrow> ('t \<times> nat \<times> 't worker_pool) option" where
  "pop s = map_option (\<lambda>(fn, i, qs). (fn, i, s\<lparr>wp_queues := qs\<rparr>)) (pop_from [0..<4] (wp_queues s))"

text \<open>The body of \<open>wait_idle\<close>'s loop returns in these states.\<close>

definition idle :: "'t worker_pool \<Rightarrow> bool" where
  "idle s \<longleftrightarrow> wp_inflight s = 0 \<and> all_empty s"

text \<open>The destructor: its critical section, \<open>cv_.notify_all()\<close>, and one \<open>join\<close> after the other, each of
  which blocks until its thread has returned.\<close>

definition request_stop :: "'t worker_pool \<Rightarrow> 't worker_pool" where
  "request_stop s = s\<lparr>wp_stop := True, wp_dtor := Notifying\<rparr>"

fun awake :: "'t worker \<Rightarrow> 't worker" where
  "awake Asleep = Waiting"
| "awake w = w"

definition notify_all :: "'t worker_pool \<Rightarrow> 't worker_pool option" where
  "notify_all s =
     (if wp_dtor s = Notifying
      then Some (s\<lparr>wp_workers := map awake (wp_workers s), wp_dtor := Joining 0\<rparr>) else None)"

definition join_next :: "'t worker_pool \<Rightarrow> 't worker_pool option" where
  "join_next s =
     (case wp_dtor s of
        Joining i \<Rightarrow>
          if i < length (wp_workers s) \<and> wp_workers s ! i = Exited
          then Some (s\<lparr>wp_dtor := Joining (i + 1)\<rparr>) else None
      | _ \<Rightarrow> None)"

text \<open>The destructor returns in these states.\<close>

definition destroyed :: "'t worker_pool \<Rightarrow> bool" where
  "destroyed s \<longleftrightarrow> wp_dtor s = Joining (length (wp_workers s))"

text \<open>The first critical section of \<open>loop\<close> in thread \<open>w\<close>, entered from the top of the loop or on
  waking up: it goes to sleep, leaves the thread, or takes a task, whose queue is reported. A
  failing \<open>pop\<close> would \<open>continue\<close>.\<close>

datatype 't section_end =
    Fell_asleep "'t worker_pool" | Left_thread "'t worker_pool" | Took nat 't "'t worker_pool" | Again "'t worker_pool"

definition loop_enter :: "'t worker_pool \<Rightarrow> nat \<Rightarrow> 't section_end option" where
  "loop_enter s w =
     (if wp_workers s ! w \<noteq> Waiting then None
      else if \<not> (wp_stop s \<or> \<not> all_empty s)
      then Some (Fell_asleep (s\<lparr>wp_workers := (wp_workers s)[w := Asleep]\<rparr>))
      else if wp_stop s \<and> all_empty s then Some (Left_thread (s\<lparr>wp_workers := (wp_workers s)[w := Exited]\<rparr>))
      else case pop s of
        None \<Rightarrow> Some (Again s)
      | Some (fn, i, s) \<Rightarrow>
          Some (Took i fn (s\<lparr>wp_workers := (wp_workers s)[w := Running fn],
                              wp_inflight := wp_inflight s + 1\<rparr>)))"

text \<open>The second critical section, after \<open>fn()\<close> has returned.\<close>

definition loop_leave :: "'t worker_pool \<Rightarrow> nat \<Rightarrow> ('t \<times> 't worker_pool) option" where
  "loop_leave s w =
     (case wp_workers s ! w of
        Running fn \<Rightarrow> Some (fn, s\<lparr>wp_workers := (wp_workers s)[w := Waiting],
          wp_inflight := wp_inflight s - 1, wp_completed := wp_completed s + 1\<rparr>)
      | _ \<Rightarrow> None)"

section \<open>Runs\<close>

datatype 't pool_event =
    Submitted task_priority 't
  | Started nat nat 't
  | Finished nat 't
  | Left nat
  | Slept nat
  | Woken nat
  | Notified "nat option"
  | Notified_all
  | Joined
  | Stopped

text \<open>The steps that the program takes by itself: those of the threads, and the notifications and
  joins that a call of \<open>submit\<close> or of the destructor still owes.\<close>

inductive worker_step :: "'t worker_pool \<Rightarrow> 't pool_event \<Rightarrow> 't worker_pool \<Rightarrow> bool" where
  start: "w < length (wp_workers s) \<Longrightarrow> loop_enter s w = Some (Took i fn s') \<Longrightarrow>
    worker_step s (Started w i fn) s'"
| leave: "w < length (wp_workers s) \<Longrightarrow> loop_enter s w = Some (Left_thread s') \<Longrightarrow>
    worker_step s (Left w) s'"
| sleep: "w < length (wp_workers s) \<Longrightarrow> loop_enter s w = Some (Fell_asleep s') \<Longrightarrow>
    worker_step s (Slept w) s'"
| finish: "w < length (wp_workers s) \<Longrightarrow> loop_leave s w = Some (fn, s') \<Longrightarrow>
    worker_step s (Finished w fn) s'"
| notify: "notify_one s c = Some s' \<Longrightarrow> worker_step s (Notified c) s'"
| notify_every: "notify_all s = Some s' \<Longrightarrow> worker_step s Notified_all s'"
| join: "join_next s = Some s' \<Longrightarrow> worker_step s Joined s'"

text \<open>\<open>wait\<close> may also wake up spuriously: this can happen, but nothing may rely on it.\<close>

inductive drain_step :: "'t worker_pool \<Rightarrow> 't pool_event \<Rightarrow> 't worker_pool \<Rightarrow> bool" where
  work: "worker_step s e s' \<Longrightarrow> drain_step s e s'"
| spurious: "w < length (wp_workers s) \<Longrightarrow> wp_workers s ! w = Asleep \<Longrightarrow>
    drain_step s (Woken w) (s\<lparr>wp_workers := (wp_workers s)[w := Waiting]\<rparr>)"

inductive pool_step :: "'t worker_pool \<Rightarrow> 't pool_event \<Rightarrow> 't worker_pool \<Rightarrow> bool" where
  drain: "drain_step s e s' \<Longrightarrow> pool_step s e s'"
| submit: "pool_step s (Submitted p fn) (submit s p fn)"
| stop: "wp_dtor s = Not_called \<Longrightarrow> pool_step s Stopped (request_stop s)"

inductive pool_run :: "'t worker_pool \<Rightarrow> 't pool_event list \<Rightarrow> 't worker_pool \<Rightarrow> bool" for s0 where
  init: "pool_run s0 [] s0"
| step: "pool_run s0 tr s \<Longrightarrow> pool_step s e s' \<Longrightarrow> pool_run s0 (tr @ [e]) s'"

text \<open>A run in which nothing is submitted any more.\<close>

inductive drain_run :: "'t worker_pool \<Rightarrow> 't pool_event list \<Rightarrow> 't worker_pool \<Rightarrow> bool" for s0 where
  init: "drain_run s0 [] s0"
| step: "drain_run s0 tr s \<Longrightarrow> drain_step s e s' \<Longrightarrow> drain_run s0 (tr @ [e]) s'"

fun submitted_in :: "nat \<Rightarrow> 't pool_event list \<Rightarrow> 't list" where
  "submitted_in i [] = []"
| "submitted_in i (Submitted p fn # tr) =
     (if prio_index p = i then fn # submitted_in i tr else submitted_in i tr)"
| "submitted_in i (_ # tr) = submitted_in i tr"

fun started_in :: "nat \<Rightarrow> 't pool_event list \<Rightarrow> 't list" where
  "started_in i [] = []"
| "started_in i (Started w j fn # tr) = (if j = i then fn # started_in i tr else started_in i tr)"
| "started_in i (_ # tr) = started_in i tr"

fun submitted_tasks :: "'t pool_event list \<Rightarrow> 't list" where
  "submitted_tasks [] = []"
| "submitted_tasks (Submitted p fn # tr) = fn # submitted_tasks tr"
| "submitted_tasks (_ # tr) = submitted_tasks tr"

fun finished_tasks :: "'t pool_event list \<Rightarrow> 't list" where
  "finished_tasks [] = []"
| "finished_tasks (Finished w fn # tr) = fn # finished_tasks tr"
| "finished_tasks (_ # tr) = finished_tasks tr"

definition queued :: "'t worker_pool \<Rightarrow> 't list" where
  "queued s = concat (wp_queues s)"

definition running :: "'t worker_pool \<Rightarrow> 't list" where
  "running s = concat (map (\<lambda>w. case w of Running fn \<Rightarrow> [fn] | _ \<Rightarrow> []) (wp_workers s))"

section \<open>What a step does\<close>

lemma upt_4: "[0..<4] = [0, 1, 2, 3 :: nat]"
  by (simp add: upt_rec)

lemma below_prio: "j < (1 :: nat) \<longleftrightarrow> j = 0" "j < (2 :: nat) \<longleftrightarrow> j = 0 \<or> j = 1"
  "j < (3 :: nat) \<longleftrightarrow> j = 0 \<or> j = 1 \<or> j = 2" "j < (4 :: nat) \<longleftrightarrow> j = 0 \<or> j = 1 \<or> j = 2 \<or> j = 3"
  by auto

lemma pop_Some:
  assumes "pop s = Some (fn, i, s')"
  obtains rest where "i < 4" "\<forall>j < i. wp_queues s ! j = []" "wp_queues s ! i = fn # rest"
    "s' = s\<lparr>wp_queues := (wp_queues s)[i := rest]\<rparr>"
  using assms by (auto simp: pop_def upt_4 below_prio split: list.splits)

lemma pop_None:
  assumes "length (wp_queues s) = 4" and "pop s = None"
  shows "all_empty s"
  using assms by (simp add: pop_def upt_4 all_empty_def list_all_length below_prio split: list.splits)

lemma loop_enter_Some:
  assumes "loop_enter s w = Some x"
  shows "wp_workers s ! w = Waiting"
    and "x = Took i fn s' \<Longrightarrow> \<exists>s1. pop s = Some (fn, i, s1) \<and>
      s' = s1\<lparr>wp_workers := (wp_workers s1)[w := Running fn], wp_inflight := wp_inflight s1 + 1\<rparr>"
    and "x = Left_thread s' \<Longrightarrow> wp_stop s \<and> all_empty s \<and> s' = s\<lparr>wp_workers := (wp_workers s)[w := Exited]\<rparr>"
    and "x = Fell_asleep s' \<Longrightarrow> \<not> wp_stop s \<and> all_empty s \<and> s' = s\<lparr>wp_workers := (wp_workers s)[w := Asleep]\<rparr>"
  using assms by (auto simp: loop_enter_def split: if_splits option.splits)

lemma drain_step_cases:
  assumes "drain_step s e s'"
  obtains (start) w i fn rest where "e = Started w i fn" "w < length (wp_workers s)"
      "wp_workers s ! w = Waiting" "i < 4" "\<forall>j < i. wp_queues s ! j = []" "wp_queues s ! i = fn # rest"
      "s' = s\<lparr>wp_queues := (wp_queues s)[i := rest], wp_workers := (wp_workers s)[w := Running fn],
              wp_inflight := wp_inflight s + 1\<rparr>"
  | (leave) w where "e = Left w" "w < length (wp_workers s)" "wp_workers s ! w = Waiting"
      "wp_stop s" "all_empty s" "s' = s\<lparr>wp_workers := (wp_workers s)[w := Exited]\<rparr>"
  | (sleep) w where "e = Slept w" "w < length (wp_workers s)" "wp_workers s ! w = Waiting"
      "\<not> wp_stop s" "all_empty s" "s' = s\<lparr>wp_workers := (wp_workers s)[w := Asleep]\<rparr>"
  | (finish) w fn where "e = Finished w fn" "w < length (wp_workers s)" "wp_workers s ! w = Running fn"
      "s' = s\<lparr>wp_workers := (wp_workers s)[w := Waiting], wp_inflight := wp_inflight s - 1,
              wp_completed := wp_completed s + 1\<rparr>"
  | (notify) w where "e = Notified (Some w)" "w < length (wp_workers s)" "wp_workers s ! w = Asleep" "0 < wp_notices s"
      "s' = s\<lparr>wp_workers := (wp_workers s)[w := Waiting], wp_notices := wp_notices s - 1\<rparr>"
  | (notify_none) "e = Notified None" "Asleep \<notin> set (wp_workers s)" "0 < wp_notices s"
      "s' = s\<lparr>wp_notices := wp_notices s - 1\<rparr>"
  | (notify_every) "e = Notified_all" "wp_dtor s = Notifying"
      "s' = s\<lparr>wp_workers := map awake (wp_workers s), wp_dtor := Joining 0\<rparr>"
  | (join) i where "e = Joined" "wp_dtor s = Joining i" "i < length (wp_workers s)" "wp_workers s ! i = Exited"
      "s' = s\<lparr>wp_dtor := Joining (i + 1)\<rparr>"
  | (wake) w where "e = Woken w" "w < length (wp_workers s)" "wp_workers s ! w = Asleep"
      "s' = s\<lparr>wp_workers := (wp_workers s)[w := Waiting]\<rparr>"
  using assms
proof (cases rule: drain_step.cases)
  case work
  then show ?thesis
  proof (cases rule: worker_step.cases)
    case (start w i fn)
    note enter = loop_enter_Some [OF start(3)]
    from enter(2) [OF refl] obtain s1 where pop: "pop s = Some (fn, i, s1)"
      and s': "s' = s1\<lparr>wp_workers := (wp_workers s1)[w := Running fn], wp_inflight := wp_inflight s1 + 1\<rparr>"
      by blast
    from pop show ?thesis
      by (rule pop_Some) (use start enter(1) s' in \<open>auto intro!: that(1)\<close>)
  next
    case (leave w)
    with loop_enter_Some(1,3) [OF leave(3)] show ?thesis by (intro that(2)) auto
  next
    case (sleep w)
    with loop_enter_Some(1,4) [OF sleep(3)] show ?thesis by (intro that(3)) auto
  next
    case (finish w fn)
    then show ?thesis
      by (intro that(4)) (auto simp: loop_leave_def split: worker.splits)
  next
    case (notify c)
    then show ?thesis
      by (cases c) (auto simp: notify_one_def split: if_splits intro: that(5,6))
  next
    case notify_every
    then show ?thesis by (intro that(7)) (auto simp: notify_all_def split: if_splits)
  next
    case join
    then show ?thesis by (auto simp: join_next_def split: dtor_state.splits if_splits intro: that(8))
  qed
next
  case (spurious w)
  then show ?thesis by (intro that(9)) auto
qed

lemma mset_concat_update:
  "i < length xs \<Longrightarrow> mset (concat (xs[i := y])) + mset (xs ! i) = mset (concat xs) + mset y"
proof -
  assume "i < length xs"
  moreover from this have "xs = take i xs @ xs ! i # drop (Suc i) xs" by (rule id_take_nth_drop)
  then have "mset (concat xs) = mset (concat (take i xs)) + mset (xs ! i) + mset (concat (drop (Suc i) xs))"
    by (metis append_assoc concat.simps(2) concat_append mset_append union_assoc)
  ultimately show ?thesis by (simp add: upd_conv_take_nth_drop)
qed

abbreviation task_of :: "'t worker \<Rightarrow> 't list" where
  "task_of w \<equiv> (case w of Running fn \<Rightarrow> [fn] | _ \<Rightarrow> [])"

lemma running_update:
  "w < length ws \<Longrightarrow>
    mset (concat (map task_of (ws[w := x]))) + mset (task_of (ws ! w)) =
    mset (concat (map task_of ws)) + mset (task_of x)"
  using mset_concat_update [of w "map task_of ws" "task_of x"] by (simp add: map_update)

lemma events_append [simp]:
  "submitted_in i (tr @ tr') = submitted_in i tr @ submitted_in i tr'"
  "started_in i (tr @ tr') = started_in i tr @ started_in i tr'"
  "submitted_tasks (tr @ tr') = submitted_tasks tr @ submitted_tasks tr'"
  "finished_tasks (tr @ tr') = finished_tasks tr @ finished_tasks tr'"
proof -
  show "submitted_in i (tr @ tr') = submitted_in i tr @ submitted_in i tr'"
    by (induction i tr rule: submitted_in.induct) simp_all
  show "started_in i (tr @ tr') = started_in i tr @ started_in i tr'"
    by (induction i tr rule: started_in.induct) simp_all
  show "submitted_tasks (tr @ tr') = submitted_tasks tr @ submitted_tasks tr'"
    by (induction tr rule: submitted_tasks.induct) simp_all
  show "finished_tasks (tr @ tr') = finished_tasks tr @ finished_tasks tr'"
    by (induction tr rule: finished_tasks.induct) simp_all
qed

section \<open>Accounting\<close>

definition pool_inv :: "'t pool_event list \<Rightarrow> 't worker_pool \<Rightarrow> bool" where
  "pool_inv tr s \<longleftrightarrow>
     length (wp_queues s) = 4 \<and>
     mset (submitted_tasks tr) = mset (queued s) + mset (running s) + mset (finished_tasks tr) \<and>
     (\<forall>i < 4. submitted_in i tr = started_in i tr @ wp_queues s ! i) \<and>
     wp_inflight s = length (running s) \<and>
     wp_submitted s = of_nat (length (submitted_tasks tr)) \<and>
     wp_completed s = of_nat (length (finished_tasks tr))"

lemma pool_inv_new: "pool_inv [] (worker_pool_new hw n)"
proof -
  have "concat (map task_of (replicate k Waiting)) = []" for k by (induction k) simp_all
  then show ?thesis
    by (simp add: pool_inv_def worker_pool_new_def Let_def queued_def running_def)
qed

lemma drain_step_frame:
  assumes "drain_step s e s'" and "length (wp_queues s) = 4"
  shows "length (wp_queues s') = 4 \<and> wp_stop s' = wp_stop s \<and>
    length (wp_workers s') = length (wp_workers s) \<and>
    (\<forall>i < 4. wp_queues s ! i = started_in i [e] @ wp_queues s' ! i) \<and>
    submitted_tasks [e] = [] \<and> (\<forall>i. submitted_in i [e] = []) \<and> wp_submitted s' = wp_submitted s \<and>
    wp_completed s' = wp_completed s + of_nat (length (finished_tasks [e]))"
  using assms(1) by (cases rule: drain_step_cases) (use assms(2) in \<open>auto simp: nth_list_update\<close>)

lemma running_same:
  assumes "w < length (wp_workers s)" and "task_of x = task_of (wp_workers s ! w)"
    and "wp_workers s' = (wp_workers s)[w := x]"
  shows "running s' = running s"
proof -
  have "map task_of (wp_workers s') = (map task_of (wp_workers s))[w := task_of (wp_workers s ! w)]"
    using assms by (simp add: map_update)
  also have "\<dots> = map task_of (wp_workers s)"
    using assms(1) by (simp add: list_update_same_conv)
  finally show ?thesis by (simp only: running_def)
qed

lemma task_of_awake [simp]: "task_of (awake w) = task_of w"
  by (cases w) simp_all

lemma drain_step_idle_tasks:
  assumes "drain_step s e s'" and "\<forall>w i fn. e \<noteq> Started w i fn" and "\<forall>w fn. e \<noteq> Finished w fn"
  shows "queued s' = queued s \<and> running s' = running s \<and> wp_inflight s' = wp_inflight s \<and> finished_tasks [e] = []"
  using assms(1)
proof (cases rule: drain_step_cases)
  case (leave w)
  with running_same [of w s Exited s'] show ?thesis by (simp add: queued_def)
next
  case (sleep w)
  with running_same [of w s Asleep s'] show ?thesis by (simp add: queued_def)
next
  case (notify w)
  with running_same [of w s Waiting s'] show ?thesis by (simp add: queued_def)
next
  case (wake w)
  with running_same [of w s Waiting s'] show ?thesis by (simp add: queued_def)
next
  case notify_every
  then show ?thesis by (simp add: queued_def running_def comp_def)
qed (use assms in \<open>simp_all add: queued_def running_def\<close>)

lemma drain_step_tasks:
  assumes "drain_step s e s'" and "length (wp_queues s) = 4"
  shows "mset (queued s) + mset (running s) = mset (queued s') + mset (running s') + mset (finished_tasks [e]) \<and>
    (wp_inflight s = length (running s) \<longrightarrow> wp_inflight s' = length (running s'))"
  using assms(1)
proof (cases rule: drain_step_cases)
  case (start w i fn rest)
  have q: "mset (queued s) = add_mset fn (mset (queued s'))"
    using mset_concat_update [of i "wp_queues s" rest] start assms(2) by (simp add: queued_def)
  have r: "mset (running s') = add_mset fn (mset (running s))"
    using running_update [of w "wp_workers s" "Running fn"] start by (simp add: running_def)
  then have "length (running s') = Suc (length (running s))" by (metis size_add_mset size_mset)
  moreover have "wp_inflight s' = Suc (wp_inflight s)" using start by simp
  ultimately show ?thesis using q r by (simp add: start(1))
next
  case (finish w fn)
  have r: "mset (running s) = add_mset fn (mset (running s'))"
    using running_update [of w "wp_workers s" Waiting] finish by (simp add: running_def)
  then have "length (running s) = Suc (length (running s'))" by (metis size_add_mset size_mset)
  moreover have "wp_inflight s' = wp_inflight s - 1" "queued s' = queued s"
    using finish by (simp_all add: queued_def)
  ultimately show ?thesis using r by (simp add: finish(1))
qed (use drain_step_idle_tasks [OF assms(1)] in simp_all)

lemma pool_inv_step:
  assumes inv: "pool_inv tr s" and step: "pool_step s e s'"
  shows "pool_inv (tr @ [e]) s'"
  using step
proof (cases rule: pool_step.cases)
  case drain
  have four: "length (wp_queues s) = 4" using inv by (simp add: pool_inv_def)
  from drain_step_frame [OF drain four] drain_step_tasks [OF drain four] inv show ?thesis
    by (simp add: pool_inv_def ac_simps)
next
  case (submit p fn)
  have "prio_index p < 4" by (cases p) simp_all
  with inv mset_concat_update [of "prio_index p" "wp_queues s" "wp_queues s ! prio_index p @ [fn]"]
  show ?thesis
    by (auto simp: pool_inv_def submit Worker_Pool.submit_def queued_def running_def nth_list_update)
next
  case stop
  with inv show ?thesis by (simp add: pool_inv_def request_stop_def queued_def running_def)
qed

lemma pool_inv_run: "pool_run (worker_pool_new hw n) tr s \<Longrightarrow> pool_inv tr s"
  by (induction rule: pool_run.induct) (auto intro: pool_inv_new pool_inv_step)

lemma idle_finished:
  assumes "pool_inv tr s" and "idle s"
  shows "mset (finished_tasks tr) = mset (submitted_tasks tr) \<and> wp_completed s = wp_submitted s"
proof -
  have "queued s = []" "running s = []"
    using assms by (auto simp: idle_def all_empty_def queued_def pool_inv_def list_all_iff)
  with assms(1) have "mset (finished_tasks tr) = mset (submitted_tasks tr)" by (simp add: pool_inv_def)
  moreover from this have "length (finished_tasks tr) = length (submitted_tasks tr)" by (metis size_mset)
  ultimately show ?thesis using assms(1) by (simp add: pool_inv_def)
qed

section \<open>No lost wake-up\<close>

text \<open>Before the stop no thread has left, and while a task is queued some thread is awake or a
  notification is on its way; once the destructor has notified, no thread sleeps and the joined
  threads have left.\<close>

definition wake_inv :: "'t worker_pool \<Rightarrow> bool" where
  "wake_inv s \<longleftrightarrow>
     wp_workers s \<noteq> [] \<and> (wp_stop s \<longleftrightarrow> wp_dtor s \<noteq> Not_called) \<and>
     (\<not> wp_stop s \<longrightarrow> Exited \<notin> set (wp_workers s)) \<and>
     (\<not> wp_stop s \<and> \<not> all_empty s \<longrightarrow> 0 < wp_notices s \<or> (\<exists>w \<in> set (wp_workers s). w \<noteq> Asleep)) \<and>
     (\<forall>i. wp_dtor s = Joining i \<longrightarrow> Asleep \<notin> set (wp_workers s) \<and> i \<le> length (wp_workers s) \<and>
        (\<forall>j < i. wp_workers s ! j = Exited))"

lemma set_update_subset_other: "y \<noteq> x \<Longrightarrow> y \<in> set (xs[w := x]) \<Longrightarrow> y \<in> set xs"
  using set_update_subset_insert [of xs w x] by blast

lemma awake_simps [simp]: "awake w \<noteq> Asleep" "Asleep \<noteq> awake w" "awake w = Exited \<longleftrightarrow> w = Exited"
  by (cases w; simp)+

lemma wake_inv_new: "wake_inv (worker_pool_new hw n)"
  by (simp add: wake_inv_def worker_pool_new_def Let_def all_empty_def list_all_iff
      less_max_iff_disj)

lemma wake_inv_update:
  assumes inv: "wake_inv s" and w: "w < length (wp_workers s)" "wp_workers s ! w \<noteq> Exited"
    and x: "x = Exited \<longrightarrow> wp_stop s" "x = Asleep \<longrightarrow> all_empty s' \<and> \<not> wp_stop s"
    and ws: "wp_workers s' = (wp_workers s)[w := x]" and stop: "wp_stop s' = wp_stop s"
    and dtor: "wp_dtor s' = wp_dtor s"
  shows "wake_inv s'"
proof -
  have "Exited \<notin> set (wp_workers s')" if "\<not> wp_stop s'"
    using that inv x(1) set_update_subset_other [of Exited x "wp_workers s" w]
    by (auto simp: wake_inv_def ws stop)
  moreover have "\<exists>w \<in> set (wp_workers s'). w \<noteq> Asleep" if "\<not> all_empty s'"
    using that x(2) set_update_memI [OF w(1), of x] by (auto simp: ws)
  moreover have "Asleep \<notin> set (wp_workers s') \<and> i \<le> length (wp_workers s') \<and>
      (\<forall>j < i. wp_workers s' ! j = Exited)" if "wp_dtor s' = Joining i" for i
  proof -
    have "Asleep \<notin> set (wp_workers s)" "x \<noteq> Asleep" "i \<le> length (wp_workers s)"
      and joined: "wp_workers s ! j = Exited" if "j < i" for j
      using that inv x(2) \<open>wp_dtor s' = Joining i\<close> by (auto simp: wake_inv_def dtor)
    moreover have "wp_workers s' ! j = Exited" if "j < i" for j
      using joined [OF that] w(2) by (cases "j = w") (simp_all add: ws)
    ultimately show ?thesis
      using inv that x(2) set_update_subset_other [of Asleep x "wp_workers s" w]
      by (auto simp: ws wake_inv_def dtor)
  qed
  ultimately show ?thesis using inv by (auto simp: wake_inv_def stop dtor ws)
qed

lemma wake_inv_drain:
  assumes inv: "wake_inv s" and step: "drain_step s e s'"
  shows "wake_inv s'"
  using step
proof (cases rule: drain_step_cases)
  case (start w i fn rest)
  then show ?thesis by (intro wake_inv_update [OF inv, of w "Running fn"]) simp_all
next
  case (leave w)
  then show ?thesis by (intro wake_inv_update [OF inv, of w Exited]) simp_all
next
  case (sleep w)
  then show ?thesis by (intro wake_inv_update [OF inv, of w Asleep]) (simp_all add: all_empty_def)
next
  case notify_none
  have "\<exists>w \<in> set (wp_workers s). w \<noteq> Asleep"
    using inv notify_none(2) by (cases "wp_workers s") (auto simp: wake_inv_def)
  with notify_none inv show ?thesis by (simp add: wake_inv_def)
next
  case notify_every
  then show ?thesis using inv by (auto simp: wake_inv_def all_empty_def)
next
  case (join i)
  then show ?thesis using inv by (auto simp: wake_inv_def all_empty_def less_Suc_eq)
qed (rule wake_inv_update [OF inv, where x = Waiting]; simp)+

lemma wake_inv_step:
  assumes inv: "wake_inv s" and step: "pool_step s e s'"
  shows "wake_inv s'"
  using step
proof (cases rule: pool_step.cases)
  case drain
  with inv show ?thesis by (rule wake_inv_drain)
qed (use inv in \<open>auto simp: wake_inv_def Worker_Pool.submit_def request_stop_def\<close>)

lemma wake_inv_run: "pool_run (worker_pool_new hw n) tr s \<Longrightarrow> wake_inv s"
  by (induction rule: pool_run.induct) (auto intro: wake_inv_new wake_inv_step)

text \<open>An awake thread that is not idle can step.\<close>

lemma awake_thread_steps:
  assumes "length (wp_queues s) = 4" and w: "w < length (wp_workers s)"
    and "wp_workers s ! w \<noteq> Asleep" "wp_workers s ! w \<noteq> Exited"
  shows "\<exists>e s'. worker_step s e s'"
proof (cases "wp_workers s ! w")
  case (Running fn)
  then show ?thesis using worker_step.finish [OF w] by (auto simp: loop_leave_def)
next
  case Waiting
  show ?thesis
  proof (cases "all_empty s")
    case True
    then show ?thesis
      using worker_step.leave [OF w] worker_step.sleep [OF w] Waiting
      by (cases "wp_stop s") (fastforce simp: loop_enter_def)+
  next
    case False
    with pop_None [OF assms(1)] obtain fn i s1 where "pop s = Some (fn, i, s1)"
      by (cases "pop s") auto
    then show ?thesis
      using worker_step.start [OF w] Waiting False by (fastforce simp: loop_enter_def)
  qed
qed (use assms in simp_all)

lemma notice_delivered:
  assumes "0 < wp_notices s"
  shows "\<exists>e s'. worker_step s e s'"
proof (cases "Asleep \<in> set (wp_workers s)")
  case True
  then obtain w where "w < length (wp_workers s)" "wp_workers s ! w = Asleep"
    by (auto simp: in_set_conv_nth)
  with worker_step.notify [of s "Some w"] assms show ?thesis by (fastforce simp: notify_one_def)
next
  case False
  with worker_step.notify [of s None] assms show ?thesis by (fastforce simp: notify_one_def)
qed

lemma queued_work_progresses:
  assumes "wake_inv s" and "length (wp_queues s) = 4" and "\<not> wp_stop s" and "\<not> all_empty s"
  shows "\<exists>e s'. worker_step s e s'"
proof (cases "0 < wp_notices s")
  case False
  with assms obtain w where "w < length (wp_workers s)" "wp_workers s ! w \<noteq> Asleep" "wp_workers s ! w \<noteq> Exited"
    unfolding wake_inv_def by (metis in_set_conv_nth)
  with assms(2) show ?thesis by (rule awake_thread_steps)
qed (rule notice_delivered)

section \<open>Shutdown\<close>

lemma stopped_pool_progresses:
  assumes inv: "wake_inv s" and four: "length (wp_queues s) = 4" and "wp_stop s" and "\<not> destroyed s"
  shows "\<exists>e s'. worker_step s e s'"
proof (cases "wp_dtor s")
  case Notifying
  then show ?thesis using worker_step.notify_every [of s] by (fastforce simp: notify_all_def)
next
  case (Joining i)
  with inv assms(4) have i: "i < length (wp_workers s)" and sleeps: "Asleep \<notin> set (wp_workers s)"
    by (auto simp: wake_inv_def destroyed_def)
  have awake: "wp_workers s ! i \<noteq> Asleep" using nth_mem [OF i] sleeps by force
  show ?thesis
  proof (cases "wp_workers s ! i = Exited")
    case True
    with Joining i worker_step.join [of s] show ?thesis by (fastforce simp: join_next_def)
  qed (rule awake_thread_steps [OF four i awake])
qed (use inv assms(3) in \<open>simp add: wake_inv_def\<close>)

text \<open>Steps that can still be taken when nothing is submitted: a start and a finish for a queued
  task, a finish for a running one, an exit for a live thread, a wake-up for a sleeping one, a
  delivery for each notification, the destructor's notification and its joins.\<close>

definition joins_left :: "'t worker_pool \<Rightarrow> nat" where
  "joins_left s =
     (case wp_dtor s of
        Not_called \<Rightarrow> 0
      | Notifying \<Rightarrow> Suc (length (wp_workers s))
      | Joining i \<Rightarrow> length (wp_workers s) - i)"

definition work_left :: "'t worker_pool \<Rightarrow> nat" where
  "work_left s = 2 * length (queued s) + length (running s) +
     length (filter (\<lambda>w. w \<noteq> Exited) (wp_workers s)) + length (filter (\<lambda>w. w = Asleep) (wp_workers s)) +
     wp_notices s + joins_left s"

abbreviation live :: "'t worker_pool \<Rightarrow> bool" where
  "live s \<equiv> list_ex (\<lambda>w. w \<noteq> Exited) (wp_workers s)"

lemma length_filter_update:
  "i < length xs \<Longrightarrow> length (filter P (xs[i := y])) + (if P (xs ! i) then 1 else 0) =
     length (filter P xs) + (if P y then 1 else 0)"
proof -
  assume i: "i < length xs"
  have "length (filter P (take i xs @ x # drop (Suc i) xs)) =
      length (filter P (take i xs)) + length (filter P (drop (Suc i) xs)) + (if P x then 1 else 0)" for x
    by simp
  from this [of "xs ! i"] this [of y] i show ?thesis
    by (simp add: upd_conv_take_nth_drop id_take_nth_drop [symmetric])
qed

lemma drain_step_decreases:
  assumes step: "drain_step s e s'" and four: "length (wp_queues s) = 4" and stop: "wp_stop s"
  shows "work_left s' < work_left s"
proof -
  have tasks: "length (queued s) + length (running s) =
      length (queued s') + length (running s') + length (finished_tasks [e])"
    using drain_step_tasks [OF step four] by (metis size_mset size_union)
  have joins: "joins_left s' = joins_left s" if "wp_dtor s' = wp_dtor s"
    using that drain_step_frame [OF step four] by (simp add: joins_left_def split: dtor_state.split)
  note counts = length_filter_update [where P = "\<lambda>w. w \<noteq> Exited" and xs = "wp_workers s"]
    length_filter_update [where P = "\<lambda>w. w = Asleep" and xs = "wp_workers s"]
  from step show ?thesis
  proof (cases rule: drain_step_cases)
    case (start w i fn rest)
    have "length (queued s) = Suc (length (queued s'))"
      using arg_cong [OF mset_concat_update [of i "wp_queues s" rest], of size] start four
      by (simp add: queued_def)
    with tasks joins start counts [of w "Running fn"] show ?thesis by (simp add: work_left_def)
  next
    case (leave w)
    with tasks joins counts [of w Exited] show ?thesis by (simp add: work_left_def queued_def)
  next
    case (finish w fn)
    with tasks joins counts [of w Waiting] show ?thesis by (simp add: work_left_def queued_def)
  next
    case (notify w)
    with tasks joins counts [of w Waiting] show ?thesis by (simp add: work_left_def queued_def)
  next
    case (wake w)
    with tasks joins counts [of w Waiting] show ?thesis by (simp add: work_left_def queued_def)
  next
    case notify_every
    then show ?thesis
      by (simp add: work_left_def joins_left_def queued_def running_def comp_def filter_map)
  next
    case notify_none
    with tasks joins show ?thesis by (simp add: work_left_def queued_def)
  qed (use stop in \<open>simp_all add: work_left_def joins_left_def queued_def running_def\<close>)
qed

lemma list_ex_update: "w < length ws \<Longrightarrow> P x \<Longrightarrow> list_ex P (ws[w := x])"
  by (auto simp: list_ex_length intro!: exI [of _ w])

lemma drain_step_live:
  assumes "drain_step s e s'" and "live s \<or> all_empty s"
  shows "live s' \<or> all_empty s'"
  using assms(1)
proof (cases rule: drain_step_cases)
  case (leave w)
  then show ?thesis by (simp add: all_empty_def)
next
  case notify_every
  with assms(2) show ?thesis by (simp add: list_ex_iff all_empty_def)
qed (use assms(2) in \<open>auto simp: all_empty_def list_ex_update\<close>)

lemma drain_run_pool_run:
  "drain_run s tr' s' \<Longrightarrow> pool_run s0 tr s \<Longrightarrow> pool_run s0 (tr @ tr') s'"
  by (induction rule: drain_run.induct)
    (auto simp flip: append_assoc intro: pool_run.step pool_step.drain)

lemma drain_run_inv:
  assumes "drain_run s tr' s'" and four: "length (wp_queues s) = 4" and stop: "wp_stop s"
  shows "length (wp_queues s') = 4 \<and> wp_stop s' \<and> submitted_tasks tr' = [] \<and>
    length tr' + work_left s' \<le> work_left s \<and> (live s \<or> all_empty s \<longrightarrow> live s' \<or> all_empty s')"
  using assms(1)
proof induction
  case (step tr s1 e s2)
  with drain_step_frame [OF step.hyps(2)] drain_step_decreases [OF step.hyps(2)]
    drain_step_live [OF step.hyps(2)] show ?case by auto
qed (simp add: four stop)

lemma destroyed_finished:
  assumes inv: "pool_inv tr s" "wake_inv s" and "destroyed s" and "live s \<or> all_empty s"
  shows "list_all (\<lambda>w. w = Exited) (wp_workers s) \<and>
    mset (finished_tasks tr) = mset (submitted_tasks tr) \<and> wp_completed s = wp_submitted s"
proof -
  have exited: "list_all (\<lambda>w. w = Exited) (wp_workers s)"
    using inv(2) assms(3) by (simp add: wake_inv_def destroyed_def list_all_length)
  then have "\<not> live s" "running s = []" by (auto simp: running_def list_all_iff list_ex_iff)
  with assms(4) inv(1) have "idle s" by (simp add: idle_def pool_inv_def)
  with idle_finished [OF inv(1)] exited show ?thesis by simp
qed

section \<open>Properties\<close>

text \<open>C36: accounting of the pool. In every state a pool can reach, each submitted task is
  queued, running or finished, exactly as often as it was submitted; the tasks of one priority
  start in the order they were submitted, and a task only starts when no higher priority has a
  waiting one; \<open>inflight_\<close> is the number of running tasks, at most one per thread. When
  \<open>wait_idle\<close> returns, every submitted task has finished and the two counters agree.\<close>

theorem pool_accounts_for_every_task:
  assumes "pool_run (worker_pool_new hw n) tr s"
  shows "mset (submitted_tasks tr) = mset (queued s) + mset (running s) + mset (finished_tasks tr) \<and>
    (\<forall>i < 4. submitted_in i tr = started_in i tr @ wp_queues s ! i) \<and>
    (\<forall>w p fn s' q. worker_step s (Started w (prio_index p) fn) s' \<and> q < p \<longrightarrow>
       wp_queues s ! prio_index q = []) \<and>
    wp_inflight s = length (running s) \<and> length (running s) \<le> length (wp_workers s) \<and>
    (idle s \<longrightarrow> mset (finished_tasks tr) = mset (submitted_tasks tr) \<and> wp_completed s = wp_submitted s)"
proof -
  have inv: "pool_inv tr s" by (rule pool_inv_run [OF assms])
  have "length (concat (map task_of ws)) \<le> length ws" for ws :: "'a worker list"
    by (induction ws) (auto split: worker.splits)
  then have "length (running s) \<le> length (wp_workers s)" by (simp add: running_def)
  moreover have "\<forall>w p fn s' q. worker_step s (Started w (prio_index p) fn) s' \<and> q < p \<longrightarrow>
      wp_queues s ! prio_index q = []"
    by (auto simp: less_task_priority_def dest!: drain_step.work elim!: drain_step_cases)
  ultimately show ?thesis using inv idle_finished [OF inv] by (simp add: pool_inv_def)
qed

text \<open>C37: the pool makes progress and shuts down. As long as no stop is requested, a queued task is
  never forgotten: a thread or a notification that is due can step. Once the destructor has
  requested the stop while a thread is alive, only a bounded number of steps is left, spurious
  wake-ups included; without relying on spurious wake-ups some step can be taken until the
  destructor has joined every thread, and then every task that was ever submitted has finished.\<close>

theorem shutdown_finishes_every_task:
  assumes "pool_run (worker_pool_new hw n) tr s"
  shows "(\<not> wp_stop s \<and> \<not> all_empty s \<longrightarrow> (\<exists>e s'. worker_step s e s')) \<and>
    (wp_stop s \<and> live s \<and> drain_run s tr' s' \<longrightarrow>
       length tr' \<le> work_left s \<and>
       ((\<exists>e s''. worker_step s' e s'') \<or>
        destroyed s' \<and> list_all (\<lambda>w. w = Exited) (wp_workers s') \<and>
        mset (finished_tasks (tr @ tr')) = mset (submitted_tasks tr) \<and> wp_completed s' = wp_submitted s'))"
proof (intro conjI impI)
  have four: "length (wp_queues s) = 4" using pool_inv_run [OF assms] by (simp add: pool_inv_def)
  show "\<exists>e s'. worker_step s e s'" if "\<not> wp_stop s \<and> \<not> all_empty s"
    using queued_work_progresses [OF wake_inv_run [OF assms] four] that by blast
  assume stopped: "wp_stop s \<and> live s \<and> drain_run s tr' s'"
  then have run: "pool_run (worker_pool_new hw n) (tr @ tr') s'"
    using drain_run_pool_run assms by blast
  note drained = drain_run_inv [of s tr' s', OF _ four]
  show "length tr' \<le> work_left s" using drained stopped by simp
  show "(\<exists>e s''. worker_step s' e s'') \<or> destroyed s' \<and> list_all (\<lambda>w. w = Exited) (wp_workers s') \<and>
      mset (finished_tasks (tr @ tr')) = mset (submitted_tasks tr) \<and> wp_completed s' = wp_submitted s'"
  proof (cases "destroyed s'")
    case True
    with destroyed_finished [OF pool_inv_run [OF run] wake_inv_run [OF run]] drained stopped
    show ?thesis by simp
  next
    case False
    with stopped_pool_progresses [OF wake_inv_run [OF run]] drained stopped show ?thesis by simp
  qed
qed

text \<open>One thread, one task, then the stop.\<close>

definition demo_pool :: "nat worker_pool" where
  "demo_pool = request_stop (submit (worker_pool_new 1 1) Prio_high 7)"

lemma demo_pool_run: "pool_run (worker_pool_new 1 1) [Submitted Prio_high 7, Stopped] demo_pool"
proof -
  have "wp_dtor (submit (worker_pool_new 1 1) Prio_high 7) = Not_called"
    by (simp add: submit_def worker_pool_new_def Let_def)
  from pool_run.step [OF pool_run.step [OF pool_run.init pool_step.submit] pool_step.stop [OF this]]
  show ?thesis unfolding demo_pool_def by simp
qed

theorem pool_accounts_for_every_task_witness:
  "mset (submitted_tasks [Submitted Prio_high 7, Stopped]) =
     mset (queued demo_pool) + mset (running demo_pool)"
  using pool_accounts_for_every_task [OF demo_pool_run] by simp

text \<open>The same pool when its thread went to sleep before the task came: it is the notification of
  \<open>submit\<close> that lets it go on, and after the stop the one of the destructor.\<close>

definition sleepy_pool :: "nat worker_pool" where
  "sleepy_pool = request_stop (submit ((worker_pool_new 1 1)\<lparr>wp_workers := [Asleep]\<rparr>) Prio_high 7)"

lemma sleepy_pool_run:
  "pool_run (worker_pool_new 1 1) [Slept 0, Submitted Prio_high 7, Stopped] sleepy_pool"
proof -
  have "worker_step (worker_pool_new 1 1) (Slept 0) ((worker_pool_new 1 1)\<lparr>wp_workers := [Asleep]\<rparr>)"
    by (rule worker_step.sleep)
      (simp_all add: worker_pool_new_def Let_def loop_enter_def all_empty_def list_all_iff eval_nat_numeral)
  moreover have "wp_dtor (submit ((worker_pool_new 1 1)\<lparr>wp_workers := [Asleep]\<rparr>) Prio_high 7) = Not_called"
    by (simp add: submit_def worker_pool_new_def Let_def)
  ultimately show ?thesis
    using pool_run.step [OF pool_run.step [OF pool_run.step [OF pool_run.init
          pool_step.drain [OF drain_step.work]] pool_step.submit] pool_step.stop]
    unfolding sleepy_pool_def by fastforce
qed

theorem shutdown_finishes_every_task_witness:
  "work_left sleepy_pool = 7 \<and> (\<exists>e s. worker_step sleepy_pool e s)"
proof -
  have demo: "wp_stop sleepy_pool \<and> live sleepy_pool \<and> drain_run sleepy_pool [] sleepy_pool"
    "\<not> destroyed sleepy_pool" "work_left sleepy_pool = 7"
    by (simp_all add: sleepy_pool_def request_stop_def submit_def worker_pool_new_def Let_def destroyed_def
        work_left_def joins_left_def queued_def running_def eval_nat_numeral drain_run.init)
  from shutdown_finishes_every_task [OF sleepy_pool_run, of "[]" sleepy_pool] demo show ?thesis by blast
qed

end
