(* ===== verification/Arena.thy ===== *)
theory Arena
  imports Hive_Prelude
begin

text \<open>
  \<open>include/hive_native/perf/arena.hpp\<close>: the bump-pointer arena, with \<open>size_t\<close> as 64-bit words. A
  chunk is represented by its size, a pointer by the chunk's position and the offset in it; the
  bytes themselves are never read by the arena. A zero alignment divides by zero, undefined
  behaviour. Running out of memory is not modelled. \<open>create\<close> takes the size and the
  alignment of the type and the constructed object as arguments and returns the object with its
  place.
\<close>

section \<open>Operations\<close>

record arena =
  ar_chunk_size :: u64
  ar_offset :: u64
  ar_chunks :: "u64 list"

definition arena_grow :: "arena \<Rightarrow> arena" where
  "arena_grow a = a\<lparr>ar_chunks := ar_chunks a @ [ar_chunk_size a], ar_offset := 0\<rparr>"

definition arena_new :: "u64 \<Rightarrow> arena" where
  "arena_new chunk = arena_grow \<lparr>ar_chunk_size = chunk, ar_offset = 0, ar_chunks = []\<rparr>"

definition arena_pad :: "arena \<Rightarrow> u64 \<Rightarrow> u64" where
  "arena_pad a align = (align - (ar_offset a mod align)) mod align"

definition arena_make_room :: "arena \<Rightarrow> u64 \<Rightarrow> u64 \<Rightarrow> arena" where
  "arena_make_room a n align =
     (let need = n + align;
          a = (if need > ar_chunk_size a then a\<lparr>ar_chunk_size := need\<rparr> else a)
      in arena_grow a)"

definition arena_allocate :: "arena \<Rightarrow> u64 \<Rightarrow> u64 \<Rightarrow> exn + (nat \<times> u64) \<times> arena" where
  "arena_allocate a n align =
     (if align = 0 then Inl Undefined_behaviour
      else let pad = arena_pad a align;
          (a, pad) = (if ar_offset a + pad + n > last (ar_chunks a)
                      then let a = arena_make_room a n align in (a, arena_pad a align)
                      else (a, pad));
          a = a\<lparr>ar_offset := ar_offset a + pad\<rparr>;
          p = (length (ar_chunks a) - 1, ar_offset a);
          a = a\<lparr>ar_offset := ar_offset a + n\<rparr>
        in Inr (p, a))"

definition arena_create :: "arena \<Rightarrow> u64 \<Rightarrow> u64 \<Rightarrow> 't \<Rightarrow> exn + ((nat \<times> u64) \<times> 't) \<times> arena" where
  "arena_create a size_of align_of obj =
     (case arena_allocate a size_of align_of of
        Inl e \<Rightarrow> Inl e
      | Inr (mem, a) \<Rightarrow> Inr ((mem, obj), a))"

definition arena_reset :: "arena \<Rightarrow> arena" where
  "arena_reset a =
     (if ar_chunks a = [] then a
      else let a = (if length (ar_chunks a) > 1 then a\<lparr>ar_chunks := take 1 (ar_chunks a)\<rparr> else a)
        in a\<lparr>ar_offset := 0\<rparr>)"

definition arena_chunk_count :: "arena \<Rightarrow> nat" where
  "arena_chunk_count a = length (ar_chunks a)"

definition arena_bytes_used :: "arena \<Rightarrow> u64" where
  "arena_bytes_used a =
     (if ar_chunks a = [] then 0
      else (of_nat (length (ar_chunks a)) - 1) * ar_chunk_size a + ar_offset a)"

section \<open>Allocation\<close>

definition arena_ok :: "arena \<Rightarrow> bool" where
  "arena_ok a \<longleftrightarrow>
     ar_chunks a \<noteq> [] \<and> unat (ar_chunk_size a) < 2 ^ 63 \<and>
     list_all (\<lambda>c. unat c \<le> unat (ar_chunk_size a)) (ar_chunks a) \<and>
     unat (ar_offset a) \<le> unat (last (ar_chunks a))"

definition request_ok :: "u64 \<times> u64 \<Rightarrow> bool" where
  "request_ok r \<longleftrightarrow> (case r of (n, align) \<Rightarrow> align \<noteq> 0 \<and> unat n + unat align < 2 ^ 63)"

lemma u64_small_add: "unat (x :: u64) + unat y < 2 ^ 64 \<Longrightarrow> unat (x + y) = unat x + unat y"
  by (simp add: unat_word_ariths)

lemma pad_aligns:
  assumes "align \<noteq> 0"
  shows "unat (arena_pad a align) < unat align"
    and "(unat (ar_offset a) + unat (arena_pad a align)) mod unat align = 0"
proof -
  have pos: "0 < unat align" using assms by (simp add: unat_gt_0)
  let ?o = "unat (ar_offset a)" and ?al = "unat align"
  have "?o mod ?al < ?al" using pos by simp
  then have "unat (align - (ar_offset a mod align)) = ?al - ?o mod ?al"
    by (subst unat_sub) (simp_all add: word_le_nat_alt unat_mod)
  then have pad: "unat (arena_pad a align) = (?al - ?o mod ?al) mod ?al"
    by (simp add: arena_pad_def unat_mod)
  then show "unat (arena_pad a align) < unat align" using pos by simp
  have "(?o + (?al - ?o mod ?al)) mod ?al = (?o mod ?al + (?al - ?o mod ?al)) mod ?al"
    by (simp add: mod_add_left_eq)
  also have "\<dots> = 0" using \<open>?o mod ?al < ?al\<close> by simp
  finally show "(?o + unat (arena_pad a align)) mod ?al = 0"
    by (simp add: pad mod_add_right_eq)
qed

lemma arena_ok_last: "arena_ok a \<Longrightarrow> unat (last (ar_chunks a)) < 2 ^ 63"
  by (auto simp: arena_ok_def list_all_iff dest!: last_in_set)

text \<open>What one allocation returns and where it leaves the arena.\<close>

lemma arena_allocate_spec:
  assumes ok: "arena_ok a" and req: "request_ok (n, align)"
  obtains off a' where "arena_allocate a n align = Inr ((length (ar_chunks a') - 1, off), a')"
    "arena_ok a'" "unat off mod unat align = 0" "unat (ar_offset a') = unat off + unat n"
    "ar_chunks a' = ar_chunks a \<and> unat (ar_offset a) \<le> unat off \<or> (\<exists>k. ar_chunks a' = ar_chunks a @ [k])"
proof -
  have al: "align \<noteq> 0" and small: "unat n + unat align < 2 ^ 63" using req by (auto simp: request_ok_def)
  let ?pad = "arena_pad a align"
  note pad = pad_aligns [OF al, of a]
  have off: "unat (ar_offset a) < 2 ^ 63" using ok arena_ok_last [OF ok] by (simp add: arena_ok_def)
  have sum1: "unat (ar_offset a + ?pad) = unat (ar_offset a) + unat ?pad"
    using pad(1) small off by (intro u64_small_add) simp
  have sum: "unat (ar_offset a + ?pad + n) = unat (ar_offset a) + unat ?pad + unat n"
    using pad(1) small off sum1 by (subst u64_small_add) simp_all
  show thesis
  proof (cases "ar_offset a + ?pad + n > last (ar_chunks a)")
    case False
    then have fits: "unat (ar_offset a + ?pad + n) \<le> unat (last (ar_chunks a))"
      by (simp add: word_less_nat_alt)
    show thesis
      by (rule that [of "a\<lparr>ar_offset := ar_offset a + ?pad + n\<rparr>" "ar_offset a + ?pad"])
        (use False al ok fits pad sum sum1 in \<open>auto simp: arena_allocate_def Let_def arena_ok_def\<close>)
  next
    case True
    let ?r = "arena_make_room a n align"
    have need: "unat (n + align) = unat n + unat align" using small by (intro u64_small_add) simp
    have room: "ar_offset ?r = 0" "ar_chunks ?r = ar_chunks a @ [ar_chunk_size ?r]"
        "unat n + unat align \<le> unat (ar_chunk_size ?r)" "unat (ar_chunk_size a) \<le> unat (ar_chunk_size ?r)"
        "unat (ar_chunk_size ?r) < 2 ^ 63"
      using ok need small
      by (auto simp: arena_make_room_def arena_grow_def Let_def arena_ok_def word_less_nat_alt)
    have zero: "arena_pad ?r align = 0" by (simp add: arena_pad_def room(1))
    have "list_all (\<lambda>c. unat c \<le> unat (ar_chunk_size ?r)) (ar_chunks ?r)"
      using ok room(4) by (auto simp: arena_ok_def room(2) list_all_iff)
    with room have "arena_ok (?r\<lparr>ar_offset := n\<rparr>)"
      by (simp add: arena_ok_def)
    then show thesis
      by (intro that [of "?r\<lparr>ar_offset := n\<rparr>" 0])
        (use True al zero room in \<open>auto simp: arena_allocate_def Let_def\<close>)
  qed
qed

section \<open>Sequences of allocations\<close>

text \<open>A block is a chunk position, a start and a length.\<close>

type_synonym block = "nat \<times> nat \<times> nat"

fun arena_serve :: "arena \<Rightarrow> (u64 \<times> u64) list \<Rightarrow> exn + block list \<times> arena" where
  "arena_serve a [] = Inr ([], a)"
| "arena_serve a ((n, align) # rs) =
     (case arena_allocate a n align of
        Inl e \<Rightarrow> Inl e
      | Inr ((c, off), a) \<Rightarrow>
          (case arena_serve a rs of
             Inl e \<Rightarrow> Inl e
           | Inr (bs, a) \<Rightarrow> Inr ((c, unat off, unat n) # bs, a)))"

definition disjoint_blocks :: "block \<Rightarrow> block \<Rightarrow> bool" where
  "disjoint_blocks b b' \<longleftrightarrow> (case (b, b') of ((c, s, l), (c', s', l')) \<Rightarrow>
     c \<noteq> c' \<or> s + l \<le> s' \<or> s' + l' \<le> s)"

definition inside :: "arena \<Rightarrow> block \<Rightarrow> bool" where
  "inside a b \<longleftrightarrow> (case b of (c, s, l) \<Rightarrow> c < length (ar_chunks a) \<and> s + l \<le> unat (ar_chunks a ! c))"

text \<open>The block lies beyond everything the arena has handed out.\<close>

definition beyond :: "arena \<Rightarrow> block \<Rightarrow> bool" where
  "beyond a b \<longleftrightarrow> (case b of (c, s, l) \<Rightarrow>
     length (ar_chunks a) \<le> c \<or> c = length (ar_chunks a) - 1 \<and> unat (ar_offset a) \<le> s)"

lemma arena_serve_spec:
  assumes "arena_ok a" and "list_all request_ok rs"
  shows "\<exists>bs a'. arena_serve a rs = Inr (bs, a') \<and> arena_ok a' \<and>
    (\<exists>more. ar_chunks a' = ar_chunks a @ more) \<and>
    list_all2 (\<lambda>(n, align) (c, s, l). l = unat n \<and> s mod unat align = 0) rs bs \<and>
    list_all (inside a') bs \<and> list_all (beyond a) bs \<and> sorted_wrt disjoint_blocks bs"
  using assms
proof (induction a rs rule: arena_serve.induct)
  case (2 a n align rs)
  from "2.prems" have req: "request_ok (n, align)" "list_all request_ok rs" by simp_all
  obtain off a1 where a1: "arena_allocate a n align = Inr ((length (ar_chunks a1) - 1, off), a1)"
    "arena_ok a1" "unat off mod unat align = 0" "unat (ar_offset a1) = unat off + unat n"
    "ar_chunks a1 = ar_chunks a \<and> unat (ar_offset a) \<le> unat off \<or> (\<exists>k. ar_chunks a1 = ar_chunks a @ [k])"
    using arena_allocate_spec [OF "2.prems"(1) req(1)] .
  from "2.IH" [OF a1(1) refl refl a1(2) req(2)] obtain bs a' more where ih:
    "arena_serve a1 rs = Inr (bs, a')" "arena_ok a'" "ar_chunks a' = ar_chunks a1 @ more"
    "list_all2 (\<lambda>(n, align) (c, s, l). l = unat n \<and> s mod unat align = 0) rs bs"
    "list_all (inside a') bs" "list_all (beyond a1) bs" "sorted_wrt disjoint_blocks bs"
    by auto
  let ?c = "length (ar_chunks a1) - 1"
  let ?b = "(?c, unat off, unat n)"
  have ne: "ar_chunks a1 \<noteq> []" using a1(2) by (simp add: arena_ok_def)
  have "unat off + unat n \<le> unat (last (ar_chunks a1))" using a1(2,4) by (simp add: arena_ok_def)
  with ne have inside: "inside a' ?b"
    by (cases "ar_chunks a1" rule: rev_cases) (simp_all add: inside_def ih(3) nth_append)
  have dis: "list_all (disjoint_blocks ?b) bs"
    using ih(6) ne a1(4)
    by (cases "ar_chunks a1" rule: rev_cases) (fastforce simp: list_all_iff beyond_def disjoint_blocks_def)+
  have "arena_ok a" by fact
  then have beyond: "beyond a ?b" "list_all (beyond a) bs"
    using a1(4,5) ih(6) by (auto simp: list_all_iff beyond_def arena_ok_def)
  have "\<exists>more'. ar_chunks a' = ar_chunks a @ more'" using a1(5) ih(3) by auto
  with inside dis beyond ih a1(1,3) show ?case by (auto simp: list_all_iff)
qed simp

section \<open>Properties\<close>

lemma arena_ok_new: "unat chunk < 2 ^ 63 \<Longrightarrow> arena_ok (arena_new chunk)"
  by (simp add: arena_ok_def arena_new_def arena_grow_def)

lemma arena_ok_reset: "arena_ok a \<Longrightarrow> arena_ok (arena_reset a)"
  by (cases "ar_chunks a") (simp_all add: arena_ok_def arena_reset_def)

text \<open>Where blocks are in memory: \<open>base\<close> gives the address of the buffer of each chunk, a
  \<open>std::vector\<close>. The standard allocator returns buffers that do not overlap and are aligned to the
  fundamental alignment \<open>g\<close> of the platform, and to no larger one.\<close>

definition heap_ok :: "nat \<Rightarrow> (nat \<Rightarrow> nat) \<Rightarrow> arena \<Rightarrow> bool" where
  "heap_ok g base a \<longleftrightarrow>
     (\<forall>c < length (ar_chunks a). base c mod g = 0 \<and>
       (\<forall>d < c. base c + unat (ar_chunks a ! c) \<le> base d \<or> base d + unat (ar_chunks a ! d) \<le> base c))"

fun address :: "(nat \<Rightarrow> nat) \<Rightarrow> block \<Rightarrow> nat" where
  "address base (c, s, l) = base c + s"

fun block_size :: "block \<Rightarrow> nat" where
  "block_size (c, s, l) = l"

definition disjoint_memory :: "(nat \<Rightarrow> nat) \<Rightarrow> block \<Rightarrow> block \<Rightarrow> bool" where
  "disjoint_memory base b b' \<longleftrightarrow>
     address base b + block_size b \<le> address base b' \<or> address base b' + block_size b' \<le> address base b"

lemma disjoint_in_memory:
  assumes "heap_ok g base a" and "inside a b" "inside a b'" and "disjoint_blocks b b'"
  shows "disjoint_memory base b b'"
proof -
  obtain c s l c' s' l' where b: "b = (c, s, l)" "b' = (c', s', l')" by (cases b, cases b')
  consider "c = c'" | "c < c'" | "c' < c" by linarith
  then show ?thesis
  proof cases
    case 1
    with assms(4) show ?thesis by (auto simp: b disjoint_blocks_def disjoint_memory_def)
  next
    case 2
    then have "base c' + unat (ar_chunks a ! c') \<le> base c \<or> base c + unat (ar_chunks a ! c) \<le> base c'"
      using assms(1,3) by (simp add: heap_ok_def inside_def b)
    with assms(2,3) show ?thesis by (auto simp: b disjoint_memory_def inside_def)
  next
    case 3
    then have "base c + unat (ar_chunks a ! c) \<le> base c' \<or> base c' + unat (ar_chunks a ! c') \<le> base c"
      using assms(1,2) by (simp add: heap_ok_def inside_def b)
    with assms(2,3) show ?thesis by (auto simp: b disjoint_memory_def inside_def)
  qed
qed

lemma aligned_in_memory:
  assumes "heap_ok g base a" and "inside a (c, s, l)" and "s mod k = 0" and "k dvd g"
  shows "address base (c, s, l) mod k = 0"
proof -
  have "g dvd base c" using assms(1,2) by (auto simp: heap_ok_def inside_def mod_eq_0_iff_dvd)
  with assms(3,4) show ?thesis by (simp add: mod_eq_0_iff_dvd dvd_trans [of k g])
qed

text \<open>C38: the arena hands out memory safely. From a well-formed arena (a new one, or one that has
  been reset, is), every sequence of requests with non-zero alignments whose size plus alignment
  is below \<open>2^63\<close> is served: each block has the requested length, starts at a multiple of its
  alignment within its chunk, lies inside the chunk, and no two blocks overlap. In memory the
  byte ranges are then disjoint and, for requested alignments that divide the alignment \<open>g\<close> of the
  chunks' buffers, the addresses are aligned.\<close>

theorem arena_blocks_are_disjoint:
  assumes "arena_ok a" and "list_all request_ok rs"
  shows "arena_ok (arena_reset a) \<and>
    (\<exists>bs a'. arena_serve a rs = Inr (bs, a') \<and> arena_ok a' \<and>
      list_all2 (\<lambda>(n, align) (c, s, l). l = unat n \<and> s mod unat align = 0) rs bs \<and>
      list_all (inside a') bs \<and> sorted_wrt disjoint_blocks bs \<and>
      (heap_ok g base a' \<longrightarrow> sorted_wrt (disjoint_memory base) bs \<and>
         list_all2 (\<lambda>(n, align) b. unat align dvd g \<longrightarrow> address base b mod unat align = 0) rs bs))"
proof -
  obtain bs a' where bs: "arena_serve a rs = Inr (bs, a')" "arena_ok a'"
    "list_all2 (\<lambda>(n, align) (c, s, l). l = unat n \<and> s mod unat align = 0) rs bs"
    "list_all (inside a') bs" "sorted_wrt disjoint_blocks bs"
    using arena_serve_spec [OF assms] by blast
  have "sorted_wrt (disjoint_memory base) bs" if "heap_ok g base a'"
    using bs(4) disjoint_in_memory [OF that] unfolding list_all_iff
    by (intro sorted_wrt_mono_rel [OF _ bs(5)]) blast
  moreover have "list_all2 (\<lambda>(n, align) b. unat align dvd g \<longrightarrow> address base b mod unat align = 0) rs bs"
    if "heap_ok g base a'"
  proof (rule list_all2_all_nthI)
    show "length rs = length bs" using bs(3) by (rule list_all2_lengthD)
    fix i assume i: "i < length rs"
    obtain n align c s l where at: "rs ! i = (n, align)" "bs ! i = (c, s, l)" by (cases "rs ! i", cases "bs ! i")
    have "s mod unat align = 0" using list_all2_nthD [OF bs(3) i] by (simp add: at)
    moreover have "inside a' (c, s, l)"
      using bs(4) i list_all2_lengthD [OF bs(3)] by (simp add: list_all_length flip: at(2))
    ultimately show "(case rs ! i of (n, align) \<Rightarrow> \<lambda>b. unat align dvd g \<longrightarrow> address base b mod unat align = 0) (bs ! i)"
      using aligned_in_memory [OF that] by (simp add: at del: address.simps)
  qed
  ultimately show ?thesis using bs arena_ok_reset [OF assms(1)] by blast
qed

theorem arena_blocks_are_disjoint_witness:
  "\<exists>b1 b2 a'. arena_serve (arena_new 64) [(10, 8), (100, 16)] = Inr ([b1, b2], a') \<and>
     disjoint_memory (\<lambda>c. 128 * c + 32) b1 b2 \<and> address (\<lambda>c. 128 * c + 32) b2 mod 16 = 0"
proof -
  have "arena_ok (arena_new 64)" by (rule arena_ok_new) simp
  moreover have "list_all request_ok [(10, 8), (100, 16)]" by (simp add: request_ok_def)
  ultimately obtain bs a' where bs: "arena_serve (arena_new 64) [(10, 8), (100, 16)] = Inr (bs, a')"
    "heap_ok 16 (\<lambda>c. 128 * c + 32) a' \<longrightarrow> sorted_wrt (disjoint_memory (\<lambda>c. 128 * c + 32)) bs \<and>
      list_all2 (\<lambda>(n :: u64, align :: u64) b. unat align dvd 16 \<longrightarrow> address (\<lambda>c. 128 * c + 32) b mod unat align = 0)
        [(10, 8), (100, 16)] bs"
    using arena_blocks_are_disjoint [of "arena_new 64" "[(10, 8), (100, 16)]" 16 "\<lambda>c. 128 * c + 32"] by blast
  have "bs = [(0, 0, 10), (1, 0, 100)]" "ar_chunks a' = [64, 116]"
    using bs(1) by (auto simp: arena_allocate_def arena_pad_def arena_new_def arena_grow_def arena_make_room_def Let_def)
  moreover from this(2) have "heap_ok 16 (\<lambda>c. 128 * c + 32) a'"
    by (auto simp: heap_ok_def less_Suc_eq mod_eq_0_iff_dvd)
  ultimately show ?thesis using bs by auto
qed

text \<open>A reset keeps one chunk and starts it afresh.\<close>

lemma arena_reset_shrinks:
  "arena_ok a \<Longrightarrow> arena_chunk_count (arena_reset a) = 1 \<and> arena_bytes_used (arena_reset a) = 0"
  by (cases "ar_chunks a") (auto simp: arena_ok_def arena_chunk_count_def arena_bytes_used_def arena_reset_def)

text \<open>The size check is computed in 64 bits: a request that wraps it around is granted in place.\<close>

lemma huge_request_is_granted:
  "arena_allocate ((arena_new 64)\<lparr>ar_offset := 8\<rparr>) (- 8) 8 = Inr ((0, 8), arena_new 64)"
  by (simp add: arena_allocate_def arena_pad_def arena_new_def arena_grow_def Let_def)

text \<open>\<open>bytes_used\<close> counts every full chunk at the current chunk size, even chunks made before it
  grew.\<close>

lemma bytes_used_exceeds_reserved:
  "\<exists>bs a. arena_serve (arena_new 64) [(10, 8), (1000, 8)] = Inr (bs, a) \<and>
     ar_chunks a = [64, 1008] \<and> arena_bytes_used a = 2008"
  by (simp add: arena_allocate_def arena_pad_def arena_new_def arena_grow_def arena_make_room_def
      arena_bytes_used_def Let_def)

text \<open>Only offsets are padded. An object is aligned in memory when its chunk is, which the
  allocator grants up to the fundamental alignment; a type with a larger one may be misplaced.\<close>

lemma created_object_is_aligned:
  assumes "arena_ok a" and "request_ok (size_of, align_of)"
    and "\<And>c. base c mod unat align_of = 0"
  shows "\<exists>c off a'. arena_create a size_of align_of obj = Inr (((c, off), obj), a') \<and> arena_ok a' \<and>
    (base c + unat off) mod unat align_of = 0"
proof -
  obtain off a' where a': "arena_allocate a size_of align_of = Inr ((length (ar_chunks a') - 1, off), a')"
    "arena_ok a'" "unat off mod unat align_of = 0"
    using arena_allocate_spec [OF assms(1,2)] by metis
  then have "(base (length (ar_chunks a') - 1) + unat off) mod unat align_of = 0"
    using assms(3) by (simp add: mod_eq_0_iff_dvd)
  with a' show ?thesis by (simp add: arena_create_def)
qed

lemma over_aligned_object_is_misplaced:
  "arena_create (arena_new 64) 32 32 obj = Inr (((0, 0), obj), (arena_new 64)\<lparr>ar_offset := 32\<rparr>)"
  "(16 :: nat) mod 16 = 0" "(16 + unat (0 :: u64)) mod 32 \<noteq> 0"
  by (simp_all add: arena_create_def arena_allocate_def arena_pad_def arena_new_def arena_grow_def Let_def)

end
