(* ===== verification/Simd_Math.thy ===== *)
theory Simd_Math
  imports Hive_Prelude
begin

text \<open>
  \<open>include/hive_native/perf/simd_math.hpp\<close>: element-wise arithmetic over arrays in memory. Memory
  is a function from element addresses to 64-bit words and an array is its base address, so that
  the output may overlap the inputs. The vector instructions are modelled lane by lane: both
  backends load two elements of each input before they store two results.
\<close>

section \<open>Operations\<close>

type_synonym memory = "nat \<Rightarrow> u64"

datatype simd_backend = Neon | Sse2 | Scalar

definition simd_math_backend :: "simd_backend \<Rightarrow> string" where
  "simd_math_backend be = (case be of Neon \<Rightarrow> ''neon'' | Sse2 \<Rightarrow> ''sse2'' | Scalar \<Rightarrow> ''scalar'')"

definition lane :: "(u64 \<Rightarrow> u64 \<Rightarrow> u64) \<Rightarrow> nat \<Rightarrow> nat \<Rightarrow> nat \<Rightarrow> memory \<Rightarrow> nat \<Rightarrow> memory" where
  "lane f a b out m i = m(out + i := f (m (a + i)) (m (b + i)))"

definition lanes2 :: "(u64 \<Rightarrow> u64 \<Rightarrow> u64) \<Rightarrow> nat \<Rightarrow> nat \<Rightarrow> nat \<Rightarrow> memory \<Rightarrow> nat \<Rightarrow> memory" where
  "lanes2 f a b out m i =
     (let r0 = f (m (a + i)) (m (b + i)); r1 = f (m (a + i + 1)) (m (b + i + 1))
      in m(out + i := r0, out + i + 1 := r1))"

function tail_loop :: "(u64 \<Rightarrow> u64 \<Rightarrow> u64) \<Rightarrow> nat \<Rightarrow> nat \<Rightarrow> nat \<Rightarrow> nat \<Rightarrow> memory \<Rightarrow> nat \<Rightarrow> memory" where
  "tail_loop f a b out n m i =
     (if i < n then tail_loop f a b out n (lane f a b out m i) (i + 1) else m)"
  by pat_completeness auto
termination by (relation "measure (\<lambda>(f, a, b, out, n, m, i). n - i)") auto

function pair_loop :: "(u64 \<Rightarrow> u64 \<Rightarrow> u64) \<Rightarrow> nat \<Rightarrow> nat \<Rightarrow> nat \<Rightarrow> nat \<Rightarrow> memory \<Rightarrow> nat \<Rightarrow> memory \<times> nat" where
  "pair_loop f a b out n m i =
     (if i + 2 \<le> n then pair_loop f a b out n (lanes2 f a b out m i) (i + 2) else (m, i))"
  by pat_completeness auto
termination by (relation "measure (\<lambda>(f, a, b, out, n, m, i). n - i)") auto

declare tail_loop.simps [simp del] pair_loop.simps [simp del]

definition batch :: "simd_backend \<Rightarrow> (u64 \<Rightarrow> u64 \<Rightarrow> u64) \<Rightarrow> memory \<Rightarrow> nat \<Rightarrow> nat \<Rightarrow> nat \<Rightarrow> nat \<Rightarrow> memory" where
  "batch be f m a b out n =
     (let (m, i) = (if be = Scalar then (m, 0) else pair_loop f a b out n m 0)
      in tail_loop f a b out n m i)"

definition batch_mul_u64_scalar :: "memory \<Rightarrow> nat \<Rightarrow> nat \<Rightarrow> nat \<Rightarrow> nat \<Rightarrow> memory" where
  "batch_mul_u64_scalar m a b out n = tail_loop (*) a b out n m 0"

definition batch_add_u64_scalar :: "memory \<Rightarrow> nat \<Rightarrow> nat \<Rightarrow> nat \<Rightarrow> nat \<Rightarrow> memory" where
  "batch_add_u64_scalar m a b out n = tail_loop (+) a b out n m 0"

definition batch_mul_u64 :: "simd_backend \<Rightarrow> memory \<Rightarrow> nat \<Rightarrow> nat \<Rightarrow> nat \<Rightarrow> nat \<Rightarrow> memory" where
  "batch_mul_u64 be m a b out n = batch be (*) m a b out n"

definition batch_add_u64 :: "simd_backend \<Rightarrow> memory \<Rightarrow> nat \<Rightarrow> nat \<Rightarrow> nat \<Rightarrow> nat \<Rightarrow> memory" where
  "batch_add_u64 be m a b out n = batch be (+) m a b out n"

section \<open>The vector loops agree with the scalar reference\<close>

lemma lanes2_two_lanes:
  assumes "out \<noteq> a + 1" and "out \<noteq> b + 1"
  shows "lanes2 f a b out m i = lane f a b out (lane f a b out m i) (i + 1)"
  using assms by (auto simp: lanes2_def lane_def Let_def)

lemma pair_then_tail:
  assumes "out \<noteq> a + 1" and "out \<noteq> b + 1"
  shows "(case pair_loop f a b out n m i of (m', i') \<Rightarrow> tail_loop f a b out n m' i') =
    tail_loop f a b out n m i"
  using assms
proof (induction f a b out n m i rule: pair_loop.induct)
  case (1 f a b out n m i)
  show ?case
  proof (cases "i + 2 \<le> n")
    case True
    have two: "lanes2 f a b out m i = lane f a b out (lane f a b out m i) (Suc i)"
      using lanes2_two_lanes [OF "1.prems"] by simp
    have "tail_loop f a b out n m i = tail_loop f a b out n (lanes2 f a b out m i) (i + 2)"
      unfolding two using True by (subst tail_loop.simps, simp, subst tail_loop.simps, simp)
    with True 1 show ?thesis by (subst pair_loop.simps) simp
  qed (simp add: pair_loop.simps)
qed

lemma tail_loop_result:
  assumes "\<not> (a < out \<and> out < a + n)" and "\<not> (b < out \<and> out < b + n)"
  shows "tail_loop f a b out n m i x =
    (if out + i \<le> x \<and> x < out + n then f (m (a + (x - out))) (m (b + (x - out))) else m x)"
  using assms
proof (induction f a b out n m i rule: tail_loop.induct)
  case (1 f a b out n m i)
  show ?case
  proof (cases "i < n")
    case True
    let ?m = "lane f a b out m i"
    have later: "?m (a + j) = m (a + j)" "?m (b + j) = m (b + j)" if "i < j" "j < n" for j
      using that "1.prems" by (auto simp: lane_def)
    have at: "?m y = (if y = out + i then f (m (a + i)) (m (b + i)) else m y)" for y
      by (simp add: lane_def)
    have step: "tail_loop f a b out n m i x = tail_loop f a b out n ?m (i + 1) x"
      using True by (subst tail_loop.simps) simp
    have ih: "tail_loop f a b out n ?m (i + 1) x =
        (if out + (i + 1) \<le> x \<and> x < out + n then f (?m (a + (x - out))) (?m (b + (x - out))) else ?m x)"
      by (rule "1.IH" [OF True "1.prems"])
    show ?thesis
    proof (cases "out + (i + 1) \<le> x \<and> x < out + n")
      case in_tail: True
      then have "i < x - out" "x - out < n" by auto
      with later [of "x - out"] in_tail show ?thesis unfolding step ih by simp
    next
      case False
      with \<open>i < n\<close> show ?thesis unfolding step ih by (auto simp: at)
    qed
  qed (auto simp: tail_loop.simps)
qed

text \<open>Every backend computes the scalar result unless the output starts one element after an
  input, where a vector load overtakes the scalar store.\<close>

lemma batch_equals_scalar:
  assumes "out \<noteq> a + 1" and "out \<noteq> b + 1"
  shows "batch_mul_u64 be m a b out n = batch_mul_u64_scalar m a b out n"
    and "batch_add_u64 be m a b out n = batch_add_u64_scalar m a b out n"
  using pair_then_tail [OF assms, of "(*)" n m 0] pair_then_tail [OF assms, of "(+)" n m 0]
  by (auto simp: batch_mul_u64_def batch_mul_u64_scalar_def batch_add_u64_def batch_add_u64_scalar_def
      batch_def Let_def)

text \<open>Without an input that is overwritten before it is read, the result is element-wise and
  nothing else changes.\<close>

lemma batch_elementwise:
  assumes "\<not> (a < out \<and> out < a + n)" and "\<not> (b < out \<and> out < b + n)" and "out \<noteq> a + 1" "out \<noteq> b + 1"
  shows "batch_add_u64 be m a b out n x =
      (if out \<le> x \<and> x < out + n then m (a + (x - out)) + m (b + (x - out)) else m x)"
    and "batch_mul_u64 be m a b out n x =
      (if out \<le> x \<and> x < out + n then m (a + (x - out)) * m (b + (x - out)) else m x)"
  using tail_loop_result [OF assms(1,2), of _ m 0 x]
  by (simp_all add: batch_equals_scalar [OF assms(3,4)] batch_add_u64_scalar_def batch_mul_u64_scalar_def)

text \<open>For an output one element after an input the vector path gives a different sum.\<close>

lemma overlapping_output_differs:
  "batch_add_u64 Sse2 (\<lambda>_. 1) 0 10 1 2 2 = 2 \<and> batch_add_u64_scalar (\<lambda>_. 1) 0 10 1 2 2 = 3"
  by (simp add: batch_add_u64_def batch_add_u64_scalar_def batch_def pair_loop.simps tail_loop.simps
      lanes2_def lane_def Let_def)

section \<open>Properties\<close>

text \<open>C39: the vector paths are optimisations only. On every backend multiplying or adding two
  arrays leaves the same memory as the scalar reference loop, unless the output starts one
  element after an input; and when no input is overwritten before it is read, the output holds
  the 64-bit sums and products element by element and no other word of memory changes.\<close>

theorem vector_paths_equal_scalar:
  assumes "out \<noteq> a + 1" and "out \<noteq> b + 1"
  shows "batch_mul_u64 be m a b out n = batch_mul_u64_scalar m a b out n \<and>
    batch_add_u64 be m a b out n = batch_add_u64_scalar m a b out n \<and>
    (\<not> (a < out \<and> out < a + n) \<and> \<not> (b < out \<and> out < b + n) \<longrightarrow>
      (\<forall>i < n. batch_mul_u64 be m a b out n (out + i) = m (a + i) * m (b + i) \<and>
               batch_add_u64 be m a b out n (out + i) = m (a + i) + m (b + i)) \<and>
      (\<forall>x. x < out \<or> out + n \<le> x \<longrightarrow>
               batch_mul_u64 be m a b out n x = m x \<and> batch_add_u64 be m a b out n x = m x))"
  using batch_equals_scalar [OF assms] batch_elementwise [OF _ _ assms, of n be m] by simp

theorem vector_paths_equal_scalar_witness:
  "batch_add_u64 Neon of_nat 0 10 0 3 = batch_add_u64_scalar of_nat 0 10 0 3 \<and>
   batch_add_u64 Neon of_nat 0 10 0 3 2 = 14 \<and> batch_mul_u64 Neon of_nat 0 10 0 3 1 = 11 \<and>
   batch_mul_u64 Neon of_nat 0 10 0 3 12 = 12"
  using vector_paths_equal_scalar [of 0 0 10 Neon of_nat 3] by (auto dest: spec [of _ "2 :: nat"])

end
