(* ===== verification/Rocksdb_Presets.thy ===== *)
theory Rocksdb_Presets
  imports Hive_Prelude
begin

text \<open>
  \<open>include/hive_native/perf/rocksdb_presets.hpp\<close>: the tuning presets, their lookup and the cache
  size recommendation. A \<open>string_view\<close> is its text; the \<open>default\<close> branches of \<open>preset_sane\<close> are
  for values outside the enumerations and have no counterpart.
\<close>

section \<open>Presets\<close>

datatype rocksdb_compression = Rc_none | Rc_snappy | Rc_lz4 | Rc_zstd

datatype rocksdb_compaction = Rk_level | Rk_universal | Rk_fifo

record rocksdb_preset =
  rp_name :: string
  rp_block_cache_mb :: u32
  rp_write_buffer_mb :: u32
  rp_compression_hot :: rocksdb_compression
  rp_compression_cold :: rocksdb_compression
  rp_bloom_bits_per_key :: u32
  rp_compaction_style :: rocksdb_compaction
  rp_level0_file_num_compaction_trigger :: int

fun compression_name :: "rocksdb_compression \<Rightarrow> string" where
  "compression_name Rc_none = ''none''"
| "compression_name Rc_snappy = ''snappy''"
| "compression_name Rc_lz4 = ''lz4''"
| "compression_name Rc_zstd = ''zstd''"

fun compaction_name :: "rocksdb_compaction \<Rightarrow> string" where
  "compaction_name Rk_level = ''level''"
| "compaction_name Rk_universal = ''universal''"
| "compaction_name Rk_fifo = ''fifo''"

definition block_cache_mb_from_free_ram :: "u32 \<Rightarrow> u32 \<Rightarrow> u32 \<Rightarrow> u32" where
  "block_cache_mb_from_free_ram free_ram_mb min_mb max_mb =
     (let v = (ucast free_ram_mb * 25) div 100 :: u64
      in if v < ucast min_mb then min_mb
         else if v > ucast max_mb then max_mb
         else ucast v)"

definition witness_nvme :: rocksdb_preset where
  "witness_nvme =
     \<lparr>rp_name = ''witness_nvme'', rp_block_cache_mb = 2048, rp_write_buffer_mb = 128,
      rp_compression_hot = Rc_lz4, rp_compression_cold = Rc_zstd, rp_bloom_bits_per_key = 10,
      rp_compaction_style = Rk_level, rp_level0_file_num_compaction_trigger = 4\<rparr>"

definition mobile_emmc :: rocksdb_preset where
  "mobile_emmc =
     \<lparr>rp_name = ''mobile_emmc'', rp_block_cache_mb = 64, rp_write_buffer_mb = 16,
      rp_compression_hot = Rc_zstd, rp_compression_cold = Rc_zstd, rp_bloom_bits_per_key = 10,
      rp_compaction_style = Rk_level, rp_level0_file_num_compaction_trigger = 2\<rparr>"

definition archive_hdd :: rocksdb_preset where
  "archive_hdd =
     \<lparr>rp_name = ''archive_hdd'', rp_block_cache_mb = 512, rp_write_buffer_mb = 256,
      rp_compression_hot = Rc_lz4, rp_compression_cold = Rc_zstd, rp_bloom_bits_per_key = 10,
      rp_compaction_style = Rk_universal, rp_level0_file_num_compaction_trigger = 8\<rparr>"

definition k_rocksdb_presets :: "rocksdb_preset list" where
  "k_rocksdb_presets = [witness_nvme, mobile_emmc, archive_hdd]"

definition k_rocksdb_preset_count :: nat where
  "k_rocksdb_preset_count = length k_rocksdb_presets"

definition find_rocksdb_preset :: "string \<Rightarrow> rocksdb_preset option" where
  "find_rocksdb_preset name =
     map_option (nth k_rocksdb_presets)
       (find (\<lambda>i. rp_name (k_rocksdb_presets ! i) = name) [0..<k_rocksdb_preset_count])"

definition preset_sane :: "rocksdb_preset \<Rightarrow> bool" where
  "preset_sane p \<longleftrightarrow>
     rp_name p \<noteq> [] \<and> rp_block_cache_mb p \<noteq> 0 \<and> rp_write_buffer_mb p \<noteq> 0 \<and>
     rp_bloom_bits_per_key p \<noteq> 0 \<and> \<not> rp_level0_file_num_compaction_trigger p < 1"

section \<open>Correctness\<close>

lemmas preset_defs = witness_nvme_def mobile_emmc_def archive_hdd_def k_rocksdb_presets_def

text \<open>Every preset is found under its name and is sane, and nothing else is found.\<close>

lemma find_map: "find P (map f xs) = map_option f (find (\<lambda>x. P (f x)) xs)"
  by (induction xs) simp_all

lemma find_rocksdb_preset_eq: "find_rocksdb_preset name = find (\<lambda>p. rp_name p = name) k_rocksdb_presets"
  using find_map [of "\<lambda>p. rp_name p = name" "nth k_rocksdb_presets" "[0..<length k_rocksdb_presets]"]
  by (simp add: find_rocksdb_preset_def k_rocksdb_preset_count_def map_nth)

lemma find_rocksdb_preset_iff:
  "find_rocksdb_preset name = Some p \<longleftrightarrow> p \<in> set k_rocksdb_presets \<and> rp_name p = name"
proof -
  have "find (\<lambda>p. rp_name p = name) ps = Some p \<longleftrightarrow> p \<in> set ps \<and> rp_name p = name"
    if "distinct (map rp_name ps)" for ps
    using that by (induction ps) (auto simp: image_iff)
  moreover have "distinct (map rp_name k_rocksdb_presets)" by (simp add: preset_defs)
  ultimately show ?thesis by (simp add: find_rocksdb_preset_eq)
qed

lemma presets_are_sane: "list_all preset_sane k_rocksdb_presets"
  by (simp add: preset_sane_def preset_defs)

text \<open>The recommendation is a quarter of the free memory clamped to the band, computed without
  overflow.\<close>

lemma block_cache_recommendation:
  assumes "min_mb \<le> max_mb"
  shows "unat (block_cache_mb_from_free_ram ram min_mb max_mb) =
    max (unat min_mb) (min (unat max_mb) (unat ram * 25 div 100))"
proof -
  have small: "unat w < 2 ^ 32" for w :: u32 using unsigned_less [of w, where ?'a = nat] by simp
  have up: "unat (ucast w :: u64) = unat w" for w :: u32
    using small [of w] by (simp add: unsigned_ucast_eq take_bit_nat_eq_self)
  have "unat (ucast ram * 25 :: u64) = unat ram * 25"
    using small [of ram] by (simp add: unat_word_ariths up)
  then have v: "unat ((ucast ram * 25) div 100 :: u64) = unat ram * 25 div 100"
    by (simp add: unat_div)
  have "unat (ucast ((ucast ram * 25) div 100 :: u64) :: u32) = unat ram * 25 div 100"
    if "unat ram * 25 div 100 \<le> unat max_mb"
    using that small [of max_mb] v by (simp add: unsigned_ucast_eq take_bit_nat_eq_self)
  with assms v show ?thesis
    by (auto simp: block_cache_mb_from_free_ram_def Let_def word_less_nat_alt word_le_nat_alt up)
qed

end
