(* ===== verification/Rc_Calibrator.thy ===== *)
theory Rc_Calibrator
  imports Double Rc_Costs
begin

text \<open>
  \<open>include/hive_native/perf/rc_calibrator.hpp\<close>: resource credits from measured wall times. The
  samples, an \<open>unordered_map\<close> that is never iterated, are an \<open>omap\<close>; \<open>std::nth_element\<close> puts at
  position \<open>mid\<close> the element that sorting would put there. Samples are finite numbers.
\<close>

section \<open>Operations\<close>

type_synonym rc_calibrator = "(string, rat list) omap"

definition calibrator_add :: "rc_calibrator \<Rightarrow> string \<Rightarrow> rat \<Rightarrow> rc_calibrator" where
  "calibrator_add c op wall_us =
     om_put c op ((case om_find c op of None \<Rightarrow> [] | Some v \<Rightarrow> v) @ [wall_us])"

definition median_us :: "rc_calibrator \<Rightarrow> string \<Rightarrow> rat" where
  "median_us c op =
     (case om_find c op of
        None \<Rightarrow> 0
      | Some v \<Rightarrow> if v = [] then 0 else let mid = length v div 2 in sort v ! mid)"

definition calibrated_rc :: "rc_calibrator \<Rightarrow> string \<Rightarrow> u64" where
  "calibrated_rc c op =
     (let base = median_us c ''transfer''; opm = median_us c op in
      if base \<le> 0 \<or> opm \<le> 0 then TRANSFER_BASE
      else let ratio = double_div opm base;
               ratio = (if ratio < round_double (1 / 10) then round_double (1 / 10) else ratio);
               ratio = (if ratio > 100 then 100 else ratio)
        in of_int (llround (double_mul (double_of_u64 TRANSFER_BASE) ratio)))"

definition calibrator_op_count :: "rc_calibrator \<Rightarrow> nat" where
  "calibrator_op_count c = om_size c"

section \<open>The median\<close>

lemma sorted_below:
  assumes "sorted xs" and "i < length xs"
  shows "length (filter (\<lambda>x. x < xs ! i) xs) \<le> i"
    and "length (filter (\<lambda>x. xs ! i < x) xs) \<le> length xs - i - 1"
proof -
  have split: "xs = take i xs @ drop i xs" "xs = take (Suc i) xs @ drop (Suc i) xs" by simp_all
  have "filter (\<lambda>x. x < xs ! i) (drop i xs) = []"
    using assms by (auto simp: filter_empty_conv in_set_conv_nth sorted_nth_mono not_less)
  then have "length (filter (\<lambda>x. x < xs ! i) xs) = length (filter (\<lambda>x. x < xs ! i) (take i xs))"
    by (metis split(1) filter_append append_Nil2)
  also have "\<dots> \<le> i" by (metis length_filter_le length_take min.bounded_iff)
  finally show "length (filter (\<lambda>x. x < xs ! i) xs) \<le> i" .
  have "filter (\<lambda>x. xs ! i < x) (take (Suc i) xs) = []"
    using assms by (auto simp: filter_empty_conv in_set_conv_nth not_less less_Suc_eq_le sorted_nth_mono)
  then have "length (filter (\<lambda>x. xs ! i < x) xs) = length (filter (\<lambda>x. xs ! i < x) (drop (Suc i) xs))"
    by (metis split(2) filter_append append_Nil)
  also have "\<dots> \<le> length xs - i - 1" by (metis length_filter_le length_drop diff_Suc_eq_diff_pred diff_commute One_nat_def diff_diff_left plus_1_eq_Suc add.commute)
  finally show "length (filter (\<lambda>x. xs ! i < x) xs) \<le> length xs - i - 1" .
qed

lemma median_us_splits:
  assumes v: "om_find c op = Some v" "v \<noteq> []"
  shows "median_us c op \<in> set v"
    and "length (filter (\<lambda>x. x < median_us c op) v) \<le> length v div 2"
    and "length (filter (\<lambda>x. median_us c op < x) v) \<le> length v div 2"
proof -
  let ?m = "length v div 2"
  have m: "?m < length (sort v)" using v(2) by (simp add: div_less_dividend)
  have med: "median_us c op = sort v ! ?m" using v by (simp add: median_us_def)
  show "median_us c op \<in> set v" using nth_mem [OF m] by (simp add: med)
  have count: "length (filter P v) = length (filter P (sort v))" for P
    by (metis filter_sort length_sort)
  show "length (filter (\<lambda>x. x < median_us c op) v) \<le> length v div 2"
    "length (filter (\<lambda>x. median_us c op < x) v) \<le> length v div 2"
    using sorted_below [OF sorted_sort m] by (simp_all add: count med)
qed

section \<open>The calibrated cost\<close>

lemma double_tenth: "round_double (1 / 10) = 3602879701896397 / 36028797018963968"
  by code_simp

lemma double_transfer_base: "double_of_u64 TRANSFER_BASE = 1000"
proof -
  have "round_double 1000 = 1000" by code_simp
  then show ?thesis by (simp add: double_of_u64_def double_of_nat_def TRANSFER_BASE_def)
qed

definition clamp_ratio :: "rat \<Rightarrow> rat" where
  "clamp_ratio r =
     (let r = (if r < round_double (1 / 10) then round_double (1 / 10) else r)
      in if r > 100 then 100 else r)"

lemma clamp_ratio_range: "round_double (1 / 10) \<le> clamp_ratio r" "clamp_ratio r \<le> 100"
  by (auto simp: clamp_ratio_def Let_def double_tenth)

lemma calibrated_rc_eq:
  "calibrated_rc c op =
     (let base = median_us c ''transfer''; opm = median_us c op in
      if base \<le> 0 \<or> opm \<le> 0 then 1000
      else of_int (llround (round_double (1000 * clamp_ratio (round_double (opm / base))))))"
  unfolding calibrated_rc_def double_transfer_base double_div_def double_mul_def clamp_ratio_def Let_def
  by (simp add: TRANSFER_BASE_def)

text \<open>The scaled ratio before it is rounded to an integer.\<close>

lemma scaled_error:
  assumes "round_double (1 / 10) \<le> r" and "r \<le> 100"
  shows "\<bar>round_double (1000 * r) - 1000 * r\<bar> \<le> 1 / 10 ^ 10"
proof -
  have "0 \<le> r" using assms(1) by (simp add: double_tenth)
  then have "\<bar>1000 * r\<bar> / 2 ^ 53 \<le> 1 / 10 ^ 10 / 2" using assms(2) by simp
  with round_double_error [of "1000 * r"] show ?thesis by simp
qed

lemma scaled_llround:
  assumes "round_double (1 / 10) \<le> r" and "r \<le> 100"
  shows "\<bar>of_int (llround (round_double (1000 * r))) - 1000 * r\<bar> \<le> 1 / 2 + 1 / 10 ^ 10"
    and "100 \<le> llround (round_double (1000 * r))" and "llround (round_double (1000 * r)) \<le> 100000"
proof -
  let ?k = "llround (round_double (1000 * r))"
  have err: "\<bar>of_int ?k - 1000 * r\<bar> \<le> 1 / 2 + 1 / 10 ^ 10"
    using llround_error [of "round_double (1000 * r)"] scaled_error [OF assms] by linarith
  then show "\<bar>of_int ?k - 1000 * r\<bar> \<le> 1 / 2 + 1 / 10 ^ 10" .
  have "99 < 1000 * r - (1 / 2 + 1 / 10 ^ 10)" using assms(1) by (simp add: double_tenth)
  moreover have "1000 * r + (1 / 2 + 1 / 10 ^ 10) < 100001" using assms(2) by simp
  ultimately have "(99 :: rat) < of_int ?k" "of_int ?k < (100001 :: rat)" using err by linarith+
  then show "100 \<le> ?k" "?k \<le> 100000" by linarith+
qed

lemma unat_of_int_u64: "0 \<le> k \<Longrightarrow> k < 2 ^ 64 \<Longrightarrow> int (unat (of_int k :: u64)) = k"
  by (simp add: uint_word_of_int_eq take_bit_int_eq_self flip: uint_nat)

lemma clamp_ratio_error:
  assumes "1 / 10 \<le> q" and "q \<le> 100"
  shows "\<bar>clamp_ratio (round_double q) - q\<bar> \<le> 100 / 2 ^ 53"
proof -
  have "\<bar>q\<bar> / 2 ^ 53 \<le> 100 / 2 ^ 53" using assms by simp
  with round_double_error [of q] have close: "\<bar>round_double q - q\<bar> \<le> 100 / 2 ^ 53" by linarith
  define t :: rat where "t = round_double (1 / 10)"
  define eps :: rat where "eps = 100 / 2 ^ 53"
  have t: "t \<le> 1 / 10 + eps" "t \<le> 100" by (simp_all add: t_def eps_def double_tenth)
  have "\<bar>(if (if r < t then t else r) > 100 then 100 else if r < t then t else r) - q\<bar> \<le> eps"
    if "\<bar>r - q\<bar> \<le> eps" for r
    using that t assms by (intro abs_leI) (auto split: if_splits)
  from this [of "round_double q"] close show ?thesis
    by (simp only: clamp_ratio_def Let_def t_def [symmetric] eps_def [symmetric])
qed

section \<open>Properties\<close>

text \<open>C26: calibration is bounded and accurate. Every calibrated cost is between a tenth of and a
  hundred times the transfer cost, so it is never zero and never wraps around; when both
  operations have been measured and the median times differ by a factor between 1/10 and 100,
  the cost is 1000 times that factor rounded to an integer, up to the error of the \<open>double\<close>
  arithmetic; a transfer itself costs exactly 1000.\<close>

theorem calibrated_rc_is_accurate:
  "100 \<le> unat (calibrated_rc c op) \<and> unat (calibrated_rc c op) \<le> 100000 \<and>
   calibrated_rc c ''transfer'' = TRANSFER_BASE \<and>
   (let base = median_us c ''transfer''; opm = median_us c op
    in 0 < base \<and> 0 < opm \<and> 1 / 10 \<le> opm / base \<and> opm / base \<le> 100 \<longrightarrow>
       \<bar>of_nat (unat (calibrated_rc c op)) - 1000 * (opm / base)\<bar> \<le> 1 / 2 + 1 / 10 ^ 9)"
proof -
  let ?base = "median_us c ''transfer''" and ?opm = "median_us c op"
  let ?r = "clamp_ratio (round_double (?opm / ?base))"
  let ?k = "llround (round_double (1000 * ?r))"
  note r = clamp_ratio_range [of "round_double (?opm / ?base)"]
  have k: "int (unat (of_int ?k :: u64)) = ?k"
    using scaled_llround(2,3) [OF r] by (intro unat_of_int_u64) auto
  have bounds: "100 \<le> unat (of_int ?k :: u64)" "unat (of_int ?k :: u64) \<le> 100000"
    using scaled_llround(2,3) [OF r] k by linarith+
  have "\<bar>of_nat (unat (calibrated_rc c op)) - 1000 * (?opm / ?base)\<bar> \<le> 1 / 2 + 1 / 10 ^ 9"
    if *: "0 < ?base" "0 < ?opm" "1 / 10 \<le> ?opm / ?base" "?opm / ?base \<le> 100"
  proof -
    have "calibrated_rc c op = of_int ?k" using *(1,2) by (simp add: calibrated_rc_eq Let_def)
    with k have "(of_nat (unat (calibrated_rc c op)) :: rat) = of_int ?k" by (metis of_int_of_nat_eq)
    moreover have "\<bar>1000 * ?r - 1000 * (?opm / ?base)\<bar> \<le> 1000 * (100 / 2 ^ 53)"
      using clamp_ratio_error [OF *(3,4)] by linarith
    moreover have "(1000 * (100 / 2 ^ 53) :: rat) + 1 / 10 ^ 10 \<le> 1 / 10 ^ 9" by simp
    ultimately show ?thesis using scaled_llround(1) [OF r] by linarith
  qed
  moreover have "calibrated_rc c ''transfer'' = TRANSFER_BASE"
  proof -
    have "round_double 1 = 1" "llround (round_double (1000 * clamp_ratio 1)) = 1000"
      by code_simp+
    then show ?thesis by (simp add: calibrated_rc_eq Let_def TRANSFER_BASE_def)
  qed
  moreover have "100 \<le> unat (calibrated_rc c op)" "unat (calibrated_rc c op) \<le> 100000"
    using bounds by (auto simp: calibrated_rc_eq Let_def)
  ultimately show ?thesis by (auto simp: Let_def)
qed

definition demo_samples :: rc_calibrator where
  "demo_samples = foldl (\<lambda>c (op, w). calibrator_add c op w) om_empty
     [(''transfer'', 4), (''nft_mint'', 9), (''nft_mint'', 30), (''nft_mint'', 10)]"

theorem calibrated_rc_is_accurate_witness:
  "\<bar>of_nat (unat (calibrated_rc demo_samples ''nft_mint'')) - (2500 :: rat)\<bar> \<le> 1 / 2 + 1 / 10 ^ 9"
proof -
  have "median_us demo_samples ''transfer'' = 4" "median_us demo_samples ''nft_mint'' = 10"
    by (simp_all add: demo_samples_def calibrator_add_def median_us_def)
  with calibrated_rc_is_accurate [of demo_samples "''nft_mint''"] show ?thesis by (simp add: Let_def)
qed

end
