(* ===== verification/Spec2Isabelle.thy ===== *)
theory Spec2Isabelle
  imports Histories Charging Settlement Test_Vectors Api Serializability Account_Index Bloom Selective_Undo
    Compact_Block Worker_Pool Arena Simd_Math Rocksdb_Presets Rc_Calibrator
begin

text \<open>
  A verification development of hive-native-features: NFT, hash time-lock (HTLC) and smart
  contract operations for a Hive-like chain, with the query interface and the performance
  library around them. Paths below are relative to the repository.

  \<^bold>\<open>The program.\<close> A node keeps one \<open>database\<close> (\<open>include/hive_native/chain/database.hpp\<close>): balances, NFT
  collections and tokens, operator approvals, HTLCs, contracts and their storage, id counters,
  pending virtual operations. An operation (\<open>include/hive_native/protocol/\<close>) is validated and
  then applied by an evaluator (\<open>src/chain/evaluators_*.cpp\<close>), which checks the hardfork and the
  node's profile, charges resource credits (\<open>src/rc/costs.cpp\<close>), changes the database and
  announces a virtual operation; every refusal is a C++ exception. HTLC digests come from
  \<open>src/util/crypto.cpp\<close>. Contract calls go through the virtual functions of a contract engine
  (\<open>src/contracts/engine.cpp\<close>), also reached by a plugin (\<open>plugins/hive_contracts\<close>). The query
  interface (\<open>src/api\<close>) reads the database. The headers of \<open>include/hive_native/perf\<close> are
  libraries for a faster node: hashing, filters, tables, caches, scheduling, undo, block relay,
  threads and allocation.

  \<^bold>\<open>How code is modelled.\<close> A struct or class is a record, an enum a datatype, an unsigned integer a
  word of its width, a signed one a 64-bit word read with \<^const>\<open>sint\<close> whose overflow is the exception
  value \<open>Undefined_behaviour\<close>. A member function is a function from the old state to the new one;
  one that may throw returns an \<open>outcome\<close>, whose \<open>Threw e s\<close> also holds the state \<open>s\<close> that the
  exception leaves behind. \<open>std::map\<close> is the ordered association list \<open>omap\<close>. Loops are
  recursive functions or folds in the order of the source.

  \<^bold>\<open>Theories.\<close>
  \<^item> \<open>Hive_Prelude\<close>: types, exceptions, sequencing of checks, checked signed arithmetic, decimal
    text; the collections \<open>outcome_simps\<close> (inversion of outcomes) and \<open>protocol_intros\<close>.
    \<open>Ordered_Map\<close>: \<open>std::map\<close> and its update and summation laws.
  \<^item> \<open>Util_Types\<close>, \<open>Crypto\<close>: \<open>util/types.hpp\<close>, \<open>util/crypto.cpp\<close>. SHA-256 and RIPEMD-160 are
    interpretations of the locale \<open>md_hash\<close>: the incremental code is the fold of the compression
    function over the padded message. \<open>Test_Vectors\<close> evaluates the hashes on the inputs of the
    repository's tests.
  \<^item> \<open>Protocol\<close>, \<open>Rc_Costs\<close>: operations, \<open>validate()\<close> with the exact set of accepted operations,
    costs that never wrap for validated operations.
  \<^item> \<open>Database\<close>, \<open>Nft\<close>, \<open>Htlc\<close>: the state and its evaluators. For each evaluator its success
    condition and effect, its errors, an invariant of its tables, and a refinement of an abstract
    specification: the token ledger \<open>nft_ledger\<close> and the \<open>escrow\<close> machine.
  \<^item> \<open>Engine\<close>, \<open>Contracts\<close>: the locale \<open>contract_engine\<close> is what the chain relies on in an engine,
    interpreted on the null engine; \<open>contract_host\<close> proves the evaluators over any such engine and is
    interpreted on the default one. Metering, atomicity of failed calls, commit of staged writes.
  \<^item> \<open>Chain_System\<close> and this theory: all operations together and the runs of a node. The locale
    \<open>run_relation\<close> lifts per-step relations to runs; it is interpreted for supply, locks and tokens.
  \<^item> \<open>Json\<close>, \<open>Virtual_Ops\<close>: the JSON text of payloads with a reader that inverts it; the structs of
    the typed virtual operations and what each operation announces. \<open>Event_Log\<close>: the virtual
    operations as the interface to an indexer that runs beside the node. \<open>Histories\<close>: the history
    of tokens and locks that the log tells; the locale \<open>lifecycle\<close> lifts a checking automaton to
    runs. \<open>Charging\<close>: the resource credits that an accepted operation leaves on record.
  \<^item> \<open>Replicas\<close>: several nodes on the same inputs. The locale \<open>step_simulation\<close> lifts a relation
    kept by each input to sequences; it is interpreted on two databases that differ in the node's
    configuration, pending events and last charge. \<open>Authority\<close>: what may happen to an account
    that signs nothing, and swaps of two locks on one digest. \<open>Settlement\<close>: from every reachable
    state the locked funds can be brought back to their owners.
  \<^item> \<open>Node_Profiles\<close>, \<open>Api\<close>: role checks; queries, with the locale \<open>listing\<close> for completeness of
    paging, interpreted on all six list functions.
  \<^item> \<open>Xxhash\<close>, \<open>Bloom\<close>, \<open>Flat_Hash_Map\<close>, \<open>Account_Index\<close>: hashing; the filter (locale
    \<open>membership_filter\<close>) and the known-transaction set; the open-addressing table as a refinement
    of a finite map; the cache-aside account index over the locale \<open>lookaside\<close>.
  \<^item> \<open>Scheduler\<close>, \<open>Serializability\<close>: layered application over the evaluators, and when it is
    right: the locale \<open>commuting\<close> (operations that may be swapped unless they clash), interpreted on
    the evaluators, shows that the order inside a layer is irrelevant and that a schedule that
    keeps the order of conflicting operations has the effect of sequential application.
  \<^item> \<open>Double\<close>, \<open>Rc_Calibrator\<close>: finite \<open>double\<close> values as rationals with round-to-nearest-even to 53
    bits after each operation; \<open>perf/rc_calibrator.hpp\<close> over them (also used for the statistics of
    \<open>Scheduler\<close> and \<open>Account_Index\<close>).
  \<^item> \<open>Selective_Undo\<close>, \<open>Compact_Block\<close>, \<open>Worker_Pool\<close>, \<open>Arena\<close>, \<open>Simd_Math\<close>,
    \<open>Rocksdb_Presets\<close>: undo sessions, block relay, the
    thread pool as a step relation over its critical sections, sleeping threads and notifications,
    the arena over 64-bit sizes with the addresses of its buffers as an argument, vector
    loops over a shared memory, presets.

  \<^bold>\<open>Properties.\<close> Whole runs: the invariants hold in every reachable state, supply is constant, a lock
  settles at most once and on the right side of its expiration, tokens keep their identity, and
  only a malformed \<open>BURN\<close> argument escapes as an exception other than \<open>protocol_error\<close>; an indexer
  that reads the virtual operations always has the tables of the database, and the log of these
  operations is an unbroken history of every token and lock. Consensus nodes that take the same
  inputs agree, whatever else is in their configuration, and profiles decide what is refused. An
  account that signs nothing loses nothing it has not entrusted to a signer, and whoever collects
  one side of an atomic swap enables the other side, if both declare the same preimage size. No
  lock is stuck: once it has expired its sender can have it back, for all open locks together.
  Every accepted operation is charged exactly the cost of its kind. Components: refinement, exact
  acceptance (creation of a lock included), atomicity, bounds and round trips as listed with each
  theory.
  Some lemmas are about code that does not do what it says: the scheduler reorders conflicting
  operations, the hash table duplicates a key, a listing repeats its start, token serials collide
  after a burn, the fuel check wraps around, the memory and total storage quotas are not enforced, a malformed block
  announcement is accepted and an over-aligned object is misplaced.

  \<^bold>\<open>Bounds and fuel.\<close> Runs are shorter than \<open>2^64 - 1\<close> steps because the id counters are 64-bit and
  would wrap. Genesis totals fit in \<open>int64_t\<close>; the supply invariant then excludes signed overflow.
  The table's \<open>insert\<close> may rehash and insert again: two levels suffice because a table twice as
  large is below its load limit, and a probe of as many steps as there are slots meets a free
  slot or the key; both are proved, so the \<open>None\<close> of running out never occurs. Messages are
  shorter than \<open>2^64\<close> bytes, block bodies have at most \<open>2^32\<close> transactions, arena requests are
  below \<open>2^63\<close> bytes. A paging client asks for two objects or more at a time, because the code and
  its documentation disagree on whether \<open>start\<close> is included.

  \<^bold>\<open>Not modelled.\<close> Infinite, subnormal and not-a-number \<open>double\<close> values (the code divides only by
  non-zero counts and positive medians), clock waits, the bytes of objects in
  the arena, exhaustion of memory, the SQL schema, the TypeScript SDK, benchmarks and tests. What
  the manifest's map leaves uncovered in the headers are declarations, comments, include lines
  and accessors of a single field, which are the selectors of the records. A Wasm engine is not in the sources; the engine interface
  is an argument. Two operations applied by different threads at once do not occur: the scheduler
  applies its layers sequentially.
\<close>

section \<open>Properties of whole runs\<close>

text \<open>C1: safety of every reachable state. From a genesis of valid accounts with non-negative
  balances whose totals fit in \<open>int64_t\<close>, after any sequence of fewer than \<open>2^64 - 1\<close> steps
  (operations of every kind, accepted or rejected, in any order, interleaved with the passage
  of time) the invariants of the NFT, HTLC and contract tables hold together and no balance
  is negative.\<close>

theorem reachable_states_satisfy_invariants:
  assumes "genesis empty_database accs = Done g" and "non_negative accs"
    and "\<forall>sy. total_supply sy g \<le> INT64_MAX"
    and "chain_run n g db" and "n < 2 ^ 64 - 1"
  shows "chain_inv db"
  using chain_run_inv [OF assms(4) genesis_chain_inv [OF assms(1-3)]] assms(5) by simp

theorem reachable_states_satisfy_invariants_witness:
  "chain_inv (demo_genesis\<lparr>head_time := 1700000000\<rparr>)"
proof -
  have "chain_run (Suc 0) demo_genesis (demo_genesis\<lparr>head_time := 1700000000\<rparr>)"
    by (rule run_step [OF run_start step_time]) (simp add: demo_genesis_def empty_database_def)
  from reachable_states_satisfy_invariants [OF demo_genesis this] show ?thesis by simp
qed

text \<open>C2: along every run from such a genesis the supply of HIVE and of HBD, liquid plus
  locked, is what the genesis put there.\<close>

theorem supply_is_constant_along_runs:
  assumes "genesis empty_database accs = Done g" and "non_negative accs"
    and "\<forall>sy. total_supply sy g \<le> INT64_MAX"
    and "chain_run n g db" and "n < 2 ^ 64 - 1"
  shows "total_supply sy db = total_supply sy g"
  using funds.run [OF assms(4) genesis_chain_inv [OF assms(1-3)]] assms(5)
  by (simp add: same_supply_def)

theorem supply_is_constant_along_runs_witness:
  "total_supply HIVE (demo_genesis\<lparr>head_time := 1700000000\<rparr>) = total_supply HIVE demo_genesis"
proof -
  have "chain_run (Suc 0) demo_genesis (demo_genesis\<lparr>head_time := 1700000000\<rparr>)"
    by (rule run_step [OF run_start step_time]) (simp add: demo_genesis_def empty_database_def)
  from supply_is_constant_along_runs [OF demo_genesis this] show ?thesis by simp
qed

text \<open>C3: an HTLC settles at most once. Along any run a lock keeps its parties, amount, digest
  and expiration for ever; once redeemed or refunded it never changes again; and an open lock
  that is later found redeemed had not expired at the start, one found refunded has expired by
  the end.\<close>

theorem locks_settle_at_most_once:
  assumes "chain_run n db db'" and "chain_inv db" and "ids_below k db" and "k + n < 2 ^ 64"
    and "om_find (htlcs db) i = Some h"
  shows "\<exists>st. om_find (htlcs db') i = Some (h\<lparr>h_status := st\<rparr>) \<and>
    (h_status h \<noteq> Open \<longrightarrow> st = h_status h) \<and>
    (h_status h = Open \<and> st = Redeemed \<longrightarrow> head_time db < h_expiration h) \<and>
    (h_status h = Open \<and> st = Refunded \<longrightarrow> h_expiration h \<le> head_time db')"
proof -
  from locks.run [OF assms(1-4)] assms(5) obtain h'
    where "om_find (htlcs db') i = Some h'" "lock_after db db' h h'"
    unfolding locks_progress_def by blast
  then show ?thesis unfolding lock_after_def by auto
qed

lemma demo_htlc_chain:
  "chain_inv demo_htlc_db" "ids_below 2 demo_htlc_db" "om_find (htlcs demo_htlc_db) 1 = Some demo_htlc"
proof -
  have "nft_inv demo_htlc_db" "contract_inv demo_htlc_db"
    by (simp_all add: nft_inv_defs contract_inv_def demo_htlc_simps table_ok_empty)
  then show "chain_inv demo_htlc_db"
    by (simp add: chain_inv_def htlc_inv_demo funds_inv_demo)
qed (simp_all add: ids_below_def demo_htlc_simps)

theorem locks_settle_at_most_once_witness:
  "\<exists>st. om_find (htlcs (outcome_state (apply_op demo_htlc_db (Htlc_op (Htlc_redeem demo_redeem))))) 1 =
     Some (demo_htlc\<lparr>h_status := st\<rparr>)"
proof -
  have "chain_run (Suc 0) demo_htlc_db
      (outcome_state (apply_op demo_htlc_db (Htlc_op (Htlc_redeem demo_redeem))))"
    by (rule run_step [OF run_start step_op])
  from locks_settle_at_most_once [OF this demo_htlc_chain(1,2) _ demo_htlc_chain(3)]
  show ?thesis by auto
qed

text \<open>C4: along any run a token that still exists is the token it was: same collection, serial,
  content and minting time, and the same owner if it is soulbound. In particular the id of a
  burned token is never given to another one.\<close>

theorem tokens_keep_their_identity:
  assumes "chain_run n db db'" and "chain_inv db" and "ids_below k db" and "k + n < 2 ^ 64"
    and "i < next_nft_id db" and "om_find (nfts db') i = Some t'"
  shows "\<exists>t. om_find (nfts db) i = Some t \<and> token_after t t'"
  using tokens.run [OF assms(1-4)] assms(5,6) unfolding tokens_progress_def by blast

theorem tokens_keep_their_identity_witness:
  "\<exists>t. om_find (nfts demo_nft_db) 1 = Some t \<and> token_after t demo_token"
proof -
  have run: "chain_run (Suc 0) demo_nft_db (clear_virtual demo_nft_db)"
    by (rule run_step [OF run_start step_clear])
  show ?thesis
    by (rule tokens_keep_their_identity [OF run demo_nft_chain])
      (simp_all add: demo_nft_simps clear_virtual_def)
qed

text \<open>C5: the only exception any operation throws in a state that satisfies the invariants is
  \<open>protocol_error\<close>, with one exception: a contract call whose argument is a \<open>BURN\<close> command that
  does not parse as a 64-bit number.\<close>

theorem only_malformed_burn_escapes:
  assumes "chain_inv db" and "apply_op db op = Threw e db'"
  shows "(\<exists>msg. e = Protocol_error msg) \<or>
    (\<exists>x e'. op = Contract_op (Contract_call x) \<and> parse_command (cc_args x) = Malformed e')"
proof (cases op)
  case (Nft_op x)
  then show ?thesis
    using apply_nft_protocol_outcome [of db x] assms(2) by (simp add: protocol_outcome_def)
next
  case (Htlc_op x)
  then show ?thesis
    using apply_htlc_protocol_outcome [of db x] assms by (simp add: protocol_outcome_def chain_inv_def)
next
  case (Contract_op x)
  then show ?thesis
    using protocol_outcome_contract [of x db] assms(2) by (auto simp: protocol_outcome_def)
qed

theorem only_malformed_burn_escapes_witness:
  "\<exists>e db'. apply_op demo_nft_db (Nft_op (Nft_burn \<lparr>nb_owner = ''carol'', nb_nft_id = 1\<rparr>)) = Threw e db' \<and>
     (\<exists>msg. e = Protocol_error msg)"
proof -
  obtain e db' where *:
    "apply_op demo_nft_db (Nft_op (Nft_burn \<lparr>nb_owner = ''carol'', nb_nft_id = 1\<rparr>)) = Threw e db'"
    by (simp add: apply_nft_burn_def demo_nft_simps require_hardfork_def
        require_full_nft_state_def validate_nft_burn_def)
  from only_malformed_burn_escapes [OF demo_nft_chain(1) *] * show ?thesis by blast
qed

end
